(* ===== verification/Prelude.thy ===== *)
theory Prelude
  imports Main "HOL-Library.Word" "HOL-Library.Monad_Syntax"
begin

unbundle bit_operations_syntax

text \<open>
  Shared vocabulary of the development: the fixed-width integer types of the firmware, the
  masks it uses for index arithmetic, list-update facts, and iteration in the option monad.
  Everything here is independent of the program; the components build on it.
\<close>

named_theorems idx_simps \<open>index arithmetic: masks and wrap-around as remainders\<close>
named_theorems frame_simps \<open>what an operation leaves unchanged\<close>
named_theorems inv_intros \<open>operations keep their invariant\<close>

type_synonym u8 = "8 word"
type_synonym u16 = "16 word"
type_synonym u32 = "32 word"
type_synonym i64 = "64 word"

section \<open>Masks as remainders\<close>

lemma and_mask_mod [idx_simps]:
  "(x::int) AND 255 = x mod 256" "(x::int) AND 15 = x mod 16"
  "(x::int) AND 1023 = x mod 1024" "(x::int) AND 7 = x mod 8"
  "(x::int) AND 63 = x mod 64"
proof -
  have m: "x AND mask n = x mod 2 ^ n" for n
    by (simp flip: take_bit_eq_mask add: take_bit_eq_mod)
  show "x AND 255 = x mod 256" using m [of 8] by (simp add: mask_eq_exp_minus_1)
  show "x AND 15 = x mod 16" using m [of 4] by (simp add: mask_eq_exp_minus_1)
  show "x AND 1023 = x mod 1024" using m [of 10] by (simp add: mask_eq_exp_minus_1)
  show "x AND 7 = x mod 8" using m [of 3] by (simp add: mask_eq_exp_minus_1)
  show "x AND 63 = x mod 64" using m [of 6] by (simp add: mask_eq_exp_minus_1)
qed

section \<open>Folding a fallible step over a list\<close>

text \<open>
  \<open>None\<close> stands for "no defined outcome": the loop does not return, or an access is outside
  its array. A run of such steps stops at the first one.
\<close>

fun fold_opt :: "('x \<Rightarrow> 's \<Rightarrow> 's option) \<Rightarrow> 'x list \<Rightarrow> 's \<Rightarrow> 's option" where
  "fold_opt f [] s = Some s"
| "fold_opt f (x # xs) s = Option.bind (f x s) (fold_opt f xs)"

lemma fold_opt_Nil: "fold_opt f [] = Some"
  by (rule ext) simp

lemma fold_opt_append:
  "fold_opt f (xs @ ys) s = Option.bind (fold_opt f xs s) (fold_opt f ys)"
  by (induction xs arbitrary: s) (auto split: bind_splits)

lemma fold_opt_total:
  assumes "\<And>x s. x \<in> set xs \<Longrightarrow> P s \<Longrightarrow> \<exists>s'. f x s = Some s' \<and> P s'"
    and "P s"
  shows "\<exists>s'. fold_opt f xs s = Some s' \<and> P s'"
  using assms
proof (induction xs arbitrary: s)
  case Nil
  then show ?case by simp
next
  case (Cons x xs)
  from Cons.prems obtain s1 where s1: "f x s = Some s1" "P s1" by force
  have "\<exists>s'. fold_opt f xs s1 = Some s' \<and> P s'"
    by (rule Cons.IH) (use Cons.prems(1) s1 in auto)
  with s1 show ?case by simp
qed

text \<open>A step that is a total function in disguise folds as that function does.\<close>

lemma fold_opt_Some: "fold_opt (\<lambda>x s. Some (g x s)) xs s = Some (fold g xs s)"
  by (induction xs arbitrary: s) auto

section \<open>Bytes\<close>

lemma unat_u8_bound: "unat (b :: u8) < 256"
  using unsigned_less [of b] by simp

text \<open>The test \<open>b & 0x80\<close> of the parsers is a comparison with \<open>0x80\<close>.\<close>

lemma and_80_iff: "b AND 0x80 \<noteq> 0 \<longleftrightarrow> 0x80 \<le> (b :: u8)"
proof -
  have "b AND 2 ^ 7 \<noteq> 0 \<longleftrightarrow> bit b 7"
    by (metis and_exp_eq_0_iff_not_bit)
  also have "\<dots> \<longleftrightarrow> bit (unat b) 7"
    by (simp add: bit_unsigned_iff)
  also have "\<dots> \<longleftrightarrow> odd (unat b div 128)"
    by (simp add: bit_iff_odd)
  also have "\<dots> \<longleftrightarrow> 0x80 \<le> b"
  proof -
    have "unat b div 128 = (if unat b < 128 then 0 else 1)"
      using unat_u8_bound [of b] by (auto intro!: div_nat_eqI)
    then show ?thesis by (simp add: word_le_nat_alt not_less)
  qed
  finally show ?thesis by simp
qed

text \<open>The two nibbles of a byte.\<close>

lemma unat_low_nibble: "unat ((b :: u8) AND 0x0F) = unat b mod 16"
proof -
  have "b AND mask 4 = take_bit 4 b" by (simp add: take_bit_eq_mask)
  then show ?thesis by (simp add: mask_eq_exp_minus_1 take_bit_eq_mod unat_mod)
qed

lemma unat_high_nibble: "unat ((b :: u8) AND 0xF0) = 16 * (unat b div 16)"
proof -
  have "b AND 0xF0 = push_bit 4 (drop_bit 4 b)"
  proof (rule bit_word_eqI)
    fix n assume "n < LENGTH(8)"
    have e: "(0xF0 :: u8) = push_bit 4 (mask 4)" by (simp add: mask_eq_exp_minus_1)
    show "bit (b AND 0xF0) n = bit (push_bit 4 (drop_bit 4 b)) n"
      unfolding e using \<open>n < LENGTH(8)\<close> by (auto simp: bit_simps)
  qed
  then show ?thesis
    using unat_u8_bound [of b]
    by (simp add: push_bit_eq_mult drop_bit_eq_div unat_word_ariths unat_div)
qed


end
