(* ===== verification/Peripherals.thy ===== *)
theory Peripherals
  imports Prelude
begin

text \<open>
  The vocabulary of the board's set-up (\<open>app.c\<close>, \<open>i2c.c\<close>, \<open>main.c\<close>): the registers that only the set-up writes, the
  fields of those that it writes by field, and the calls of the peripheral library, whose constants keep
  their names. They occur in the trace of a run as events.
\<close>

datatype i2c_id = I2C_ID_2 | I2C_ID_4
datatype dma_channel = DCH0 | DCH3 | DCH4 | DCH5 | DCH6 | DCH7
datatype spi_id = SPI_ID_1 | SPI_ID_3 | SPI_ID_4 | SPI_ID_5 | SPI_ID_6
datatype usart_id = USART_ID_2 | USART_ID_4
datatype tmr_id = TMR_ID_2 | TMR_ID_3 | TMR_ID_5

datatype setup_reg =
    CFGEBIA | CFGEBIC | EBICS0 | EBIMSK0 | EBISMT0 | EBISMCON
  | SPIxCON spi_id | SPIxCON2 spi_id | SPIxSTATCLR spi_id
  | DCHxECON dma_channel | DCHxINT dma_channel | DCHxCSIZ dma_channel | DCHxCON dma_channel
  | PORTDCLR | PORTHSET
  | OSCCON | OSCCONSET | PRISS
  | OC8R | OC8CON | OC9R | OC9CON
  | ADC7CFG | ADCCON1 | ADCCON2 | ADCANCON | ADCCON3 | ADCIMCON2 | ADCIMCON3 | ADCTRGSNS | ADCCSS1 | ADCCSS2
  | IEC5CLR | IFS5CLR_SPI5
  | LATB | TRISB

datatype reg_field =
    PAGEMODE
  | SPI5EIE | SPI5TXIE | SPI5RXIE | SPI5EIF | SPI5TXIF | SPI5RXIF
  | SELRES | STRGSRC | SAMC | ADCDIV | EOSIEN | WKUPCLKCNT | CONCLKDIV | ADCSEL | CSS27 | CSS28 | CSS38 | CSS39
  | ADC_ON | ANEN7 | DIGEN7
  | BIT11 | NOSC

section \<open>The peripheral library\<close>

datatype rp_pin =
    RPA14 | RPA15 | RPB2 | RPB3 | RPB5 | RPB6 | RPB7 | RPB10 | RPB15 | RPC13 | RPC14
  | RPD0 | RPD4 | RPD5 | RPD6 | RPD7 | RPD11 | RPD14 | RPE8 | RPE9 | RPF8 | RPF12

datatype output_func =
    OUTPUT_FUNC_SDO1 | OUTPUT_FUNC_SS1 | OUTPUT_FUNC_SDO2 | OUTPUT_FUNC_SDO3 | OUTPUT_FUNC_SDO4
  | OUTPUT_FUNC_SDO5 | OUTPUT_FUNC_SDO6 | OUTPUT_FUNC_U2TX | OUTPUT_FUNC_U4TX
  | OUTPUT_FUNC_OC8 | OUTPUT_FUNC_OC9 | OUTPUT_FUNC_REFCLKO4

datatype input_func =
    INPUT_FUNC_SDI1 | INPUT_FUNC_SDI2 | INPUT_FUNC_SDI3 | INPUT_FUNC_SS3 | INPUT_FUNC_SDI4 | INPUT_FUNC_SS4
  | INPUT_FUNC_SDI6 | INPUT_FUNC_SS6 | INPUT_FUNC_U2RX | INPUT_FUNC_U4RX

datatype int_source =
  INT_SOURCE_DMA_0 | INT_SOURCE_USART_2_RECEIVE | INT_SOURCE_USART_4_RECEIVE | INT_SOURCE_I2C_4_SLAVE

datatype int_vector = INT_VECTOR_UART2_RX | INT_VECTOR_UART4_RX | INT_VECTOR_I2C4_SLAVE

datatype spi_pin = SPI_PIN_DATA_IN | SPI_PIN_SLAVE_SELECT
datatype tmr_prescale = TMR_PRESCALE_VALUE_1 | TMR_PRESCALE_VALUE_4 | TMR_PRESCALE_VALUE_64

datatype usart_receive_mode = USART_RECEIVE_FIFO_ONE_CHAR
datatype usart_transmit_mode = USART_TRANSMIT_FIFO_NOT_FULL
datatype usart_enable_mode = USART_ENABLE_TX_RX_USED

datatype port = PORT_A | PORT_B | PORT_C | PORT_D | PORT_E | PORT_F | PORT_G | PORT_H | PORT_J | PORT_K

datatype plib_call =
    pic32_flush_dcache
  | PLIB_INT_SourceDisable int_source | PLIB_INT_SourceEnable int_source
  | PLIB_INT_VectorPrioritySet int_vector nat | PLIB_INT_VectorSubPrioritySet int_vector nat
  | PLIB_DMA_Enable | PLIB_DMA_Disable
  | PLIB_PORTS_RemapOutput output_func rp_pin | PLIB_PORTS_RemapInput input_func rp_pin
  | PLIB_SPI_MasterEnable spi_id | PLIB_SPI_PinEnable spi_id spi_pin
  | PLIB_SPI_CommunicationWidthSelect_32BITS spi_id | PLIB_SPI_SlaveSelectEnable spi_id
  | PLIB_SPI_BaudRateSet spi_id nat nat | PLIB_SPI_Enable spi_id | PLIB_SPI_Disable spi_id
  | PLIB_USART_InitializeOperation usart_id usart_receive_mode usart_transmit_mode usart_enable_mode | PLIB_USART_TransmitterEnable usart_id
  | PLIB_USART_ReceiverEnable usart_id | PLIB_USART_BaudSetAndEnable usart_id nat nat
  | PLIB_TMR_Mode16BitEnable tmr_id | PLIB_TMR_PrescaleSelect tmr_id tmr_prescale
  | PLIB_TMR_Period16BitSet tmr_id nat | PLIB_TMR_Start tmr_id
  | PLIB_I2C_SlaveAddress7BitSet i2c_id u8
  | SYS_INT_Initialize | SYS_INT_Enable

text \<open>The oscillator, the register lock and the flash timing; references and buses by their number.\<close>

datatype osc_call =
    PLIB_DEVCON_SystemUnlock | PLIB_DEVCON_SystemLock
  | PLIB_OSC_FRCDivisorSelect nat | PLIB_OSC_PBClockDivisorSet nat nat | PLIB_OSC_PBOutputClockEnable nat
  | PLIB_OSC_ReferenceOscDisable nat | PLIB_OSC_ReferenceOutputDisable nat
  | PLIB_OSC_ReferenceOscBaseClockSelect nat nat | PLIB_OSC_ReferenceOscDivisorValueSet nat nat
  | PLIB_OSC_ReferenceOscTrimSet nat nat | PLIB_OSC_ReferenceOscEnable nat | PLIB_OSC_ReferenceOutputEnable nat
  | PLIB_OSC_SysPLLMultiplierSelect nat
  | PLIB_PCACHE_WaitStateSet nat | PLIB_PCACHE_PrefetchEnableSet_CPU_INST_DATA

text \<open>The general-purpose ports.\<close>

datatype port_call =
    PLIB_PORTS_OpenDrainEnable port u16 | PLIB_PORTS_Write port u16 | PLIB_PORTS_DirectionOutputSet port u16
  | PLIB_PORTS_ChangeNoticePerPortTurnOn port | PLIB_PORTS_ChannelModeSelect_DIGITAL port u16
  | PLIB_PORTS_ChannelChangeNoticeEnable port u16 | PLIB_PORTS_ChannelChangeNoticePullUpEnable port u16
  | PLIB_PORTS_ChannelChangeNoticePullDownEnable port u16

section \<open>The clock frequencies\<close>

text \<open>Constants of \<open>system_config.h\<close>.\<close>

definition SYS_CLK_FREQ :: nat where "SYS_CLK_FREQ = 251904000"
definition SYS_CLK_BUS_PERIPHERAL_1 :: nat where "SYS_CLK_BUS_PERIPHERAL_1 = 83968000"
definition SYS_CLK_BUS_PERIPHERAL_2 :: nat where "SYS_CLK_BUS_PERIPHERAL_2 = 83968000"
definition SYS_CLK_BUS_PERIPHERAL_3 :: nat where "SYS_CLK_BUS_PERIPHERAL_3 = 83968000"
definition SYS_CLK_BUS_PERIPHERAL_4 :: nat where "SYS_CLK_BUS_PERIPHERAL_4 = 125952000"
definition SYS_CLK_BUS_PERIPHERAL_5 :: nat where "SYS_CLK_BUS_PERIPHERAL_5 = 83968000"
definition SYS_CLK_BUS_PERIPHERAL_7 :: nat where "SYS_CLK_BUS_PERIPHERAL_7 = 251904000"
definition SYS_CLK_BUS_PERIPHERAL_8 :: nat where "SYS_CLK_BUS_PERIPHERAL_8 = 83968000"
definition SYS_CLK_BUS_REFERENCE_4 :: nat where "SYS_CLK_BUS_REFERENCE_4 = 22579630"
definition SYS_CLK_CONFIG_PRIMARY_XTAL :: nat where "SYS_CLK_CONFIG_PRIMARY_XTAL = 24576000"

end
