(* ===== verification/Machine.thy ===== *)
theory Machine
  imports Peripherals
begin

text \<open>
  The microcontroller as the program sees it. A volatile status bit is a function of time, and
  each poll of a status register takes one tick of \<open>clock\<close>; the device is a parameter \<open>dev\<close> of
  every operation that polls. A volatile write appends to \<open>trace\<close>, so the trace is the
  observable output of a run. A busy-wait may never end: it returns \<open>None\<close> then.
\<close>

section \<open>Status bits and registers\<close>

datatype flag =
    U4_UTXBF | U2_UTXBF
  | SPI5_SPITBF | SPI5_SPITBE | SPI5_SPIBUSY
  | SPI1_SPITBF | SPI1_SPITBE | SPI1_SPIBUSY
  | T3IF
  | I2C_SEN i2c_id | I2C_PEN i2c_id | I2C_BusIsIdle i2c_id
  | I2C_TransmitterIsReady i2c_id | I2C_TransmitterByteHasCompleted i2c_id
  | I2C_ArbitrationLoss i2c_id | I2C_TransmitterOverflow i2c_id | I2C_Acknowledged i2c_id
  | I2C4_MasterBusy | I2C4_RBF
  | DMA_SUSPEND | DMABUSY | NVM_WR | NVM_WRERR | NVM_LVDERR
  | CHBUSY dma_channel | DCH5_HALF_DONE | DCH5_BLOCK_DONE
  | ADC_ARDY39 | ADC_BGVRRDY | ADC_REFFLT | ADC_WKRDY7

datatype reg =
    U4TXREG | U2TXREG | SPI5BUF | SPI1BUF
  | PORTACLR | PORTASET | PORTJCLR | PORTJSET | PORTJINV | PORTGCLR | PORTBSET | PORTBCLR | PORTBINV
  | TMR3
  | I2C2BRG | I2C2CON | I2C2CONCLR
  | I2C4BRG | I2C4CON | I2C4CONCLR | I2C4CONSET | I2C4TRN | I2C4STAT_I2COV | I2C4CON_ACKDT
  | IFS_I2C_4_SLAVE | IFS_USART_2_RECEIVE | IFS_USART_4_RECEIVE
  | OC8RS | OC9RS
  | SPI3CONCLR | SPI4CONCLR | SPI6CONCLR | SPI3CONSET | SPI4CONSET | SPI6CONSET
  | IFS4CLR | IFS5CLR
  | NVMCON | NVMKEY | NVMCONSET | NVMCONCLR | NVMADDR | NVMDATA0 | NVMSRCADDR
  | DCHxECONSET dma_channel | DCHxCONSET dma_channel | DCH5INTCLR
  | DCHxDSA dma_channel | DCHxDSIZ dma_channel | DCHxSSA dma_channel | DCHxSSIZ dma_channel
  | ADCCON3_GSWTRG

text \<open>Masks and keys that the device headers define, kept symbolic.\<close>

datatype sfr_mask = TxCON_ON_MASK | IFS0_T3IF_MASK | DMACON_SUSPEND_MASK | NVM_UNLOCK_KEY1 | NVM_UNLOCK_KEY2

datatype mask_reg = T3CONCLR | T3CONSET | IFS0CLR | DMACONSET | DMACONCLR | NVMKEY_SYMBOLIC

text \<open>
  Besides register writes: the operations of the peripheral library, and enabling or disabling interrupts.
  \<open>WrFields\<close> writes a whole register made of fields, \<open>SetField\<close> a bit-field in place, and \<open>Store16\<close>
  a half-word to the external memory.
\<close>

datatype event =
    Wr reg u32 | WrMask mask_reg sfr_mask
  | I2C_MasterStart i2c_id | I2C_MasterStartRepeat i2c_id | I2C_MasterStop i2c_id
  | I2C_ByteSend i2c_id u8
  | Interrupts bool
  | Setup setup_reg u32 | WrFields setup_reg "(reg_field \<times> u32) list" | SetField setup_reg reg_field u32
  | Store16 u32 u16 | Lib plib_call | Osc osc_call | Port port_call

text \<open>Data registers that are read: their value is a function of time, too.\<close>

datatype in_reg =
    ADCDATA27 | ADCDATA28 | ADCDATA38 | ADCDATA39 | PORTH_in | PORTB_in | I2C4RCV | CP0_COUNT | DEVADC7 | SRAM_LAST_HALFWORD | CFGCON_in

type_synonym input = "in_reg \<Rightarrow> nat \<Rightarrow> u32"

type_synonym device = "flag \<Rightarrow> nat \<Rightarrow> bool"

record hw =
  clock :: nat
  trace :: "event list"

definition emit :: "event \<Rightarrow> 'a hw_scheme \<Rightarrow> 'a hw_scheme" where
  "emit e s = s\<lparr>trace := trace s @ [e]\<rparr>"

definition wr :: "reg \<Rightarrow> u32 \<Rightarrow> 'a hw_scheme \<Rightarrow> 'a hw_scheme" where
  "wr r v s = emit (Wr r v) s"

definition tick :: "nat \<Rightarrow> 'a hw_scheme \<Rightarrow> 'a hw_scheme" where
  "tick n s = s\<lparr>clock := clock s + n\<rparr>"

definition emit_all :: "event list \<Rightarrow> 'a hw_scheme \<Rightarrow> 'a hw_scheme" where
  "emit_all es s = s\<lparr>trace := trace s @ es\<rparr>"

lemma hw_simps [simp]:
  "clock (emit e s) = clock s" "trace (emit e s) = trace s @ [e]"
  "clock (wr r v s) = clock s" "trace (wr r v s) = trace s @ [Wr r v]"
  "clock (tick n s) = clock s + n" "trace (tick n s) = trace s"
  "clock (emit_all es s) = clock s" "trace (emit_all es s) = trace s @ es"
  "hw.more (emit e s) = hw.more s" "hw.more (wr r v s) = hw.more s" "hw.more (tick n s) = hw.more s"
  "hw.more (emit_all es s) = hw.more s"
  by (simp_all add: emit_def wr_def tick_def emit_all_def)

section \<open>Bits and bytes\<close>

definition BIT :: "nat \<Rightarrow> u32" where
  "BIT n = push_bit n 1"

lemma bit_BIT [simp]: "bit (BIT n) k \<longleftrightarrow> k = n \<and> n < 32"
  by (auto simp: BIT_def bit_simps)

text \<open>A BYTE stored to a 32-bit buffer register.\<close>

definition byte_value :: "u8 \<Rightarrow> u32" where
  "byte_value c = ucast c"

section \<open>Busy waits\<close>

text \<open>A single read of a status bit.\<close>

definition poll_flag :: "device \<Rightarrow> flag \<Rightarrow> 'a hw_scheme \<Rightarrow> bool \<times> 'a hw_scheme" where
  "poll_flag dev f s = (dev f (clock s), tick 1 s)"

text \<open>
  \<open>poll_until k p t\<close> polls at \<open>t\<close>, \<open>t + k\<close>, ... until \<open>p\<close> holds and returns the time after that
  poll; \<open>k\<close> is the number of status reads of one iteration.
\<close>

partial_function (option) poll_until :: "nat \<Rightarrow> (nat \<Rightarrow> bool) \<Rightarrow> nat \<Rightarrow> nat option" where
  "poll_until k p t = (if p t then Some (t + k) else poll_until k p (t + k))"

definition wait_while :: "device \<Rightarrow> flag \<Rightarrow> 'a hw_scheme \<Rightarrow> 'a hw_scheme option" where
  "wait_while dev f s =
     map_option (\<lambda>t. s\<lparr>clock := t\<rparr>) (poll_until 1 (\<lambda>t. \<not> dev f t) (clock s))"

definition wait_until :: "device \<Rightarrow> flag \<Rightarrow> 'a hw_scheme \<Rightarrow> 'a hw_scheme option" where
  "wait_until dev f s =
     map_option (\<lambda>t. s\<lparr>clock := t\<rparr>) (poll_until 1 (\<lambda>t. dev f t) (clock s))"

text \<open>The wait on two status registers that reads both in every iteration.\<close>

definition wait_while2 :: "device \<Rightarrow> flag \<Rightarrow> flag \<Rightarrow> 'a hw_scheme \<Rightarrow> 'a hw_scheme option" where
  "wait_while2 dev f g s =
     map_option (\<lambda>t. s\<lparr>clock := t\<rparr>) (poll_until 2 (\<lambda>t. \<not> (dev f t \<or> dev g (Suc t))) (clock s))"

text \<open>A wait on several flags that reads all of them, one after the other, in every iteration.\<close>

fun any_flag :: "device \<Rightarrow> flag list \<Rightarrow> nat \<Rightarrow> bool" where
  "any_flag dev [] t = False"
| "any_flag dev (f # fs) t = (dev f t \<or> any_flag dev fs (Suc t))"

definition wait_while_any :: "device \<Rightarrow> flag list \<Rightarrow> 'a hw_scheme \<Rightarrow> 'a hw_scheme option" where
  "wait_while_any dev fs s =
     map_option (\<lambda>t. s\<lparr>clock := t\<rparr>) (poll_until (length fs) (\<lambda>t. \<not> any_flag dev fs t) (clock s))"

lemma poll_until_reaches:
  assumes "p (t + n * k)"
  shows "\<exists>u. poll_until k p t = Some u \<and> t \<le> u"
  using assms
proof (induction n arbitrary: t)
  case 0
  then show ?case by (simp add: poll_until.simps)
next
  case (Suc n)
  show ?case
  proof (cases "p t")
    case True
    then show ?thesis by (simp add: poll_until.simps)
  next
    case False
    from Suc.prems have "p ((t + k) + n * k)" by (simp add: algebra_simps)
    from Suc.IH [OF this] obtain u where "poll_until k p (t + k) = Some u" "t + k \<le> u" by blast
    with False show ?thesis by (auto simp: poll_until.simps [of k p t])
  qed
qed

section \<open>A responsive device\<close>

text \<open>
  At an idle instant no transmitter is full or busy, transmit buffers are empty and the timer
  flag is set. A device is responsive when, however long the program has been polling, there is
  a later stretch of twelve polls at which it is idle: the peripherals drain while the program
  waits and stay drained until it writes again.
\<close>

fun busy_flag :: "flag \<Rightarrow> bool" where
  "busy_flag f = (case f of
     U4_UTXBF \<Rightarrow> True | U2_UTXBF \<Rightarrow> True | SPI5_SPITBF \<Rightarrow> True | SPI5_SPIBUSY \<Rightarrow> True
   | SPI1_SPITBF \<Rightarrow> True | SPI1_SPIBUSY \<Rightarrow> True
   | I2C_SEN i \<Rightarrow> True | I2C_PEN i \<Rightarrow> True | I2C4_MasterBusy \<Rightarrow> True
   | DMABUSY \<Rightarrow> True | NVM_WR \<Rightarrow> True | CHBUSY c \<Rightarrow> True | ADC_REFFLT \<Rightarrow> True | _ \<Rightarrow> False)"

fun ready_flag :: "flag \<Rightarrow> bool" where
  "ready_flag f = (case f of
     SPI5_SPITBE \<Rightarrow> True | SPI1_SPITBE \<Rightarrow> True | T3IF \<Rightarrow> True
   | I2C_BusIsIdle i \<Rightarrow> True | I2C_TransmitterIsReady i \<Rightarrow> True
   | I2C_TransmitterByteHasCompleted i \<Rightarrow> True | I2C4_RBF \<Rightarrow> True | DCH5_HALF_DONE \<Rightarrow> True
   | ADC_BGVRRDY \<Rightarrow> True | ADC_WKRDY7 \<Rightarrow> True | _ \<Rightarrow> False)"

definition idle_at :: "device \<Rightarrow> nat \<Rightarrow> bool" where
  "idle_at dev t \<longleftrightarrow> (\<forall>f. (busy_flag f \<longrightarrow> \<not> dev f t) \<and> (ready_flag f \<longrightarrow> dev f t))"

definition responsive :: "device \<Rightarrow> bool" where
  "responsive dev \<longleftrightarrow> (\<forall>t. \<exists>t'\<ge>t. \<forall>u. t' \<le> u \<and> u < t' + 12 \<longrightarrow> idle_at dev u)"

definition ready_device :: device where
  "ready_device f t = ready_flag f"

lemma idle_atD:
  "idle_at dev t \<Longrightarrow> busy_flag f \<Longrightarrow> \<not> dev f t"
  "idle_at dev t \<Longrightarrow> ready_flag f \<Longrightarrow> dev f t"
  by (simp_all add: idle_at_def del: busy_flag.simps ready_flag.simps)

lemma idle_U4: "idle_at dev t \<Longrightarrow> \<not> dev U4_UTXBF t"
  using idle_atD(1) [of dev t U4_UTXBF] by simp

lemma responsive_ready_device: "responsive ready_device"
proof -
  have "\<not> ready_flag f" if "busy_flag f" for f using that by (cases f) simp_all
  then show ?thesis
    by (auto simp: responsive_def idle_at_def ready_device_def simp del: busy_flag.simps ready_flag.simps)
qed

lemma poll1_responsive:
  assumes "responsive dev" and "\<And>t. idle_at dev t \<Longrightarrow> p t"
  shows "\<exists>u. poll_until 1 p t = Some u \<and> t \<le> u"
proof -
  from assms(1) obtain t' where "t' \<ge> t" "idle_at dev t'"
    unfolding responsive_def by (metis le_refl less_add_same_cancel1 zero_less_numeral)
  then have "p (t + (t' - t) * 1)" by (simp add: assms(2))
  then show ?thesis by (rule poll_until_reaches)
qed

lemma poll2_responsive:
  assumes "responsive dev" and "\<And>t. idle_at dev t \<Longrightarrow> idle_at dev (Suc t) \<Longrightarrow> p t"
  shows "\<exists>u. poll_until 2 p t = Some u \<and> t \<le> u"
proof -
  from assms(1) obtain t' where t': "t' \<ge> t" "\<And>u. t' \<le> u \<Longrightarrow> u < t' + 12 \<Longrightarrow> idle_at dev u"
    unfolding responsive_def by blast
  define n where "n = (t' - t + 1) div 2"
  have "t' \<le> t + n * 2" "t + n * 2 < t' + 2"
    using t'(1) unfolding n_def by linarith+
  then have "p (t + n * 2)" by (intro assms(2) t'(2)) auto
  then show ?thesis by (rule poll_until_reaches)
qed

text \<open>
  A wait only lets time pass: \<open>s'\<close> is \<open>s\<close> at a later time.
\<close>

definition later :: "'a hw_scheme \<Rightarrow> 'a hw_scheme \<Rightarrow> bool" where
  "later s s' \<longleftrightarrow> (\<exists>t\<ge>clock s. s' = s\<lparr>clock := t\<rparr>)"

lemma later_clock: "clock s \<le> t \<Longrightarrow> later s (s\<lparr>clock := t\<rparr>)"
  by (auto simp: later_def)

lemma wait_while_returns:
  assumes "responsive dev"
    and "busy_flag f"
  shows "\<exists>s'. wait_while dev f s = Some s' \<and> later s s'"
  using poll1_responsive [OF assms(1), of "\<lambda>t. \<not> dev f t" "clock s"] assms(2)
  by (force simp: wait_while_def simp del: busy_flag.simps dest: idle_atD intro: later_clock)

lemma wait_until_returns:
  assumes "responsive dev" and "ready_flag f"
  shows "\<exists>s'. wait_until dev f s = Some s' \<and> later s s'"
  using poll1_responsive [OF assms(1), of "\<lambda>t. dev f t" "clock s"] assms(2)
  by (force simp: wait_until_def simp del: ready_flag.simps dest: idle_atD intro: later_clock)

lemma wait_while2_returns:
  assumes "responsive dev"
    and "busy_flag f" and "busy_flag g"
  shows "\<exists>s'. wait_while2 dev f g s = Some s' \<and> later s s'"
  using poll2_responsive [OF assms(1), of "\<lambda>t. \<not> (dev f t \<or> dev g (Suc t))" "clock s"] assms(2,3)
  by (force simp: wait_while2_def simp del: busy_flag.simps dest: idle_atD intro: later_clock)

lemma any_flag_idle:
  "\<forall>f\<in>set fs. busy_flag f \<Longrightarrow> \<forall>u. t \<le> u \<and> u < t + length fs \<longrightarrow> idle_at dev u \<Longrightarrow> \<not> any_flag dev fs t"
  by (induction fs arbitrary: t) (auto simp del: busy_flag.simps dest: idle_atD)

lemma wait_while_any_returns:
  assumes "responsive dev" and "\<forall>f\<in>set fs. busy_flag f" and "0 < length fs" and "length fs \<le> 6"
  shows "\<exists>s'. wait_while_any dev fs s = Some s' \<and> later s s'"
proof -
  define k where "k = length fs"
  obtain t' where t': "t' \<ge> clock s" "\<And>u. t' \<le> u \<Longrightarrow> u < t' + 12 \<Longrightarrow> idle_at dev u"
    using assms(1) unfolding responsive_def by blast
  define n where "n = (t' - clock s + k - 1) div k"
  have k: "0 < k" "k \<le> 6" using assms(3,4) by (simp_all add: k_def)
  have "t' - clock s + k - 1 = n * k + (t' - clock s + k - 1) mod k" by (simp add: n_def)
  moreover have "(t' - clock s + k - 1) mod k < k" using k by simp
  ultimately have "t' \<le> clock s + n * k" "clock s + n * k < t' + k" using t'(1) k by linarith+
  then have "\<not> any_flag dev fs (clock s + n * k)"
    using k by (intro any_flag_idle assms(2) allI impI t'(2)) (auto simp: k_def)
  from poll_until_reaches [of "\<lambda>t. \<not> any_flag dev fs t", OF this] obtain u
    where "poll_until k (\<lambda>t. \<not> any_flag dev fs t) (clock s) = Some u" "clock s \<le> u" by blast
  then show ?thesis by (auto simp: wait_while_any_def k_def intro: later_clock)
qed

lemma poll_until_ge: "poll_until k p t = Some u \<Longrightarrow> t \<le> u"
proof (erule poll_until.raw_induct [where P = "\<lambda>k p t u. t \<le> u", rotated])
  fix f k p t and u :: nat
  assume IH: "\<And>k p t u. f k p t = Some u \<Longrightarrow> t \<le> (u :: nat)"
    and eq: "(if p t then Some (t + k) else f k p (t + k)) = Some u"
  show "t \<le> u"
    using eq IH [of k p "t + k" u] by (auto split: if_splits)
qed

lemma wait_later:
  "wait_while dev f s = Some s' \<Longrightarrow> later s s'"
  "wait_until dev f s = Some s' \<Longrightarrow> later s s'"
  "wait_while2 dev f g s = Some s' \<Longrightarrow> later s s'"
  by (auto simp: wait_while_def wait_until_def wait_while2_def intro: later_clock poll_until_ge)

lemma later_simps:
  assumes "later s s'"
  shows "trace s' = trace s" "hw.more s' = hw.more s" "clock s \<le> clock s'"
  using assms by (auto simp: later_def)

section \<open>The bytes sent on a port\<close>

definition sent_by :: "reg \<Rightarrow> event \<Rightarrow> u32 list" where
  "sent_by r e = (case e of Wr r' v \<Rightarrow> if r' = r then [v] else [] | _ \<Rightarrow> [])"

definition sent_on :: "reg \<Rightarrow> event list \<Rightarrow> u32 list" where
  "sent_on r es = concat (map (sent_by r) es)"

lemma sent_on_simps [simp]:
  "sent_on r [] = []"
  "sent_on r (Wr r' v # es) = (if r' = r then v # sent_on r es else sent_on r es)"
  "sent_on r (WrMask m k # es) = sent_on r es"
  by (simp_all add: sent_on_def sent_by_def)

lemma sent_on_append [simp]: "sent_on r (es @ es') = sent_on r es @ sent_on r es'"
  by (simp add: sent_on_def)

section \<open>Operations that return and emit a fixed sequence of writes\<close>

text \<open>
  \<open>emits f es\<close>: from every state \<open>f\<close> returns, its volatile writes are \<open>es\<close>, and it changes
  nothing but the trace and the clock. Driver code is a composition of such operations.
\<close>

definition emits :: "('a hw_scheme \<Rightarrow> 'a hw_scheme option) \<Rightarrow> event list \<Rightarrow> bool" where
  "emits f es \<longleftrightarrow>
     (\<forall>s. \<exists>s'. f s = Some s' \<and> trace s' = trace s @ es \<and> hw.more s' = hw.more s \<and> clock s \<le> clock s')"

lemma emitsE:
  assumes "emits f es"
  obtains s' where "f s = Some s'" "trace s' = trace s @ es" "hw.more s' = hw.more s" "clock s \<le> clock s'"
  using assms unfolding emits_def by blast

lemma emits_update:
  assumes "emits f es"
  shows "\<exists>t\<ge>clock s. f s = Some (s\<lparr>clock := t, trace := trace s @ es\<rparr>)"
proof -
  obtain s' where s': "f s = Some s'" "trace s' = trace s @ es" "hw.more s' = hw.more s" "clock s \<le> clock s'"
    using assms by (rule emitsE)
  then have "s' = s\<lparr>clock := clock s', trace := trace s @ es\<rparr>" by (cases s; cases s') simp
  with s'(1,4) show ?thesis by metis
qed

lemma emits_Some: "(\<And>s. trace (g s) = trace s @ es \<and> hw.more (g s) = hw.more s \<and> clock s \<le> clock (g s)) \<Longrightarrow> emits (\<lambda>s. Some (g s)) es"
  by (simp add: emits_def)

lemma emits_bind:
  assumes "emits f es" and "emits g es'" and "fs = es @ es'"
  shows "emits (\<lambda>s. Option.bind (f s) g) fs"
  unfolding emits_def
proof
  fix s
  from assms(1) obtain s1 where s1: "f s = Some s1" "trace s1 = trace s @ es" "hw.more s1 = hw.more s" "clock s \<le> clock s1"
    by (rule emitsE)
  from assms(2) obtain s2 where "g s1 = Some s2" "trace s2 = trace s1 @ es'" "hw.more s2 = hw.more s1" "clock s1 \<le> clock s2"
    by (rule emitsE)
  with s1 assms(3)
  show "\<exists>s'. Option.bind (f s) g = Some s' \<and> trace s' = trace s @ fs \<and> hw.more s' = hw.more s \<and> clock s \<le> clock s'"
    by simp
qed

lemma emits_pre:
  assumes "emits f es" and "\<And>s. trace (g s) = trace s @ ds \<and> hw.more (g s) = hw.more s \<and> clock s \<le> clock (g s)"
  shows "emits (\<lambda>s. f (g s)) (ds @ es)"
  using emits_bind [OF emits_Some [of g ds] assms(1) refl] assms(2) by simp

lemma emits_later:
  assumes "\<And>s. \<exists>s'. f s = Some s' \<and> later s s'"
  shows "emits f []"
  unfolding emits_def
proof
  fix s
  from assms obtain s' where "f s = Some s'" "later s s'" by blast
  then show "\<exists>s'. f s = Some s' \<and> trace s' = trace s @ [] \<and> hw.more s' = hw.more s \<and> clock s \<le> clock s'"
    by (auto dest: later_simps)
qed

lemma emits_wait_while:
  "responsive dev \<Longrightarrow>
   busy_flag f \<Longrightarrow>
   emits (wait_while dev f) []"
  by (rule emits_later) (rule wait_while_returns)

lemma emits_wait_until:
  "responsive dev \<Longrightarrow> ready_flag f \<Longrightarrow> emits (wait_until dev f) []"
  by (rule emits_later) (rule wait_until_returns)

lemma emits_wait_while2:
  "responsive dev \<Longrightarrow> busy_flag f \<Longrightarrow> busy_flag g \<Longrightarrow>
   emits (wait_while2 dev f g) []"
  by (rule emits_later) (rule wait_while2_returns)

lemma emits_wait_while_any:
  "responsive dev \<Longrightarrow> \<forall>f\<in>set fs. busy_flag f \<Longrightarrow> 0 < length fs \<Longrightarrow> length fs \<le> 6 \<Longrightarrow> emits (wait_while_any dev fs) []"
  by (rule emits_later) (rule wait_while_any_returns)

lemma emits_fold:
  assumes "\<And>x. x \<in> set xs \<Longrightarrow> emits (f x) (es x)"
  shows "emits (fold_opt f xs) (concat (map es xs))"
  using assms
proof (induction xs)
  case Nil
  then show ?case by (simp add: emits_def)
next
  case (Cons x xs)
  have "emits (\<lambda>s. Option.bind (f x s) (fold_opt f xs)) (es x @ concat (map es xs))"
    by (rule emits_bind [OF _ _ refl]) (use Cons in auto)
  then show ?case by simp
qed

named_theorems emits_intros \<open>rules that compute the writes of a driver operation\<close>

lemma emits_cong: "emits f es \<Longrightarrow> es = es' \<Longrightarrow> emits f es'"
  by simp

lemma emits_return [emits_intros]: "emits Some []"
  by (simp add: emits_def)

lemma emits_wr [emits_intros]: "emits f es \<Longrightarrow> emits (\<lambda>s. f (wr r v s)) (Wr r v # es)"
  using emits_pre [of f es "wr r v" "[Wr r v]"] by simp

lemma emits_emit [emits_intros]: "emits f es \<Longrightarrow> emits (\<lambda>s. f (emit e s)) (e # es)"
  using emits_pre [of f es "emit e" "[e]"] by simp

lemma emits_emit_all [emits_intros]: "emits f es \<Longrightarrow> emits (\<lambda>s. f (emit_all ds s)) (ds @ es)"
  using emits_pre [of f es "emit_all ds" ds] by simp

lemma emits_seq [emits_intros]:
  "emits f es \<Longrightarrow> emits g es' \<Longrightarrow> emits (\<lambda>s. Option.bind (f s) g) (es @ es')"
  by (rule emits_bind [OF _ _ refl])

lemmas [emits_intros] = emits_wait_while emits_wait_until emits_wait_while2 emits_wait_while_any

section \<open>Steps that leave the flash controller alone\<close>

text \<open>
  \<open>quiet\<close>: not an access to the flash controller, nor to the interrupt enable bit. \<open>proceeds s s'\<close>: time has
  passed from \<open>s\<close> to \<open>s'\<close>, and only quiet events have happened.
\<close>

definition quiet :: "event \<Rightarrow> bool" where
  "quiet e = (case e of
     Wr r v \<Rightarrow> r \<notin> {NVMCON, NVMKEY, NVMCONSET, NVMCONCLR, NVMADDR, NVMDATA0, NVMSRCADDR}
   | WrMask r m \<Rightarrow> r \<noteq> NVMKEY_SYMBOLIC
   | Interrupts on \<Rightarrow> False
   | _ \<Rightarrow> True)"

definition proceeds :: "'a hw_scheme \<Rightarrow> 'a hw_scheme \<Rightarrow> bool" where
  "proceeds s s' \<longleftrightarrow> clock s \<le> clock s' \<and> (\<exists>es. trace s' = trace s @ es \<and> list_all quiet es)"

lemma proceedsI: "clock s \<le> clock s' \<Longrightarrow> trace s' = trace s @ es \<Longrightarrow> list_all quiet es \<Longrightarrow> proceeds s s'"
  by (auto simp: proceeds_def)

lemma proceeds_still: "clock s' = clock s \<Longrightarrow> trace s' = trace s \<Longrightarrow> proceeds s s'"
  by (simp add: proceeds_def)

lemma proceeds_trans: "proceeds s s' \<Longrightarrow> proceeds s' s'' \<Longrightarrow> proceeds s s''"
  by (auto simp: proceeds_def)

lemma emits_proceeds:
  assumes "emits f es" and "list_all quiet es" and "f s = Some s'" shows "proceeds s s'"
  using assms by (metis emitsE option.inject proceedsI)

section \<open>A millisecond delay\<close>

text \<open>\<open>delayMs\<close> of \<open>app.c\<close>: timer 3 is restarted and awaited once per millisecond.\<close>

definition delay_one_ms :: "device \<Rightarrow> 'a hw_scheme \<Rightarrow> 'a hw_scheme option" where
  "delay_one_ms dev s =
     wait_until dev T3IF
       (emit (WrMask T3CONSET TxCON_ON_MASK)
         (wr TMR3 0
           (emit (WrMask IFS0CLR IFS0_T3IF_MASK)
             (emit (WrMask T3CONCLR TxCON_ON_MASK) s))))"

fun delay_loop :: "device \<Rightarrow> nat \<Rightarrow> 'a hw_scheme \<Rightarrow> 'a hw_scheme option" where
  "delay_loop dev 0 s = Some s"
| "delay_loop dev (Suc ms) s = Option.bind (delay_one_ms dev s) (delay_loop dev ms)"

definition delayMs :: "device \<Rightarrow> u32 \<Rightarrow> 'a hw_scheme \<Rightarrow> 'a hw_scheme option" where
  "delayMs dev ms s = do {
     s \<leftarrow> delay_loop dev (unat ms) s;
     Some (emit (WrMask T3CONCLR TxCON_ON_MASK) s) }"

definition timer_restart :: "event list" where
  "timer_restart = [WrMask T3CONCLR TxCON_ON_MASK, WrMask IFS0CLR IFS0_T3IF_MASK, Wr TMR3 0,
                    WrMask T3CONSET TxCON_ON_MASK]"

lemma emits_delay_one_ms:
  assumes "responsive dev" shows "emits (delay_one_ms dev) timer_restart"
  using emits_pre [OF emits_wait_until [OF assms, of T3IF],
      of "\<lambda>s. emit (WrMask T3CONSET TxCON_ON_MASK) (wr TMR3 0
           (emit (WrMask IFS0CLR IFS0_T3IF_MASK) (emit (WrMask T3CONCLR TxCON_ON_MASK) s)))"
        timer_restart]
  by (simp add: delay_one_ms_def [abs_def] timer_restart_def)

definition delay_events :: "nat \<Rightarrow> event list" where
  "delay_events ms = concat (replicate ms timer_restart) @ [WrMask T3CONCLR TxCON_ON_MASK]"

lemma emits_delayMs:
  assumes "responsive dev" shows "emits (delayMs dev ms) (delay_events (unat ms))"
proof -
  have "emits (delay_loop dev n) (concat (replicate n timer_restart))" for n
  proof (induction n)
    case 0
    show ?case by (simp add: emits_def)
  next
    case (Suc n)
    show ?case
      using emits_bind [OF emits_delay_one_ms [OF assms] Suc refl]
      by (simp add: emits_def)
  qed
  then show ?thesis
    unfolding delayMs_def [abs_def] delay_events_def
    by (rule emits_bind [OF _ emits_Some refl]) simp
qed

declare emits_delayMs [emits_intros]

end
