(* ===== verification/Boot.thy ===== *)
theory Boot
  imports Machine
begin

text \<open>
  The part of the generated framework (\<open>system_config\<close>) that the program runs at boot: the clocks, the device
  control service with its register lock, the wait states, the ports, \<open>SYS_Initialize\<close> up to the application's own set-up, and the
  handler of unexpected exceptions. The functions do not wait, so each is the list of its events; \<open>irq\<close> is the
  interrupt enable bit before the call, which \<open>PLIB_INT_GetStateAndDisable\<close> returns.
\<close>

section \<open>The device control service\<close>

datatype devcon_state = SYS_DEVCON_STATE_READY | SYS_DEVCON_STATE_BUSY | SYS_DEVCON_STATE_INIT
datatype sys_status = SYS_STATUS_READY | SYS_STATUS_UNINITIALIZED

record devcon_object =
  devcon_state :: devcon_state
  devcon_status :: sys_status

definition SYS_DEVCON_Initialize :: "devcon_object \<Rightarrow> devcon_object" where
  "SYS_DEVCON_Initialize ob = ob\<lparr>devcon_status := SYS_STATUS_READY, devcon_state := SYS_DEVCON_STATE_READY\<rparr>"

definition SYS_DEVCON_SystemUnlock :: "bool \<Rightarrow> event list" where
  "SYS_DEVCON_SystemUnlock irq =
     [Interrupts False, Osc PLIB_DEVCON_SystemUnlock] @ (if irq then [Interrupts True] else [])"

definition SYS_DEVCON_SystemLock :: "bool \<Rightarrow> event list" where
  "SYS_DEVCON_SystemLock irq =
     [Interrupts False, Osc PLIB_DEVCON_SystemLock] @ (if irq then [Interrupts True] else [])"

text \<open>
  The flash wait states for a clock frequency. Whether the device has wait states and a prefetch unit is known to the
  peripheral library: two arguments.
\<close>

definition wait_states :: "bool \<Rightarrow> nat \<Rightarrow> nat" where
  "wait_states ecc sysclk =
     (if sysclk \<le> (if ecc then 60000000 else 74000000) then 0
      else if sysclk \<le> (if ecc then 120000000 else 140000000) then 1
      else if sysclk \<le> 200000000 then 2
      else 4)"

definition SYS_DEVCON_PerformanceConfig :: "bool \<Rightarrow> bool \<Rightarrow> u32 \<Rightarrow> bool \<Rightarrow> nat \<Rightarrow> event list" where
  "SYS_DEVCON_PerformanceConfig has_waits has_prefetch cfgcon irq sysclk =
     (if has_waits
      then [Interrupts False, Osc (PLIB_PCACHE_WaitStateSet (wait_states (drop_bit 4 (cfgcon AND 0x30) < 2) sysclk))] @
           (if irq then [Interrupts True] else [])
      else []) @
     [Interrupts False] @ (if has_prefetch then [Osc PLIB_PCACHE_PrefetchEnableSet_CPU_INST_DATA] else []) @
     (if irq then [Interrupts True] else [])"

section \<open>The clocks\<close>

text \<open>
  The configuration words, with which the device leaves reset. \<open>config_number\<close> is the number a setting of a divisor or
  multiplier ends with.
\<close>

definition config_words :: "(string \<times> string) list" where
  "config_words = [
     (''DEBUG'', ''OFF''), (''JTAGEN'', ''OFF''), (''ICESEL'', ''ICS_PGx1''), (''TRCEN'', ''OFF''),
     (''BOOTISA'', ''MIPS32''), (''FECCCON'', ''OFF_UNLOCKED''), (''FSLEEP'', ''OFF''), (''DBGPER'', ''PG_ALL''),
     (''SMCLR'', ''MCLR_NORM''), (''SOSCGAIN'', ''GAIN_LEVEL_3''), (''SOSCBOOST'', ''ON''),
     (''POSCGAIN'', ''GAIN_LEVEL_3''), (''POSCBOOST'', ''ON''), (''EJTAGBEN'', ''NORMAL''), (''CP'', ''OFF''),
     (''FNOSC'', ''SPLL''), (''DMTINTV'', ''WIN_127_128''), (''FSOSCEN'', ''OFF''), (''IESO'', ''OFF''),
     (''POSCMOD'', ''EC''), (''OSCIOFNC'', ''OFF''), (''FCKSM'', ''CSECME''), (''WDTPS'', ''PS1048576''),
     (''WDTSPGM'', ''STOP''), (''FWDTEN'', ''OFF''), (''WINDIS'', ''NORMAL''), (''FWDTWINSZ'', ''WINSZ_25''),
     (''DMTCNT'', ''DMT31''), (''FDMTEN'', ''OFF''), (''FPLLIDIV'', ''DIV_2''), (''FPLLRNG'', ''RANGE_8_16_MHZ''),
     (''FPLLICLK'', ''PLL_POSC''), (''FPLLMULT'', ''MUL_20''), (''FPLLODIV'', ''DIV_2''),
     (''UPLLFSEL'', ''FREQ_24MHZ''), (''USERID'', ''0xffff''), (''FMIIEN'', ''ON''), (''FETHIO'', ''ON''),
     (''PGL1WAY'', ''OFF''), (''PMDL1WAY'', ''OFF''), (''IOL1WAY'', ''OFF''), (''FUSBIDIO'', ''OFF''),
     (''TSEQ'', ''0x0000''), (''CSEQ'', ''0xffff'')]"

definition config_setting :: "string \<Rightarrow> string" where
  "config_setting w = (case map_of config_words w of Some v \<Rightarrow> v | None \<Rightarrow> [])"

fun ends_with_number :: "string \<Rightarrow> nat \<Rightarrow> nat" where
  "ends_with_number [] n = n"
| "ends_with_number (c # cs) n =
     (let d = of_char c in ends_with_number cs (if 48 \<le> d \<and> d < 58 then 10 * n + (d - 48) else 0))"

definition config_number :: "string \<Rightarrow> nat" where
  "config_number w = ends_with_number (config_setting w) 0"

text \<open>The divisors before and after the PLL.\<close>

definition FPLLIDIV :: nat where "FPLLIDIV = config_number ''FPLLIDIV''"
definition FPLLODIV :: nat where "FPLLODIV = config_number ''FPLLODIV''"

lemma config_numbers: "FPLLIDIV = 2" "FPLLODIV = 2" "config_number ''FPLLMULT'' = 20"
  by (simp_all add: FPLLIDIV_def FPLLODIV_def config_number_def config_setting_def config_words_def)

definition SYS_CLK_PeripheralFrequencyGet :: "nat \<Rightarrow> nat" where
  "SYS_CLK_PeripheralFrequencyGet bus =
     (if bus = 1 then SYS_CLK_BUS_PERIPHERAL_1
      else if bus = 2 then SYS_CLK_BUS_PERIPHERAL_2
      else if bus = 3 then SYS_CLK_BUS_PERIPHERAL_3
      else if bus = 4 then SYS_CLK_BUS_PERIPHERAL_4
      else if bus = 5 then SYS_CLK_BUS_PERIPHERAL_5
      else if bus = 7 then SYS_CLK_BUS_PERIPHERAL_7
      else if bus = 8 then SYS_CLK_BUS_PERIPHERAL_8
      else 0)"

definition SYS_CLK_Initialize :: "bool \<Rightarrow> event list" where
  "SYS_CLK_Initialize irq =
     SYS_DEVCON_SystemUnlock irq @
     [Osc (PLIB_OSC_FRCDivisorSelect 1),
      Osc (PLIB_OSC_PBClockDivisorSet 0 3), Osc (PLIB_OSC_PBOutputClockEnable 0),
      Osc (PLIB_OSC_PBClockDivisorSet 1 3), Osc (PLIB_OSC_PBOutputClockEnable 1),
      Osc (PLIB_OSC_PBClockDivisorSet 2 3), Osc (PLIB_OSC_PBOutputClockEnable 2),
      Osc (PLIB_OSC_PBClockDivisorSet 3 2), Osc (PLIB_OSC_PBOutputClockEnable 3),
      Osc (PLIB_OSC_PBClockDivisorSet 4 3), Osc (PLIB_OSC_PBOutputClockEnable 4),
      Osc (PLIB_OSC_PBClockDivisorSet 6 1), Osc (PLIB_OSC_PBOutputClockEnable 6),
      Osc (PLIB_OSC_PBClockDivisorSet 7 3), Osc (PLIB_OSC_PBOutputClockEnable 7),
      Osc (PLIB_OSC_ReferenceOscDisable 1), Osc (PLIB_OSC_ReferenceOutputDisable 1),
      Osc (PLIB_OSC_ReferenceOscDisable 2), Osc (PLIB_OSC_ReferenceOutputDisable 2),
      Osc (PLIB_OSC_ReferenceOscDisable 3), Osc (PLIB_OSC_ReferenceOutputDisable 3),
      Osc (PLIB_OSC_ReferenceOscBaseClockSelect 4 0), Osc (PLIB_OSC_ReferenceOscDivisorValueSet 4 5),
      Osc (PLIB_OSC_ReferenceOscTrimSet 4 296),
      Osc (PLIB_OSC_ReferenceOscEnable 4), Osc (PLIB_OSC_ReferenceOutputEnable 4)] @
     SYS_DEVCON_SystemLock irq @
     SYS_DEVCON_SystemUnlock irq @
     [SetField OSCCON NOSC 2, Setup OSCCONSET 1] @
     SYS_DEVCON_SystemLock irq @
     SYS_DEVCON_SystemUnlock irq @
     [Osc (PLIB_OSC_SysPLLMultiplierSelect 41)] @
     SYS_DEVCON_SystemLock irq @
     SYS_DEVCON_SystemUnlock irq @
     [SetField OSCCON NOSC 1, Setup OSCCONSET 1] @
     SYS_DEVCON_SystemLock irq"

section \<open>The ports\<close>

record port_constants =
  port_id :: port
  ANSEL :: u16
  TRIS_bits :: u16
  LAT_bits :: u16
  ODC :: u16
  CNPU :: u16
  CNPD :: u16
  CNEN :: u16

definition port_table :: "port_constants list" where
  "port_table = [
     \<lparr>port_id = PORT_A, ANSEL = 0x3F00, TRIS_bits = 0xFF3C, LAT_bits = 0x0001, ODC = 0x0000, CNPU = 0x0000, CNPD = 0x0000, CNEN = 0x0000\<rparr>,
     \<lparr>port_id = PORT_B, ANSEL = 0x0000, TRIS_bits = 0xD388, LAT_bits = 0x0840, ODC = 0x0000, CNPU = 0x1000, CNPD = 0x0000, CNEN = 0x0000\<rparr>,
     \<lparr>port_id = PORT_C, ANSEL = 0x0FE1, TRIS_bits = 0x5FFF, LAT_bits = 0x8000, ODC = 0x0000, CNPU = 0x0000, CNPD = 0x0000, CNEN = 0x0000\<rparr>,
     \<lparr>port_id = PORT_D, ANSEL = 0x0100, TRIS_bits = 0xB74D, LAT_bits = 0x0000, ODC = 0x0000, CNPU = 0x0000, CNPD = 0x0000, CNEN = 0x0000\<rparr>,
     \<lparr>port_id = PORT_E, ANSEL = 0xFC00, TRIS_bits = 0xFDFF, LAT_bits = 0x0000, ODC = 0x0000, CNPU = 0x0000, CNPD = 0x0000, CNEN = 0x0000\<rparr>,
     \<lparr>port_id = PORT_F, ANSEL = 0xCEC0, TRIS_bits = 0xDEF3, LAT_bits = 0x0000, ODC = 0x0000, CNPU = 0x0000, CNPD = 0x0000, CNEN = 0x0000\<rparr>,
     \<lparr>port_id = PORT_G, ANSEL = 0x0C3C, TRIS_bits = 0x0FBF, LAT_bits = 0x8000, ODC = 0x0000, CNPU = 0x0000, CNPD = 0x0000, CNEN = 0x0000\<rparr>,
     \<lparr>port_id = PORT_H, ANSEL = 0x0003, TRIS_bits = 0xF0F3, LAT_bits = 0x0000, ODC = 0x0000, CNPU = 0xF070, CNPD = 0x0000, CNEN = 0x0000\<rparr>,
     \<lparr>port_id = PORT_J, ANSEL = 0x0000, TRIS_bits = 0xF410, LAT_bits = 0x0020, ODC = 0x0000, CNPU = 0x0000, CNPD = 0x0000, CNEN = 0x0000\<rparr>,
     \<lparr>port_id = PORT_K, ANSEL = 0xFF00, TRIS_bits = 0xFFFF, LAT_bits = 0x0000, ODC = 0x0000, CNPU = 0x0000, CNPD = 0x0000, CNEN = 0x0000\<rparr>]"

definition port_setup :: "port_constants \<Rightarrow> event list" where
  "port_setup c = map Port [
     PLIB_PORTS_OpenDrainEnable (port_id c) (ODC c),
     PLIB_PORTS_Write (port_id c) (LAT_bits c),
     PLIB_PORTS_DirectionOutputSet (port_id c) (TRIS_bits c XOR 0xFFFF),
     PLIB_PORTS_ChangeNoticePerPortTurnOn (port_id c),
     PLIB_PORTS_ChannelModeSelect_DIGITAL (port_id c) (ANSEL c XOR 0xFFFF),
     PLIB_PORTS_ChannelChangeNoticeEnable (port_id c) (CNEN c),
     PLIB_PORTS_ChannelChangeNoticePullUpEnable (port_id c) (CNPU c),
     PLIB_PORTS_ChannelChangeNoticePullDownEnable (port_id c) (CNPD c)]"

definition SYS_PORTS_Initialize :: "event list" where
  "SYS_PORTS_Initialize = concat (map port_setup port_table)"

section \<open>The start of the system\<close>

text \<open>\<open>SYS_Initialize\<close> up to the call of \<open>APP_Initialize\<close>; \<open>SYS_INT_Initialize\<close> and \<open>SYS_INT_Enable\<close> are library calls.\<close>

definition start_services :: "bool \<Rightarrow> bool \<Rightarrow> input \<Rightarrow> bool \<Rightarrow> devcon_object \<times> 'a hw_scheme \<Rightarrow> devcon_object \<times> 'a hw_scheme" where
  "start_services has_waits has_prefetch ins irq os =
     (let (ob, s) = os;
          s = emit_all (SYS_CLK_Initialize irq) s;
          ob = SYS_DEVCON_Initialize ob;
          cfgcon = ins CFGCON_in (clock s);
          s = emit_all (SYS_DEVCON_PerformanceConfig has_waits has_prefetch cfgcon irq SYS_CLK_FREQ) (tick 1 s);
          s = emit_all SYS_PORTS_Initialize s;
          s = emit_all [Lib SYS_INT_Initialize,
                Setup PRISS (push_bit (7 * 4) 7 OR push_bit (6 * 4) 6 OR push_bit (5 * 4) 5 OR push_bit (4 * 4) 4 OR
                  push_bit (3 * 4) 3 OR push_bit (2 * 4) 2 OR push_bit (1 * 4) 1)] s
      in (ob, emit_all [Lib SYS_INT_Enable] s))"

section \<open>Exceptions\<close>

definition cause :: "string list" where
  "cause = [''Interrupt'', ''Undefined'', ''Undefined'', ''Undefined'', ''Load/fetch address error'',
     ''Store address error'', ''Instruction bus error'', ''Data bus error'', ''Syscall'', ''Breakpoint'',
     ''Reserved instruction'', ''Coprocessor unusable'', ''Arithmetic overflow'', ''Trap'', ''Reserved'', ''Reserved'',
     ''Reserved'', ''Reserved'', ''Reserved'']"

text \<open>What the handler prints before it stops for good: the cause, its code and the address; \<open>None\<close> is a read outside the table.\<close>

definition general_exception_handler :: "u32 \<Rightarrow> u32 \<Rightarrow> (string \<times> u32 \<times> u32) option" where
  "general_exception_handler cp0_cause epc =
     (let code = drop_bit 2 (cp0_cause AND 0x0000007C) in
      if unat code < length cause then Some (cause ! unat code, code, epc) else None)"

section \<open>What the clock set-up achieves\<close>

text \<open>
  The oscillator's view of a run: the register lock, the interrupt enable bit, and the settings, which a
  locked device ignores; an ignored write is counted.
\<close>

record clock_view =
  locked :: bool
  irq_enabled :: bool
  bus_divisor :: "nat \<Rightarrow> nat"
  pll_multiplier :: nat
  ref_divisor :: nat
  ref_trim :: nat
  selected :: u32
  ignored :: nat

definition guarded :: "(clock_view \<Rightarrow> clock_view) \<Rightarrow> clock_view \<Rightarrow> clock_view" where
  "guarded f v = (if locked v then v\<lparr>ignored := ignored v + 1\<rparr> else f v)"

definition osc_step :: "osc_call \<Rightarrow> clock_view \<Rightarrow> clock_view" where
  "osc_step c = (case c of
     PLIB_DEVCON_SystemUnlock \<Rightarrow> (\<lambda>v. v\<lparr>locked := False\<rparr>)
   | PLIB_DEVCON_SystemLock \<Rightarrow> (\<lambda>v. v\<lparr>locked := True\<rparr>)
   | PLIB_OSC_PBClockDivisorSet i d \<Rightarrow> guarded (\<lambda>v. v\<lparr>bus_divisor := (bus_divisor v)(i := d)\<rparr>)
   | PLIB_OSC_SysPLLMultiplierSelect m \<Rightarrow> guarded (\<lambda>v. v\<lparr>pll_multiplier := m\<rparr>)
   | PLIB_OSC_ReferenceOscDivisorValueSet r d \<Rightarrow> guarded (\<lambda>v. if r = 4 then v\<lparr>ref_divisor := d\<rparr> else v)
   | PLIB_OSC_ReferenceOscTrimSet r t \<Rightarrow> guarded (\<lambda>v. if r = 4 then v\<lparr>ref_trim := t\<rparr> else v)
   | _ \<Rightarrow> guarded (\<lambda>v. v))"

definition clock_step :: "event \<Rightarrow> clock_view \<Rightarrow> clock_view" where
  "clock_step ev = (case ev of
     Osc c \<Rightarrow> osc_step c
   | Interrupts on \<Rightarrow> (\<lambda>v. v\<lparr>irq_enabled := on\<rparr>)
   | SetField r f w \<Rightarrow> if r = OSCCON \<and> f = NOSC then guarded (\<lambda>v. v\<lparr>selected := w\<rparr>) else (\<lambda>v. v)
   | Setup r w \<Rightarrow> if r = OSCCONSET then guarded (\<lambda>v. v) else (\<lambda>v. v)
   | _ \<Rightarrow> (\<lambda>v. v))"

lemma clock_set_up:
  "fold clock_step (SYS_CLK_Initialize irq) v =
     v\<lparr>locked := True, irq_enabled := irq,
       bus_divisor := (bus_divisor v)(0 := 3, 1 := 3, 2 := 3, 3 := 2, 4 := 3, 6 := 1, 7 := 3),
       pll_multiplier := 41, ref_divisor := 5, ref_trim := 296, selected := 1\<rparr>"
  by (cases irq)
    (simp_all add: SYS_CLK_Initialize_def SYS_DEVCON_SystemUnlock_def SYS_DEVCON_SystemLock_def clock_step_def osc_step_def guarded_def)

text \<open>
  C38: The clocks are what the code takes them for. After \<open>SYS_CLK_Initialize\<close> no write has been lost to the register lock, the registers are
  locked again and the interrupt enable bit is as before; the PLL, fed with the crystal, is selected and gives
  \<open>SYS_CLK_FREQ\<close>; for every peripheral bus that has one, the frequency that the drivers compute their rates from times the divisor
  programmed is the system clock, exactly; and the reference clock is the divided and trimmed system clock.
\<close>

theorem clocks_as_assumed:
  assumes "bus \<in> {1, 2, 3, 4, 5, 7, 8}"
  shows "let v' = fold clock_step (SYS_CLK_Initialize irq) v
     in locked v' \<and> irq_enabled v' = irq \<and> ignored v' = ignored v \<and> selected v' = 1 \<and>
       SYS_CLK_CONFIG_PRIMARY_XTAL div FPLLIDIV * pll_multiplier v' div FPLLODIV = SYS_CLK_FREQ \<and>
       SYS_CLK_PeripheralFrequencyGet bus * bus_divisor v' (bus - 1) = SYS_CLK_FREQ \<and>
       SYS_CLK_BUS_REFERENCE_4 = SYS_CLK_FREQ * 512 div (2 * (512 * ref_divisor v' + ref_trim v'))"
  using assms
  by (auto simp: clock_set_up Let_def SYS_CLK_CONFIG_PRIMARY_XTAL_def config_numbers SYS_CLK_FREQ_def
      SYS_CLK_PeripheralFrequencyGet_def SYS_CLK_BUS_REFERENCE_4_def SYS_CLK_BUS_PERIPHERAL_1_def SYS_CLK_BUS_PERIPHERAL_2_def
      SYS_CLK_BUS_PERIPHERAL_3_def SYS_CLK_BUS_PERIPHERAL_4_def SYS_CLK_BUS_PERIPHERAL_5_def SYS_CLK_BUS_PERIPHERAL_7_def
      SYS_CLK_BUS_PERIPHERAL_8_def)

text \<open>
  The configuration words and the code fit: the device starts on the PLL, fed with the external oscillator, whose divided frequency lies in the
  range configured for the PLL's input; the frequency it starts with, and each it has during \<open>SYS_CLK_Initialize\<close>, is at most the one it is set
  to; clock switching is enabled, as that function needs it; no watchdog runs, for nothing in the program serves one; and the
  pin assignment can be changed more than once.
\<close>

definition pll_frequency :: "nat \<Rightarrow> nat" where
  "pll_frequency multiplier = SYS_CLK_CONFIG_PRIMARY_XTAL div FPLLIDIV * multiplier div FPLLODIV"

lemma configuration_fits:
  "config_setting ''FNOSC'' = ''SPLL'' \<and> config_setting ''FPLLICLK'' = ''PLL_POSC'' \<and> config_setting ''POSCMOD'' = ''EC'' \<and>
   config_setting ''FPLLRNG'' = ''RANGE_8_16_MHZ'' \<and>
   8000000 \<le> SYS_CLK_CONFIG_PRIMARY_XTAL div FPLLIDIV \<and> SYS_CLK_CONFIG_PRIMARY_XTAL div FPLLIDIV \<le> 16000000 \<and>
   pll_frequency (config_number ''FPLLMULT'') \<le> SYS_CLK_FREQ \<and> SYS_CLK_CONFIG_PRIMARY_XTAL \<le> SYS_CLK_FREQ \<and>
   take 2 (config_setting ''FCKSM'') = ''CS'' \<and>
   config_setting ''FWDTEN'' = ''OFF'' \<and> config_setting ''FDMTEN'' = ''OFF'' \<and>
   config_setting ''IOL1WAY'' = ''OFF'' \<and> config_setting ''PMDL1WAY'' = ''OFF'' \<and>
   distinct (map fst config_words)"
  by (simp add: pll_frequency_def config_numbers SYS_CLK_CONFIG_PRIMARY_XTAL_def SYS_CLK_FREQ_def)
    (simp add: config_setting_def config_words_def)

definition cold_clock :: clock_view where
  "cold_clock = \<lparr>locked = True, irq_enabled = False, bus_divisor = (\<lambda>_. 2), pll_multiplier = config_number ''FPLLMULT'', ref_divisor = 0, ref_trim = 0,
     selected = 0, ignored = 0\<rparr>"

lemma clocks_as_assumed_witness:
  "bus_divisor (fold clock_step (SYS_CLK_Initialize False) cold_clock) 3 * SYS_CLK_PeripheralFrequencyGet 4 = 251904000 \<and>
   ignored (fold clock_step (SYS_CLK_Initialize False) cold_clock) = 0"
  using clocks_as_assumed [of 4 False cold_clock] by (simp add: Let_def SYS_CLK_FREQ_def cold_clock_def mult.commute)

section \<open>What the exception handler reports\<close>

lemma exception_code: "unat (drop_bit 2 (w AND 0x0000007C) :: u32) = unat w div 4 mod 32"
proof -
  have e: "(0x0000007C :: u32) = push_bit 2 (mask 5)" by (simp add: mask_eq_exp_minus_1)
  have "drop_bit 2 (w AND 0x0000007C) = take_bit 5 (drop_bit 2 w)"
    unfolding e by (rule bit_word_eqI) (auto simp: bit_simps)
  then show ?thesis by (simp add: take_bit_eq_mod drop_bit_eq_div unat_mod unat_div)
qed

text \<open>
  The exception handler finds a text for the exception codes 0 to 18, together with the code and the address; but the
  code has five bits and the table nineteen entries: for the codes 19 to 31, among them those of a watch-point, a machine check and a
  cache error, it reads beyond the table.
\<close>

theorem exception_table_bounds:
  "(general_exception_handler w epc = None \<longleftrightarrow> 19 \<le> unat w div 4 mod 32) \<and>
   (\<forall>str code a. general_exception_handler w epc = Some (str, code, a) \<longrightarrow>
      unat code = unat w div 4 mod 32 \<and> str = cause ! (unat w div 4 mod 32) \<and> str \<in> set cause \<and> a = epc) \<and>
   (\<forall>n<32. \<exists>w. unat (w :: u32) div 4 mod 32 = n)"
proof -
  have len: "length cause = 19" by (simp add: cause_def)
  have "\<exists>w. unat (w :: u32) div 4 mod 32 = n" if "n < 32" for n
  proof (intro exI [of _ "of_nat (4 * n)"])
    have "unat (of_nat (4 * n) :: u32) = 4 * n" unfolding unat_of_nat using that by simp
    then show "unat (of_nat (4 * n) :: u32) div 4 mod 32 = n" unfolding \<open>unat _ = _\<close> using that by simp
  qed
  moreover define c where "c = (drop_bit 2 (w AND 0x0000007C) :: u32)"
  moreover have "unat c = unat w div 4 mod 32" unfolding c_def by (rule exception_code)
  ultimately show ?thesis
    unfolding general_exception_handler_def Let_def c_def [symmetric] len using len by (auto intro!: nth_mem)
qed

lemma exception_table_bounds_witness:
  "general_exception_handler (24 * 4) 0x9D000000 = None \<and> general_exception_handler (4 * 4) 5 \<noteq> None"
  using exception_table_bounds [of "24 * 4" "0x9D000000"] exception_table_bounds [of "4 * 4" 5] by simp

end
