(* ===== verification/Ports.thy ===== *)
theory Ports
  imports Boot
begin

text \<open>
  The port registers: the direction, the mode and the pull-ups that the boot code gives the port bits
  (\<open>SYS_PORTS_Initialize\<close>, from the table of \<open>system_config.h\<close>), and which port bits an event of a run drives.
\<close>

section \<open>The ports after the boot\<close>

text \<open>
  What the port registers hold, from the reset on, when all bits are inputs and none is digital by the code's doing. The direction call
  clears bits of \<open>TRIS\<close>, the mode call clears bits of \<open>ANSEL\<close>, the pull-up call sets bits of \<open>CNPU\<close>.
\<close>

record port_view =
  outputs :: "port \<Rightarrow> u16"
  digital :: "port \<Rightarrow> u16"
  pulled_up :: "port \<Rightarrow> u16"

definition reset_ports :: port_view where
  "reset_ports = \<lparr>outputs = (\<lambda>_. 0), digital = (\<lambda>_. 0), pulled_up = (\<lambda>_. 0)\<rparr>"

definition port_step :: "event \<Rightarrow> port_view \<Rightarrow> port_view" where
  "port_step ev v = (case ev of
     Port (PLIB_PORTS_DirectionOutputSet p w) \<Rightarrow> v\<lparr>outputs := (outputs v)(p := outputs v p OR w)\<rparr>
   | Port (PLIB_PORTS_ChannelModeSelect_DIGITAL p w) \<Rightarrow> v\<lparr>digital := (digital v)(p := digital v p OR w)\<rparr>
   | Port (PLIB_PORTS_ChannelChangeNoticePullUpEnable p w) \<Rightarrow> v\<lparr>pulled_up := (pulled_up v)(p := pulled_up v p OR w)\<rparr>
   | _ \<Rightarrow> v)"

definition boot_ports :: port_view where "boot_ports = fold port_step SYS_PORTS_Initialize reset_ports"

text \<open>Each of the three is, for one port, a fold over the rows of the table.\<close>

lemma fold_port_setup:
  "outputs (fold port_step (concat (map port_setup cs)) v) p =
     fold (\<lambda>c m. if port_id c = p then m OR (TRIS_bits c XOR 0xFFFF) else m) cs (outputs v p)"
  "digital (fold port_step (concat (map port_setup cs)) v) p =
     fold (\<lambda>c m. if port_id c = p then m OR (ANSEL c XOR 0xFFFF) else m) cs (digital v p)"
  "pulled_up (fold port_step (concat (map port_setup cs)) v) p =
     fold (\<lambda>c m. if port_id c = p then m OR CNPU c else m) cs (pulled_up v p)"
  by (induction cs arbitrary: v) (simp_all add: port_setup_def port_step_def)

lemmas boot_fold = boot_ports_def SYS_PORTS_Initialize_def fold_port_setup

lemma boot_outputs:
  "outputs boot_ports PORT_A = 0xC3" "outputs boot_ports PORT_B = 0x2C77"
  "outputs boot_ports PORT_C = 0xA000" "outputs boot_ports PORT_D = 0x48B2"
  "outputs boot_ports PORT_E = 0x0200" "outputs boot_ports PORT_F = 0x210C"
  "outputs boot_ports PORT_G = 0xF040" "outputs boot_ports PORT_H = 0x0F0C"
  "outputs boot_ports PORT_J = 0x0BEF"
  unfolding boot_fold by (simp_all add: reset_ports_def port_table_def)

lemma boot_digital:
  "digital boot_ports PORT_A = 0xC0FF" "digital boot_ports PORT_B = 0xFFFF"
  "digital boot_ports PORT_C = 0xF01E" "digital boot_ports PORT_D = 0xFEFF"
  "digital boot_ports PORT_E = 0x03FF" "digital boot_ports PORT_F = 0x313F"
  "digital boot_ports PORT_H = 0xFFFC"
  unfolding boot_fold by (simp_all add: reset_ports_def port_table_def)

lemma boot_pull_ups: "pulled_up boot_ports PORT_B = 0x1000" "pulled_up boot_ports PORT_H = 0xF070"
  unfolding boot_fold by (simp_all add: reset_ports_def port_table_def)

section \<open>The bits that an event drives\<close>

text \<open>
  The port and the bits that a write to a \<open>PORTxSET\<close>, \<open>PORTxCLR\<close> or \<open>PORTxINV\<close> register changes, or a write to a
  latch bit.
\<close>

definition driven :: "event \<Rightarrow> (port \<times> u32) option" where
  "driven ev = (case ev of
     Wr r v \<Rightarrow>
       (if r = PORTACLR \<or> r = PORTASET then Some (PORT_A, v)
        else if r = PORTBSET \<or> r = PORTBCLR \<or> r = PORTBINV then Some (PORT_B, v)
        else if r = PORTGCLR then Some (PORT_G, v)
        else if r = PORTJCLR \<or> r = PORTJSET \<or> r = PORTJINV then Some (PORT_J, v)
        else None)
   | Setup r v \<Rightarrow> (if r = PORTDCLR then Some (PORT_D, v) else if r = PORTHSET then Some (PORT_H, v) else None)
   | SetField r f v \<Rightarrow> (if r = LATB \<and> f = BIT11 then Some (PORT_B, BIT 11) else None)
   | _ \<Rightarrow> None)"

text \<open>An event drives outputs only, if every bit it changes is an output after the boot.\<close>

definition drives_outputs :: "event \<Rightarrow> bool" where
  "drives_outputs ev = (case driven ev of None \<Rightarrow> True
     | Some (p, w) \<Rightarrow> w AND NOT (ucast (outputs boot_ports p)) = 0)"

lemma drives_outputs_bits:
  "drives_outputs ev \<Longrightarrow> driven ev = Some (p, w) \<Longrightarrow> bit w n \<Longrightarrow> bit (outputs boot_ports p) n"
proof -
  assume "drives_outputs ev" "driven ev = Some (p, w)" and n: "bit w n"
  then have "w AND NOT (ucast (outputs boot_ports p)) = 0" by (simp add: drives_outputs_def)
  then have "\<not> bit (w AND NOT (ucast (outputs boot_ports p))) n" by simp
  moreover have "n < 32" using n bit_imp_le_length [OF n] by simp
  ultimately show ?thesis using n by (auto simp: bit_simps)
qed

lemma drives_outputs_simps [simp]:
  "drives_outputs (Lib c)" "drives_outputs (WrMask mr k)" "drives_outputs (WrFields sr fs)" "drives_outputs (Store16 w h)"
  "drives_outputs (Osc oc)" "drives_outputs (Port pc)" "drives_outputs (I2C_MasterStart i)" "drives_outputs (I2C_ByteSend i b)"
  "drives_outputs (I2C_MasterStop i)"
  by (simp_all add: drives_outputs_def driven_def)

lemma drives_outputs_Wr [simp]:
  "drives_outputs (Wr r v) \<longleftrightarrow>
     (if r = PORTACLR \<or> r = PORTASET then v AND NOT 0xC3 = 0
      else if r = PORTBSET \<or> r = PORTBCLR \<or> r = PORTBINV then v AND NOT 0x2C77 = 0
      else if r = PORTGCLR then v AND NOT 0xF040 = 0
      else if r = PORTJCLR \<or> r = PORTJSET \<or> r = PORTJINV then v AND NOT 0x0BEF = 0
      else True)"
  by (simp add: drives_outputs_def driven_def boot_outputs)

lemma drives_outputs_Setup [simp]:
  "drives_outputs (Setup sr v) \<longleftrightarrow>
     (if sr = PORTDCLR then v AND NOT 0x48B2 = 0 else if sr = PORTHSET then v AND NOT 0x0F0C = 0 else True)"
  "drives_outputs (SetField sr f v) \<longleftrightarrow> (if sr = LATB \<and> f = BIT11 then BIT 11 AND NOT 0x2C77 = 0 else True)"
  by (simp_all add: drives_outputs_def driven_def boot_outputs)

end
