(* ===== verification/I2C_Master.thy ===== *)
theory I2C_Master
  imports Machine
begin

text \<open>
  The I2C master side of \<open>i2c.c\<close>: start, transmit and stop on module 2 (the codec) and on module 4, the
  packet transfers built from them, and the codec's set-up. The library calls of \<open>PLIB_I2C\<close> are
  volatile reads (the flags \<open>I2C_...\<close>) and the emitted \<open>I2C_...\<close> events; the two copies of the code differ only
  in the module, an argument here. \<open>None\<close> is a call that never returns.
\<close>

definition I2C_CLOCK_FREQ :: nat where "I2C_CLOCK_FREQ = 100000"

section \<open>Signals and bytes\<close>

definition start_transfer :: "i2c_id \<Rightarrow> device \<Rightarrow> bool \<Rightarrow> 'a hw_scheme \<Rightarrow> (bool \<times> 'a hw_scheme) option" where
  "start_transfer i dev restart s = do {
     s \<leftarrow> (if restart then Some (emit (I2C_MasterStartRepeat i) s)
          else do { s \<leftarrow> wait_until dev (I2C_BusIsIdle i) s; Some (emit (I2C_MasterStart i) s) });
     s \<leftarrow> wait_while dev (I2C_SEN i) s;
     let (lost, s) = poll_flag dev (I2C_ArbitrationLoss i) s;
     Some (\<not> lost, s) }"

definition transmit_one_byte :: "i2c_id \<Rightarrow> device \<Rightarrow> u8 \<Rightarrow> 'a hw_scheme \<Rightarrow> (bool \<times> 'a hw_scheme) option" where
  "transmit_one_byte i dev d s = do {
     s \<leftarrow> wait_until dev (I2C_TransmitterIsReady i) s;
     let s = emit (I2C_ByteSend i d) s;
     let (overflow, s) = poll_flag dev (I2C_TransmitterOverflow i) s;
     if overflow then Some (False, s)
     else do { s \<leftarrow> wait_until dev (I2C_TransmitterByteHasCompleted i) s; Some (True, s) } }"

definition stop_transfer :: "i2c_id \<Rightarrow> device \<Rightarrow> 'a hw_scheme \<Rightarrow> 'a hw_scheme option" where
  "stop_transfer i dev s = wait_while dev (I2C_PEN i) (emit (I2C_MasterStop i) s)"

definition StartTransfer :: "device \<Rightarrow> bool \<Rightarrow> 'a hw_scheme \<Rightarrow> (bool \<times> 'a hw_scheme) option" where
  "StartTransfer = start_transfer I2C_ID_2"

definition TransmitOneByte :: "device \<Rightarrow> u8 \<Rightarrow> 'a hw_scheme \<Rightarrow> (bool \<times> 'a hw_scheme) option" where
  "TransmitOneByte = transmit_one_byte I2C_ID_2"

definition StopTransfer :: "device \<Rightarrow> 'a hw_scheme \<Rightarrow> 'a hw_scheme option" where
  "StopTransfer = stop_transfer I2C_ID_2"

definition i2cStartTransfer :: "device \<Rightarrow> bool \<Rightarrow> 'a hw_scheme \<Rightarrow> (bool \<times> 'a hw_scheme) option" where
  "i2cStartTransfer = start_transfer I2C_ID_4"

definition i2cTransmitOneByte :: "device \<Rightarrow> u8 \<Rightarrow> 'a hw_scheme \<Rightarrow> (bool \<times> 'a hw_scheme) option" where
  "i2cTransmitOneByte = transmit_one_byte I2C_ID_4"

definition i2cStopTransfer :: "device \<Rightarrow> 'a hw_scheme \<Rightarrow> 'a hw_scheme option" where
  "i2cStopTransfer = stop_transfer I2C_ID_4"

section \<open>Packets\<close>

text \<open>The transmit loop of both packet functions: it stops at the first byte that fails or is not acknowledged.\<close>

fun send_loop :: "i2c_id \<Rightarrow> device \<Rightarrow> u8 list \<Rightarrow> 'a hw_scheme \<Rightarrow> (bool \<times> 'a hw_scheme) option" where
  "send_loop i dev [] s = Some (True, s)"
| "send_loop i dev (b # bs) s = do {
     (sent, s) \<leftarrow> transmit_one_byte i dev b s;
     if sent then
       let (acked, s) = poll_flag dev (I2C_Acknowledged i) s in
       if acked then send_loop i dev bs s else Some (False, s)
     else Some (False, s) }"

text \<open>\<open>ErrorHalt\<close> and the \<open>while(1)\<close> after a failed start loop for ever.\<close>

definition ErrorHalt :: "'a hw_scheme \<Rightarrow> 'a hw_scheme option" where
  "ErrorHalt s = None"

definition SendPacket :: "device \<Rightarrow> u8 list \<Rightarrow> 'a hw_scheme \<Rightarrow> 'a hw_scheme option" where
  "SendPacket dev i2cData s = do {
     (started, s) \<leftarrow> StartTransfer dev False s;
     if \<not> started then None
     else do {
       (success, s) \<leftarrow> send_loop I2C_ID_2 dev i2cData s;
       s \<leftarrow> StopTransfer dev s;
       if \<not> success then ErrorHalt s else Some s } }"

definition i2cSendPacket :: "device \<Rightarrow> u8 list \<Rightarrow> 'a hw_scheme \<Rightarrow> (bool \<times> 'a hw_scheme) option" where
  "i2cSendPacket dev i2cData s = do {
     (started, s) \<leftarrow> i2cStartTransfer dev False s;
     if \<not> started then Some (False, s)
     else do {
       (success, s) \<leftarrow> send_loop I2C_ID_4 dev i2cData s;
       s \<leftarrow> i2cStopTransfer dev s;
       Some (success, s) } }"

text \<open>One byte of \<open>i2cReceivePacket\<close>; \<open>final\<close> is \<open>Index >= (DataSz-1)\<close>.\<close>

definition receive_byte :: "device \<Rightarrow> input \<Rightarrow> bool \<Rightarrow> 'a hw_scheme \<Rightarrow> (u8 \<times> 'a hw_scheme) option" where
  "receive_byte dev inp final s = do {
     s \<leftarrow> wait_while dev I2C4_MasterBusy s;
     let s = wr I2C4CONSET (BIT 3) s;
     s \<leftarrow> wait_while dev I2C4_MasterBusy s;
     s \<leftarrow> wait_until dev I2C4_RBF s;
     let s = wr I2C4CON_ACKDT (of_bool final) s;
     s \<leftarrow> wait_while dev I2C4_MasterBusy s;
     let s = wr I2C4CONSET (BIT 4) s;
     Some (ucast (inp I2C4RCV (clock s)), tick 1 s) }"

fun receive_loop :: "device \<Rightarrow> input \<Rightarrow> nat \<Rightarrow> 'a hw_scheme \<Rightarrow> (u8 list \<times> 'a hw_scheme) option" where
  "receive_loop dev inp 0 s = Some ([], s)"
| "receive_loop dev inp (Suc n) s = do {
     (b, s) \<leftarrow> receive_byte dev inp (n = 0) s;
     (bs, s) \<leftarrow> receive_loop dev inp n s;
     Some (b # bs, s) }"

text \<open>The result is the returned value and the bytes stored; an unsuccessful call stores none.\<close>

definition i2cReceivePacket ::
    "device \<Rightarrow> input \<Rightarrow> u8 \<Rightarrow> nat \<Rightarrow> 'a hw_scheme \<Rightarrow> (bool \<times> u8 list \<times> 'a hw_scheme) option" where
  "i2cReceivePacket dev inp addrByte DataSz s = do {
     (started, s) \<leftarrow> i2cStartTransfer dev False s;
     if \<not> started then Some (False, [], s)
     else do {
       (sent, s) \<leftarrow> i2cTransmitOneByte dev addrByte s;
       let (success, s) = (if sent then poll_flag dev (I2C_Acknowledged I2C_ID_4) s else (False, s));
       (bs, s) \<leftarrow> (if success then receive_loop dev inp DataSz s else Some ([], s));
       s \<leftarrow> i2cStopTransfer dev s;
       Some (success, bs, s) } }"

section \<open>The codec\<close>

definition codec_registers :: "(u8 \<times> u8) list" where
  "codec_registers = [(65, 0x01), (81, 0x01 OR push_bit 4 4), (82, 0x07), (84, 0x11), (67, 0x05), (66, 0xc0)]"

text \<open>\<open>I2C_WRITE\<close> is a constant of the I2C library, a parameter here.\<close>

definition codec_address :: "u8 \<Rightarrow> u8" where
  "codec_address I2C_WRITE = push_bit 1 0x44 OR I2C_WRITE"

definition ConfigureCodec :: "u8 \<Rightarrow> device \<Rightarrow> 'a hw_scheme \<Rightarrow> 'a hw_scheme option" where
  "ConfigureCodec I2C_WRITE dev s = do {
     let s = wr I2C2BRG (of_nat (SYS_CLK_BUS_PERIPHERAL_2 div (2 * I2C_CLOCK_FREQ) - 1)) s;
     let s = wr I2C2CON (BIT 15) s;
     s \<leftarrow> fold_opt (\<lambda>(r, v). SendPacket dev [codec_address I2C_WRITE, r, v]) codec_registers s;
     Some (wr I2C2CONCLR (BIT 15) s) }"

section \<open>The slave\<close>

definition configureI2CSlave :: "'a hw_scheme \<Rightarrow> 'a hw_scheme" where
  "configureI2CSlave s = emit_all [
     Wr I2C4CONCLR (BIT 15),
     Lib (PLIB_INT_VectorPrioritySet INT_VECTOR_I2C4_SLAVE 3),
     Lib (PLIB_INT_VectorSubPrioritySet INT_VECTOR_I2C4_SLAVE 0),
     Lib (PLIB_INT_SourceEnable INT_SOURCE_I2C_4_SLAVE),
     Lib (PLIB_I2C_SlaveAddress7BitSet I2C_ID_4 0x31),
     Wr I2C4BRG (of_nat (SYS_CLK_BUS_PERIPHERAL_2 div (2 * I2C_CLOCK_FREQ) - 1)),
     Wr I2C4CON (BIT 15)] s"

section \<open>The bus protocol of a packet\<close>

text \<open>
  \<open>does m s es P\<close>: the operation \<open>m\<close>, run from \<open>s\<close>, returns; it emitted \<open>es\<close>, changed nothing else but the
  clock, and its result satisfies \<open>P\<close>.
\<close>

definition does :: "('b \<times> 'a hw_scheme) option \<Rightarrow> 'a hw_scheme \<Rightarrow> event list \<Rightarrow> ('b \<Rightarrow> bool) \<Rightarrow> bool" where
  "does m s es P \<longleftrightarrow> (\<exists>r t. m = Some (r, s\<lparr>clock := t, trace := trace s @ es\<rparr>) \<and> P r)"

lemma doesE:
  assumes "does m s es P"
  obtains r t where "m = Some (r, s\<lparr>clock := t, trace := trace s @ es\<rparr>)" "P r"
  using assms unfolding does_def by blast

lemma waited:
  assumes "responsive dev"
  shows "busy_flag f \<Longrightarrow> \<exists>t. wait_while dev f s = Some (s\<lparr>clock := t\<rparr>)"
    and "ready_flag f \<Longrightarrow> \<exists>t. wait_until dev f s = Some (s\<lparr>clock := t\<rparr>)"
  using wait_while_returns [OF assms, of f s] wait_until_returns [OF assms, of f s]
  by (auto simp: later_def simp del: busy_flag.simps ready_flag.simps)

text \<open>A bus on which nothing goes wrong: no lost arbitration, no overflow, every byte acknowledged.\<close>

definition good_bus :: "i2c_id \<Rightarrow> device \<Rightarrow> bool" where
  "good_bus i dev \<longleftrightarrow> (\<forall>t. \<not> dev (I2C_ArbitrationLoss i) t \<and> \<not> dev (I2C_TransmitterOverflow i) t \<and>
     dev (I2C_Acknowledged i) t)"

lemma start_does:
  assumes "responsive dev"
  shows "does (start_transfer i dev False s) s [I2C_MasterStart i] (\<lambda>r. good_bus i dev \<longrightarrow> r)"
proof -
  obtain t1 where t1: "wait_until dev (I2C_BusIsIdle i) s = Some (s\<lparr>clock := t1\<rparr>)"
    using waited(2) [OF assms, of "I2C_BusIsIdle i" s] by auto
  obtain t2 where t2: "wait_while dev (I2C_SEN i) (emit (I2C_MasterStart i) (s\<lparr>clock := t1\<rparr>)) =
      Some ((emit (I2C_MasterStart i) (s\<lparr>clock := t1\<rparr>))\<lparr>clock := t2\<rparr>)"
    using waited(1) [OF assms, of "I2C_SEN i"] by fastforce
  show ?thesis
    unfolding does_def using t1 t2
    by (intro exI [of _ "\<not> dev (I2C_ArbitrationLoss i) t2"] exI [of _ "Suc t2"])
      (simp add: start_transfer_def poll_flag_def tick_def emit_def good_bus_def)
qed

lemma transmit_does:
  assumes "responsive dev"
  shows "does (transmit_one_byte i dev d s) s [I2C_ByteSend i d] (\<lambda>r. good_bus i dev \<longrightarrow> r)"
proof -
  obtain t1 where t1: "wait_until dev (I2C_TransmitterIsReady i) s = Some (s\<lparr>clock := t1\<rparr>)"
    using waited(2) [OF assms, of "I2C_TransmitterIsReady i" s] by auto
  let ?s1 = "tick 1 (emit (I2C_ByteSend i d) (s\<lparr>clock := t1\<rparr>))"
  obtain t2 where t2: "wait_until dev (I2C_TransmitterByteHasCompleted i) ?s1 = Some (?s1\<lparr>clock := t2\<rparr>)"
    using waited(2) [OF assms, of "I2C_TransmitterByteHasCompleted i" ?s1] by auto
  show ?thesis
  proof (cases "dev (I2C_TransmitterOverflow i) t1")
    case True
    then show ?thesis
      unfolding does_def using t1
      by (intro exI [of _ False] exI [of _ "Suc t1"])
        (auto simp: transmit_one_byte_def poll_flag_def tick_def emit_def good_bus_def)
  next
    case False
    then show ?thesis
      unfolding does_def using t1 t2
      by (intro exI [of _ True] exI [of _ t2])
        (simp add: transmit_one_byte_def poll_flag_def tick_def emit_def)
  qed
qed

lemma stop_returns:
  assumes "responsive dev"
  shows "\<exists>t. stop_transfer i dev s = Some (s\<lparr>clock := t, trace := trace s @ [I2C_MasterStop i]\<rparr>)"
proof -
  obtain t where "wait_while dev (I2C_PEN i) (emit (I2C_MasterStop i) s) =
      Some ((emit (I2C_MasterStop i) s)\<lparr>clock := t\<rparr>)"
    using waited(1) [OF assms, of "I2C_PEN i"] by fastforce
  then show ?thesis by (intro exI [of _ t]) (simp add: stop_transfer_def emit_def)
qed

definition sends :: "i2c_id \<Rightarrow> u8 list \<Rightarrow> event list" where
  "sends i bs = map (I2C_ByteSend i) bs"

lemma send_loop_does:
  assumes "responsive dev"
  shows "\<exists>k\<le>length bs. does (send_loop i dev bs s) s (sends i (take k bs))
     (\<lambda>r. (r \<longrightarrow> k = length bs) \<and> (good_bus i dev \<longrightarrow> r))"
proof (induction bs arbitrary: s)
  case Nil
  have "Some (True, s) = Some (True, s\<lparr>clock := clock s, trace := trace s @ []\<rparr>)" by simp
  then have "does (send_loop i dev [] s) s (sends i (take 0 []))
     (\<lambda>r. (r \<longrightarrow> 0 = length ([] :: u8 list)) \<and> (good_bus i dev \<longrightarrow> r))"
    unfolding does_def sends_def by (metis list.size(3) list.simps(8) send_loop.simps(1) take_Nil)
  then show ?case by blast
next
  case (Cons b bs)
  obtain r t where t: "transmit_one_byte i dev b s = Some (r, s\<lparr>clock := t, trace := trace s @ [I2C_ByteSend i b]\<rparr>)"
      "good_bus i dev \<longrightarrow> r"
    by (rule doesE [OF transmit_does [OF assms]])
  let ?s1 = "tick 1 (s\<lparr>clock := t, trace := trace s @ [I2C_ByteSend i b]\<rparr>)"
  show ?case
  proof (cases "r \<and> dev (I2C_Acknowledged i) t")
    case True
    obtain k where k: "k \<le> length bs" "does (send_loop i dev bs ?s1) ?s1 (sends i (take k bs))
        (\<lambda>r. (r \<longrightarrow> k = length bs) \<and> (good_bus i dev \<longrightarrow> r))"
      using Cons.IH by blast
    then obtain r' t' where "send_loop i dev bs ?s1 =
        Some (r', ?s1\<lparr>clock := t', trace := trace ?s1 @ sends i (take k bs)\<rparr>)"
        "r' \<longrightarrow> k = length bs" "good_bus i dev \<longrightarrow> r'"
      by (auto elim!: doesE)
    then show ?thesis
      using True t(1) k(1)
      by (intro exI [of _ "Suc k"], unfold does_def)
        (intro conjI exI [of _ r'] exI [of _ t'], simp_all add: poll_flag_def tick_def sends_def)
  next
    case False
    then have "\<not> good_bus i dev" using t(2) by (auto simp: good_bus_def)
    moreover have "\<exists>u. send_loop i dev (b # bs) s =
        Some (False, s\<lparr>clock := u, trace := trace s @ [I2C_ByteSend i b]\<rparr>)"
    proof (cases r)
      case True
      then show ?thesis
        using False t(1) by (intro exI [of _ "Suc t"]) (simp add: poll_flag_def tick_def)
    next
      case False
      then show ?thesis using t(1) by (intro exI [of _ t]) simp
    qed
    ultimately obtain u where "\<not> good_bus i dev" "send_loop i dev (b # bs) s =
        Some (False, s\<lparr>clock := u, trace := trace s @ sends i (take (Suc 0) (b # bs))\<rparr>)"
      by (auto simp: sends_def simp del: send_loop.simps)
    then have "does (send_loop i dev (b # bs) s) s (sends i (take (Suc 0) (b # bs)))
        (\<lambda>r. (r \<longrightarrow> Suc 0 = length (b # bs)) \<and> (good_bus i dev \<longrightarrow> r))"
      unfolding does_def by blast
    moreover have "Suc 0 \<le> length (b # bs)" by simp
    ultimately show ?thesis by blast
  qed
qed


definition packet :: "i2c_id \<Rightarrow> u8 list \<Rightarrow> event list" where
  "packet i bs = I2C_MasterStart i # sends i bs @ [I2C_MasterStop i]"

text \<open>
  C17: \<open>i2cSendPacket\<close> always returns on a responsive device and keeps to the bus protocol: unless arbitration is
  lost at the start, it sends a prefix of the packet between one start and one stop; it reports
  success only when the whole packet was sent, and it does succeed on a bus on which nothing goes wrong. It returns after an
  error too: the comment at \<open>i2c.c:431\<close> says that it hangs there, which is what the other routine, \<open>SendPacket\<close>, does.
\<close>

theorem i2cSendPacket_protocol:
  assumes "responsive dev"
  shows "\<exists>r t es. i2cSendPacket dev bs s = Some (r, s\<lparr>clock := t, trace := trace s @ es\<rparr>) \<and>
     (\<not> r \<and> es = [I2C_MasterStart I2C_ID_4] \<or> (\<exists>k\<le>length bs. es = packet I2C_ID_4 (take k bs) \<and> (r \<longrightarrow> k = length bs))) \<and>
     (good_bus I2C_ID_4 dev \<longrightarrow> r \<and> es = packet I2C_ID_4 bs)"
proof -
  obtain r0 t0 where start: "start_transfer I2C_ID_4 dev False s =
      Some (r0, s\<lparr>clock := t0, trace := trace s @ [I2C_MasterStart I2C_ID_4]\<rparr>)" "good_bus I2C_ID_4 dev \<longrightarrow> r0"
    by (rule doesE [OF start_does [OF assms]])
  let ?s0 = "s\<lparr>clock := t0, trace := trace s @ [I2C_MasterStart I2C_ID_4]\<rparr>"
  show ?thesis
  proof (cases r0)
    case False
    then show ?thesis
      using start by (intro exI [of _ False] exI [of _ t0] exI [of _ "[I2C_MasterStart I2C_ID_4]"])
        (simp add: i2cSendPacket_def i2cStartTransfer_def)
  next
    case True
    obtain k where "k \<le> length bs" "does (send_loop I2C_ID_4 dev bs ?s0) ?s0 (sends I2C_ID_4 (take k bs))
        (\<lambda>r. (r \<longrightarrow> k = length bs) \<and> (good_bus I2C_ID_4 dev \<longrightarrow> r))"
      using send_loop_does [OF assms] by blast
    then obtain r1 t1 where loop: "k \<le> length bs" "send_loop I2C_ID_4 dev bs ?s0 =
        Some (r1, ?s0\<lparr>clock := t1, trace := trace ?s0 @ sends I2C_ID_4 (take k bs)\<rparr>)"
        "r1 \<longrightarrow> k = length bs" "good_bus I2C_ID_4 dev \<longrightarrow> r1"
      by (auto elim!: doesE)
    let ?s1 = "?s0\<lparr>clock := t1, trace := trace ?s0 @ sends I2C_ID_4 (take k bs)\<rparr>"
    obtain t2 where stop: "stop_transfer I2C_ID_4 dev ?s1 =
        Some (?s1\<lparr>clock := t2, trace := trace ?s1 @ [I2C_MasterStop I2C_ID_4]\<rparr>)"
      using stop_returns [OF assms] by blast
    have "i2cSendPacket dev bs s = Some (r1, s\<lparr>clock := t2, trace := trace s @ packet I2C_ID_4 (take k bs)\<rparr>)"
      using True start(1) loop(2) stop
      by (simp add: i2cSendPacket_def i2cStartTransfer_def i2cStopTransfer_def packet_def)
    with loop show ?thesis
      by (intro exI [of _ r1] exI [of _ t2] exI [of _ "packet I2C_ID_4 (take k bs)"]) auto
  qed
qed

definition good_device :: device where
  "good_device f t = (ready_flag f \<or> f \<in> {I2C_Acknowledged I2C_ID_2, I2C_Acknowledged I2C_ID_4})"

lemma good_device_simps [simp]: "responsive good_device" "good_bus i good_device"
proof -
  have "\<not> ready_flag f" if "busy_flag f" for f using that by (cases f) simp_all
  moreover have "\<not> busy_flag (I2C_Acknowledged i)" for i by simp
  ultimately show "responsive good_device"
    by (auto simp: responsive_def idle_at_def good_device_def simp del: busy_flag.simps ready_flag.simps)
  show "good_bus i good_device" by (cases i) (simp_all add: good_bus_def good_device_def)
qed

lemma i2cSendPacket_protocol_witness:
  "\<exists>t. i2cSendPacket good_device [1, 2] \<lparr>clock = 0, trace = []\<rparr> =
     Some (True, \<lparr>clock = t, trace = [I2C_MasterStart I2C_ID_4, I2C_ByteSend I2C_ID_4 1,
       I2C_ByteSend I2C_ID_4 2, I2C_MasterStop I2C_ID_4]\<rparr>)"
  using i2cSendPacket_protocol [OF good_device_simps(1), of "[1, 2]" "\<lparr>clock = 0, trace = []\<rparr>"]
  by (auto simp: packet_def sends_def)


text \<open>The packet function of the codec's bus: it hangs where the other one reports a failure.\<close>

lemma SendPacket_does:
  assumes "responsive dev"
  shows "SendPacket dev bs s = None \<or>
     (\<exists>t. SendPacket dev bs s = Some (s\<lparr>clock := t, trace := trace s @ packet I2C_ID_2 bs\<rparr>))"
    and "good_bus I2C_ID_2 dev \<Longrightarrow> SendPacket dev bs s \<noteq> None"
proof -
  obtain r0 t0 where start: "start_transfer I2C_ID_2 dev False s =
      Some (r0, s\<lparr>clock := t0, trace := trace s @ [I2C_MasterStart I2C_ID_2]\<rparr>)" "good_bus I2C_ID_2 dev \<longrightarrow> r0"
    by (rule doesE [OF start_does [OF assms]])
  let ?s0 = "s\<lparr>clock := t0, trace := trace s @ [I2C_MasterStart I2C_ID_2]\<rparr>"
  obtain k where "does (send_loop I2C_ID_2 dev bs ?s0) ?s0 (sends I2C_ID_2 (take k bs))
      (\<lambda>r. (r \<longrightarrow> k = length bs) \<and> (good_bus I2C_ID_2 dev \<longrightarrow> r))"
    using send_loop_does [OF assms] by blast
  then obtain r1 t1 where loop: "send_loop I2C_ID_2 dev bs ?s0 =
      Some (r1, ?s0\<lparr>clock := t1, trace := trace ?s0 @ sends I2C_ID_2 (take k bs)\<rparr>)"
      "r1 \<longrightarrow> k = length bs" "good_bus I2C_ID_2 dev \<longrightarrow> r1"
    by (auto elim!: doesE)
  let ?s1 = "?s0\<lparr>clock := t1, trace := trace ?s0 @ sends I2C_ID_2 (take k bs)\<rparr>"
  obtain t2 where stop: "stop_transfer I2C_ID_2 dev ?s1 =
      Some (?s1\<lparr>clock := t2, trace := trace ?s1 @ [I2C_MasterStop I2C_ID_2]\<rparr>)"
    using stop_returns [OF assms] by blast
  have e: "SendPacket dev bs s =
      (if r0 \<and> r1 then Some (s\<lparr>clock := t2, trace := trace s @ packet I2C_ID_2 bs\<rparr>) else None)"
    using start(1) loop(1,2) stop
    by (cases r1) (simp_all add: SendPacket_def StartTransfer_def StopTransfer_def ErrorHalt_def packet_def)
  then show "SendPacket dev bs s = None \<or>
     (\<exists>t. SendPacket dev bs s = Some (s\<lparr>clock := t, trace := trace s @ packet I2C_ID_2 bs\<rparr>))"
    by auto
  show "SendPacket dev bs s \<noteq> None" if "good_bus I2C_ID_2 dev"
    using e start(2) loop(3) that by simp
qed

text \<open>
  C13: \<open>ConfigureCodec\<close> either hangs or configures the codec completely: whenever it returns, it has sent all six
  register settings in order, each as one packet to the codec's address between enabling and disabling the
  module at a baud setting of 418; and it does return on a bus on which nothing goes wrong.
\<close>

theorem ConfigureCodec_all_or_nothing:
  assumes "responsive dev"
  shows "(\<forall>s'. ConfigureCodec w dev s = Some s' \<longrightarrow>
        trace s' = trace s @ [Wr I2C2BRG 418, Wr I2C2CON (BIT 15)] @
          concat (map (\<lambda>(r, v). packet I2C_ID_2 [codec_address w, r, v])
            [(65, 0x01), (81, 0x41), (82, 0x07), (84, 0x11), (67, 0x05), (66, 0xc0)]) @
          [Wr I2C2CONCLR (BIT 15)]) \<and>
     (good_bus I2C_ID_2 dev \<longrightarrow> ConfigureCodec w dev s \<noteq> None)"
proof -
  let ?p = "\<lambda>(r, v). SendPacket dev [codec_address w, r, v]"
  let ?e = "\<lambda>(r, v). packet I2C_ID_2 [codec_address w, r, v]"
  have loop: "(fold_opt ?p rs u = Some u' \<longrightarrow> trace u' = trace u @ concat (map ?e rs)) \<and>
      (good_bus I2C_ID_2 dev \<longrightarrow> fold_opt ?p rs u \<noteq> None)" for rs and u u' :: "'a hw_scheme"
  proof (induction rs arbitrary: u)
    case Nil
    show ?case by auto
  next
    case (Cons r rs)
    obtain a b where r: "r = (a, b)" by force
    from SendPacket_does [OF assms, of "[codec_address w, a, b]" u] show ?case
    proof (elim disjE exE)
      assume "SendPacket dev [codec_address w, a, b] u = None"
      with SendPacket_does(2) [OF assms, of "[codec_address w, a, b]" u] show ?thesis by (auto simp: r)
    next
      fix t
      assume "SendPacket dev [codec_address w, a, b] u =
          Some (u\<lparr>clock := t, trace := trace u @ packet I2C_ID_2 [codec_address w, a, b]\<rparr>)"
      then show ?thesis
        using Cons.IH [of "u\<lparr>clock := t, trace := trace u @ packet I2C_ID_2 [codec_address w, a, b]\<rparr>"]
        by (simp add: r)
    qed
  qed
  have regs: "codec_registers = [(65, 0x01), (81, 0x41), (82, 0x07), (84, 0x11), (67, 0x05), (66, 0xc0)]"
    by (simp add: codec_registers_def)
  have brg: "of_nat (SYS_CLK_BUS_PERIPHERAL_2 div (2 * I2C_CLOCK_FREQ) - 1) = (418 :: u32)"
    by (simp add: SYS_CLK_BUS_PERIPHERAL_2_def I2C_CLOCK_FREQ_def)
  let ?u = "wr I2C2CON (BIT 15) (wr I2C2BRG 418 s)"
  have c: "ConfigureCodec w dev s = map_option (wr I2C2CONCLR (BIT 15)) (fold_opt ?p codec_registers ?u)"
    unfolding ConfigureCodec_def brg by (cases "fold_opt ?p codec_registers ?u") simp_all
  show ?thesis
  proof (intro conjI allI impI)
    fix s' assume "ConfigureCodec w dev s = Some s'"
    then obtain u' where u': "fold_opt ?p codec_registers ?u = Some u'" "s' = wr I2C2CONCLR (BIT 15) u'"
      unfolding c by auto
    then have "trace u' = trace ?u @ concat (map ?e codec_registers)" using loop by blast
    then show "trace s' = trace s @ [Wr I2C2BRG 418, Wr I2C2CON (BIT 15)] @
          concat (map ?e [(65, 0x01), (81, 0x41), (82, 0x07), (84, 0x11), (67, 0x05), (66, 0xc0)]) @
          [Wr I2C2CONCLR (BIT 15)]"
      using u'(2) by (simp add: regs)
  next
    assume "good_bus I2C_ID_2 dev"
    then show "ConfigureCodec w dev s \<noteq> None" using loop [of codec_registers ?u] unfolding c by auto
  qed
qed

lemma ConfigureCodec_all_or_nothing_witness:
  "ConfigureCodec 0 good_device \<lparr>clock = 0, trace = []\<rparr> \<noteq> None"
  using ConfigureCodec_all_or_nothing [OF good_device_simps(1), of 0 "\<lparr>clock = 0, trace = []\<rparr>"]
    good_device_simps(2) by blast


section \<open>Receiving\<close>

fun receive_events :: "nat \<Rightarrow> event list" where
  "receive_events 0 = []"
| "receive_events (Suc n) =
     [Wr I2C4CONSET (BIT 3), Wr I2C4CON_ACKDT (of_bool (n = 0)), Wr I2C4CONSET (BIT 4)] @ receive_events n"

lemma receive_byte_does:
  assumes "responsive dev"
  shows "does (receive_byte dev inp final s) s
     [Wr I2C4CONSET (BIT 3), Wr I2C4CON_ACKDT (of_bool final), Wr I2C4CONSET (BIT 4)] (\<lambda>_. True)"
proof -
  note busy = waited(1) [OF assms, of I2C4_MasterBusy]
  obtain t1 where t1: "wait_while dev I2C4_MasterBusy s = Some (s\<lparr>clock := t1\<rparr>)"
    using busy [of s] by auto
  let ?s1 = "wr I2C4CONSET (BIT 3) (s\<lparr>clock := t1\<rparr>)"
  obtain t2 where t2: "wait_while dev I2C4_MasterBusy ?s1 = Some (?s1\<lparr>clock := t2\<rparr>)"
    using busy [of ?s1] by auto
  obtain t3 where t3: "wait_until dev I2C4_RBF (?s1\<lparr>clock := t2\<rparr>) = Some (?s1\<lparr>clock := t2\<rparr>\<lparr>clock := t3\<rparr>)"
    using waited(2) [OF assms, of I2C4_RBF "?s1\<lparr>clock := t2\<rparr>"] by auto
  let ?s3 = "wr I2C4CON_ACKDT (of_bool final) (?s1\<lparr>clock := t2\<rparr>\<lparr>clock := t3\<rparr>)"
  obtain t4 where t4: "wait_while dev I2C4_MasterBusy ?s3 = Some (?s3\<lparr>clock := t4\<rparr>)"
    using busy [of ?s3] by auto
  have "receive_byte dev inp final s =
      Some (ucast (inp I2C4RCV t4), tick 1 (wr I2C4CONSET (BIT 4) (?s3\<lparr>clock := t4\<rparr>)))"
    unfolding receive_byte_def Let_def by (simp only: t1 t2 t3 t4 Option.bind.simps) simp
  then show ?thesis
    unfolding does_def
    by (intro exI [of _ "ucast (inp I2C4RCV t4)"] exI [of _ "Suc t4"])
      (simp add: tick_def wr_def emit_def)
qed

lemma receive_loop_does:
  assumes "responsive dev"
  shows "does (receive_loop dev inp n s) s (receive_events n) (\<lambda>bs. length bs = n)"
proof (induction n arbitrary: s)
  case 0
  have "Some ([], s) = Some ([] :: u8 list, s\<lparr>clock := clock s, trace := trace s @ []\<rparr>)" by simp
  then show ?case unfolding does_def by (metis list.size(3) receive_events.simps(1) receive_loop.simps(1))
next
  case (Suc n)
  obtain b t where b: "receive_byte dev inp (n = 0) s = Some (b, s\<lparr>clock := t, trace := trace s @
      [Wr I2C4CONSET (BIT 3), Wr I2C4CON_ACKDT (of_bool (n = 0)), Wr I2C4CONSET (BIT 4)]\<rparr>)"
    by (rule doesE [OF receive_byte_does [OF assms]])
  let ?s1 = "s\<lparr>clock := t, trace := trace s @
      [Wr I2C4CONSET (BIT 3), Wr I2C4CON_ACKDT (of_bool (n = 0)), Wr I2C4CONSET (BIT 4)]\<rparr>"
  obtain bs t' where "receive_loop dev inp n ?s1 =
      Some (bs, ?s1\<lparr>clock := t', trace := trace ?s1 @ receive_events n\<rparr>)" "length bs = n"
    by (rule doesE [OF Suc.IH])
  with b show ?case
    unfolding does_def by (intro exI [of _ "b # bs"] exI [of _ t']) simp
qed

lemma receive_acks: "sent_on I2C4CON_ACKDT (receive_events n) = (if n = 0 then [] else replicate (n - 1) 0 @ [1])"
proof (induction n)
  case (Suc n)
  then show ?case by (cases n) simp_all
qed simp

text \<open>
  C18: \<open>i2cReceivePacket\<close> always returns on a responsive device; on success it has stored exactly the requested number of
  bytes, and it acknowledged every byte but the last one, as the bus protocol requires, between the start and
  the stop; it succeeds on a bus on which nothing goes wrong.
\<close>

theorem i2cReceivePacket_protocol:
  assumes "responsive dev"
  shows "\<exists>r bs t es. i2cReceivePacket dev inp addr n s = Some (r, bs, s\<lparr>clock := t, trace := trace s @ es\<rparr>) \<and>
     (good_bus I2C_ID_4 dev \<longrightarrow> r) \<and>
     (if r then length bs = n \<and>
        es = [I2C_MasterStart I2C_ID_4, I2C_ByteSend I2C_ID_4 addr] @ receive_events n @ [I2C_MasterStop I2C_ID_4] \<and>
        sent_on I2C4CON_ACKDT es = (if n = 0 then [] else replicate (n - 1) 0 @ [1])
      else bs = [])"
proof -
  obtain r0 t0 where start: "start_transfer I2C_ID_4 dev False s =
      Some (r0, s\<lparr>clock := t0, trace := trace s @ [I2C_MasterStart I2C_ID_4]\<rparr>)" "good_bus I2C_ID_4 dev \<longrightarrow> r0"
    by (rule doesE [OF start_does [OF assms]])
  let ?s0 = "s\<lparr>clock := t0, trace := trace s @ [I2C_MasterStart I2C_ID_4]\<rparr>"
  obtain r1 t1 where send: "transmit_one_byte I2C_ID_4 dev addr ?s0 =
      Some (r1, ?s0\<lparr>clock := t1, trace := trace ?s0 @ [I2C_ByteSend I2C_ID_4 addr]\<rparr>)" "good_bus I2C_ID_4 dev \<longrightarrow> r1"
    by (rule doesE [OF transmit_does [OF assms]])
  let ?s1 = "?s0\<lparr>clock := t1, trace := trace ?s0 @ [I2C_ByteSend I2C_ID_4 addr]\<rparr>"
  show ?thesis
  proof (cases "r0 \<and> r1 \<and> dev (I2C_Acknowledged I2C_ID_4) t1")
    case ok: True
    let ?s2 = "tick 1 ?s1"
    obtain bs t2 where recv: "receive_loop dev inp n ?s2 =
        Some (bs, ?s2\<lparr>clock := t2, trace := trace ?s2 @ receive_events n\<rparr>)" "length bs = n"
      by (rule doesE [OF receive_loop_does [OF assms]])
    let ?s3 = "?s2\<lparr>clock := t2, trace := trace ?s2 @ receive_events n\<rparr>"
    obtain t3 where stop: "stop_transfer I2C_ID_4 dev ?s3 =
        Some (?s3\<lparr>clock := t3, trace := trace ?s3 @ [I2C_MasterStop I2C_ID_4]\<rparr>)"
      using stop_returns [OF assms] by blast
    have p: "poll_flag dev (I2C_Acknowledged I2C_ID_4) ?s1 = (True, ?s2)" using ok by (simp add: poll_flag_def)
    have "i2cReceivePacket dev inp addr n s =
        Some (True, bs, ?s3\<lparr>clock := t3, trace := trace ?s3 @ [I2C_MasterStop I2C_ID_4]\<rparr>)"
      unfolding i2cReceivePacket_def i2cStartTransfer_def i2cTransmitOneByte_def i2cStopTransfer_def
      by (simp only: start(1) send(1) Option.bind.simps prod.case ok if_True not_True_eq_False if_False p Let_def recv(1) stop)
    then show ?thesis
      using recv(2) receive_acks [of n]
      by (intro exI [of _ True] exI [of _ bs] exI [of _ t3] exI [of _ "[I2C_MasterStart I2C_ID_4,
          I2C_ByteSend I2C_ID_4 addr] @ receive_events n @ [I2C_MasterStop I2C_ID_4]"])
        (simp add: tick_def sent_on_def sent_by_def)
  next
    case False
    then have bad: "\<not> good_bus I2C_ID_4 dev" using start(2) send(2) by (auto simp: good_bus_def)
    have "\<exists>t es. i2cReceivePacket dev inp addr n s = Some (False, [], s\<lparr>clock := t, trace := trace s @ es\<rparr>)"
    proof (cases r0)
      case False
      then show ?thesis
        using start(1) by (intro exI [of _ t0] exI [of _ "[I2C_MasterStart I2C_ID_4]"])
          (simp add: i2cReceivePacket_def i2cStartTransfer_def)
    next
      case True
      define s2 where "s2 = (if r1 then tick 1 ?s1 else ?s1)"
      obtain t3 where stop: "stop_transfer I2C_ID_4 dev s2 =
          Some (s2\<lparr>clock := t3, trace := trace s2 @ [I2C_MasterStop I2C_ID_4]\<rparr>)"
        using stop_returns [OF assms] by blast
      have p: "(if r1 then poll_flag dev (I2C_Acknowledged I2C_ID_4) ?s1 else (False, ?s1)) = (False, s2)"
        using False True by (auto simp: poll_flag_def s2_def)
      have "i2cReceivePacket dev inp addr n s =
          Some (False, [], s2\<lparr>clock := t3, trace := trace s2 @ [I2C_MasterStop I2C_ID_4]\<rparr>)"
        unfolding i2cReceivePacket_def i2cStartTransfer_def i2cTransmitOneByte_def i2cStopTransfer_def
        using True p
        by (simp only: start(1) send(1) Option.bind.simps prod.case if_True not_True_eq_False if_False Let_def stop)
      then show ?thesis
        by (intro exI [of _ t3] exI [of _ "[I2C_MasterStart I2C_ID_4, I2C_ByteSend I2C_ID_4 addr, I2C_MasterStop I2C_ID_4]"])
          (simp add: s2_def tick_def)
    qed
    with bad show ?thesis by auto
  qed
qed

lemma i2cReceivePacket_protocol_witness:
  "\<exists>bs t es. i2cReceivePacket good_device (\<lambda>_ _. 7) 0x63 2 \<lparr>clock = 0, trace = []\<rparr> =
       Some (True, bs, \<lparr>clock = t, trace = es\<rparr>) \<and> length bs = 2"
  using i2cReceivePacket_protocol [OF good_device_simps(1), of "\<lambda>_ _. 7" "0x63" 2 "\<lparr>clock = 0, trace = []\<rparr>"]
  by (auto split: if_splits)

end
