(* ===== verification/Display_HW.thy ===== *)
theory Display_HW
  imports Machine
begin

text \<open>
  The two OLED panels at register level, after \<open>boot_displayHW.c\<close> and \<open>displayHW.c\<close>: sending a
  byte, the configuration sequences, the full-frame copy and the on/off, contrast and flip
  commands. The built-in panel hangs off SPI5 with chip select PORTA 0 and data/command PORTJ 9,
  the external panel off SPI1 with chip select PORTJ 3 and data/command PORTJ 2. What a panel
  receives is a function of the trace (\<open>panel_run\<close>): the bytes shifted out on its bus while its
  chip select is low, each with the level of its data/command line.
\<close>

section \<open>Sending one byte\<close>

definition sendDisplayByte :: "device \<Rightarrow> u8 \<Rightarrow> 'a hw_scheme \<Rightarrow> 'a hw_scheme option" where
  "sendDisplayByte dev c s = do {
     let s = wr PORTACLR (BIT 0) s;
     s \<leftarrow> wait_until dev SPI5_SPITBE s;
     let s = wr SPI5BUF (byte_value c) s;
     s \<leftarrow> wait_while dev SPI5_SPIBUSY s;
     Some (wr PORTASET (BIT 0) s) }"

definition sendDisplay2Byte :: "device \<Rightarrow> u8 \<Rightarrow> 'a hw_scheme \<Rightarrow> 'a hw_scheme option" where
  "sendDisplay2Byte dev c s = do {
     let s = wr PORTJCLR (BIT 3) s;
     s \<leftarrow> wait_until dev SPI1_SPITBE s;
     let s = wr SPI1BUF (byte_value c) s;
     s \<leftarrow> wait_while dev SPI1_SPIBUSY s;
     Some (wr PORTJSET (BIT 3) s) }"

section \<open>Configuration sequences\<close>

definition configureDisplay_commands :: "u8 list" where
  "configureDisplay_commands =
     [0xae, 0xd5, 0x80, 0xa8, 0x1f, 0xd3, 0x00, 0x20, 0x01, 0x22, 0x00, 0x03, 0x8d, 0x14, 0x40,
      0xa6, 0xa4, 0xa1, 0xC8, 0xda, 0x42, 0x81, 0xcf, 0xd9, 0xf1, 0xdb, 0x40]"

definition configureDisplay :: "device \<Rightarrow> 'a hw_scheme \<Rightarrow> 'a hw_scheme option" where
  "configureDisplay dev s = do {
     let s = wr PORTJCLR (BIT 9) s;
     s \<leftarrow> fold_opt (sendDisplayByte dev) configureDisplay_commands s;
     let s = wr PORTJSET (BIT 9) s;
     s \<leftarrow> fold_opt (sendDisplayByte dev) (replicate 512 0) s;
     let s = wr PORTJCLR (BIT 9) s;
     let s = wr PORTGCLR (BIT 15) s;
     s \<leftarrow> delayMs dev 100 s;
     s \<leftarrow> sendDisplayByte dev 0xaf s;
     Some (wr PORTJSET (BIT 9) s) }"

definition configureDisplay2_commands :: "u8 list" where
  "configureDisplay2_commands =
     [0xae, 0xd5, 0x80, 0xa8, 0x1f, 0xd3, 0x00, 0x20, 0x01, 0x21, 4, 131, 0x22, 0x00, 0x03, 0xad,
      0x8e, 0x40, 0xa6, 0xa4, 0xa1, 0xC8, 0xda, 0x12, 0x81, 0x80, 0xd9, 0xd2, 0xdb, 0x34, 0xaf]"

definition configureDisplay2 :: "device \<Rightarrow> 'a hw_scheme \<Rightarrow> 'a hw_scheme option" where
  "configureDisplay2 dev s = do {
     let s = wr PORTJCLR (BIT 2) s;
     s \<leftarrow> fold_opt (sendDisplay2Byte dev) configureDisplay2_commands s;
     Some (wr PORTJSET (BIT 2) s) }"

text \<open>\<open>copyToDisplay\<close> reads the 512 bytes of its buffer; both panels get each of them.\<close>

definition copy_byte :: "device \<Rightarrow> u8 \<Rightarrow> 'a hw_scheme \<Rightarrow> 'a hw_scheme option" where
  "copy_byte dev b s = do {
     s \<leftarrow> wait_while2 dev SPI5_SPITBF SPI1_SPITBF s;
     Some (wr SPI1BUF (byte_value b) (wr SPI5BUF (byte_value b) s)) }"

definition copyToDisplay :: "device \<Rightarrow> u8 list \<Rightarrow> 'a hw_scheme \<Rightarrow> 'a hw_scheme option" where
  "copyToDisplay dev buffer s = do {
     let s = wr PORTJCLR (BIT 3) (wr PORTACLR (BIT 0) s);
     s \<leftarrow> (if length buffer < 512 then None else fold_opt (copy_byte dev) (take 512 buffer) s);
     s \<leftarrow> wait_while dev SPI5_SPIBUSY s;
     s \<leftarrow> wait_while dev SPI1_SPIBUSY s;
     Some (wr PORTJSET (BIT 3) (wr PORTASET (BIT 0) s)) }"

section \<open>Panel commands\<close>

definition turnOnDisplay :: "device \<Rightarrow> 'a hw_scheme \<Rightarrow> 'a hw_scheme option" where
  "turnOnDisplay dev s = do {
     let s = wr PORTJCLR (BIT 9 OR BIT 2) s;
     s \<leftarrow> sendDisplayByte dev 0x22 s;
     s \<leftarrow> sendDisplayByte dev 0x00 s;
     s \<leftarrow> sendDisplayByte dev 0x03 s;
     s \<leftarrow> sendDisplayByte dev 0xaf s;
     s \<leftarrow> sendDisplay2Byte dev 0xaf s;
     Some (wr PORTJSET (BIT 9 OR BIT 2) s) }"

definition turnOffDisplay :: "device \<Rightarrow> 'a hw_scheme \<Rightarrow> 'a hw_scheme option" where
  "turnOffDisplay dev s = do {
     let s = wr PORTJCLR (BIT 9 OR BIT 2) s;
     s \<leftarrow> sendDisplayByte dev 0xae s;
     s \<leftarrow> sendDisplay2Byte dev 0xae s;
     Some (wr PORTJSET (BIT 9 OR BIT 2) s) }"

definition setDisplayContrast :: "device \<Rightarrow> u8 \<Rightarrow> 'a hw_scheme \<Rightarrow> 'a hw_scheme option" where
  "setDisplayContrast dev contrast s = do {
     let s = wr PORTJCLR (BIT 9 OR BIT 2) s;
     s \<leftarrow> sendDisplayByte dev 0x81 s;
     s \<leftarrow> sendDisplayByte dev contrast s;
     s \<leftarrow> delayMs dev 1 s;
     s \<leftarrow> sendDisplay2Byte dev 0x81 s;
     s \<leftarrow> sendDisplay2Byte dev contrast s;
     s \<leftarrow> delayMs dev 1 s;
     Some (wr PORTJSET (BIT 9 OR BIT 2) s) }"

definition setDisplayFlip :: "device \<Rightarrow> u8 \<Rightarrow> 'a hw_scheme \<Rightarrow> 'a hw_scheme option" where
  "setDisplayFlip dev flip s = do {
     let s = wr PORTJCLR (BIT 9) s;
     s \<leftarrow> fold_opt (sendDisplayByte dev) (if flip \<noteq> 0 then [0xa0, 0xc0] else [0xa1, 0xc8]) s;
     Some (wr PORTJSET (BIT 9) s) }"

section \<open>What a panel receives\<close>

datatype panel_id = Internal | External

record panel =
  data_mode :: bool
  selected :: bool
  received :: "(bool \<times> u32) list"

definition dc_pin :: "panel_id \<Rightarrow> nat" where
  "dc_pin p = (case p of Internal \<Rightarrow> 9 | External \<Rightarrow> 2)"

definition data_reg :: "panel_id \<Rightarrow> reg" where
  "data_reg p = (case p of Internal \<Rightarrow> SPI5BUF | External \<Rightarrow> SPI1BUF)"

definition panel_write :: "panel_id \<Rightarrow> reg \<Rightarrow> u32 \<Rightarrow> panel \<Rightarrow> panel" where
  "panel_write p r v q =
     (if r = PORTJCLR then
        q\<lparr>data_mode := data_mode q \<and> \<not> bit v (dc_pin p),
          selected := selected q \<or> (p = External \<and> bit v 3)\<rparr>
      else if r = PORTJSET then
        q\<lparr>data_mode := data_mode q \<or> bit v (dc_pin p),
          selected := selected q \<and> \<not> (p = External \<and> bit v 3)\<rparr>
      else if r = PORTACLR then q\<lparr>selected := selected q \<or> (p = Internal \<and> bit v 0)\<rparr>
      else if r = PORTASET then q\<lparr>selected := selected q \<and> \<not> (p = Internal \<and> bit v 0)\<rparr>
      else if r = data_reg p \<and> selected q
      then q\<lparr>received := received q @ [(data_mode q, v)]\<rparr> else q)"

definition panel_step :: "panel_id \<Rightarrow> event \<Rightarrow> panel \<Rightarrow> panel" where
  "panel_step p e q = (case e of Wr r v \<Rightarrow> panel_write p r v q | _ \<Rightarrow> q)"

lemma panel_step_simps [simp]:
  "panel_step p (Wr PORTJCLR v) q =
     q\<lparr>data_mode := data_mode q \<and> \<not> bit v (dc_pin p),
       selected := selected q \<or> (p = External \<and> bit v 3)\<rparr>"
  "panel_step p (Wr PORTJSET v) q =
     q\<lparr>data_mode := data_mode q \<or> bit v (dc_pin p),
       selected := selected q \<and> \<not> (p = External \<and> bit v 3)\<rparr>"
  "panel_step p (Wr PORTACLR v) q = q\<lparr>selected := selected q \<or> (p = Internal \<and> bit v 0)\<rparr>"
  "panel_step p (Wr PORTASET v) q = q\<lparr>selected := selected q \<and> \<not> (p = Internal \<and> bit v 0)\<rparr>"
  "panel_step p (Wr SPI5BUF v) q =
     (if SPI5BUF = data_reg p \<and> selected q
      then q\<lparr>received := received q @ [(data_mode q, v)]\<rparr> else q)"
  "panel_step p (Wr SPI1BUF v) q =
     (if SPI1BUF = data_reg p \<and> selected q
      then q\<lparr>received := received q @ [(data_mode q, v)]\<rparr> else q)"
  "panel_step p (WrMask r m) q = q"
  "panel_step p (Wr TMR3 v) q = q" "panel_step p (Wr PORTGCLR v) q = q"
  by (simp_all add: panel_step_def panel_write_def data_reg_def split: panel_id.splits)

definition panel_run :: "panel_id \<Rightarrow> event list \<Rightarrow> panel \<Rightarrow> panel" where
  "panel_run p es q = fold (panel_step p) es q"

lemma panel_run_simps [simp]:
  "panel_run p [] q = q"
  "panel_run p (e # es) q = panel_run p es (panel_step p e q)"
  "panel_run p (es @ es') q = panel_run p es' (panel_run p es q)"
  by (simp_all add: panel_run_def)

section \<open>The writes of each operation\<close>

definition send_events :: "panel_id \<Rightarrow> u8 \<Rightarrow> event list" where
  "send_events p c = (case p of
     Internal \<Rightarrow> [Wr PORTACLR (BIT 0), Wr SPI5BUF (byte_value c), Wr PORTASET (BIT 0)]
   | External \<Rightarrow> [Wr PORTJCLR (BIT 3), Wr SPI1BUF (byte_value c), Wr PORTJSET (BIT 3)])"

lemma emits_sendDisplayByte [emits_intros]:
  assumes "responsive dev" shows "emits (sendDisplayByte dev c) (send_events Internal c)"
  unfolding sendDisplayByte_def [abs_def] Let_def send_events_def
  by (rule emits_cong) (rule emits_intros assms | simp)+

lemma emits_sendDisplay2Byte [emits_intros]:
  assumes "responsive dev" shows "emits (sendDisplay2Byte dev c) (send_events External c)"
  unfolding sendDisplay2Byte_def [abs_def] Let_def send_events_def
  by (rule emits_cong) (rule emits_intros assms | simp)+

lemma emits_configureDisplay:
  assumes "responsive dev"
  shows "emits (configureDisplay dev)
     (Wr PORTJCLR (BIT 9) # concat (map (send_events Internal) configureDisplay_commands) @
      Wr PORTJSET (BIT 9) # concat (map (send_events Internal) (replicate 512 0)) @
      Wr PORTJCLR (BIT 9) # Wr PORTGCLR (BIT 15) # delay_events 100 @
      send_events Internal 0xaf @ [Wr PORTJSET (BIT 9)])"
  unfolding configureDisplay_def [abs_def] Let_def
  by (rule emits_cong) (rule emits_intros emits_fold assms | simp)+

lemma emits_configureDisplay2:
  assumes "responsive dev"
  shows "emits (configureDisplay2 dev)
     (Wr PORTJCLR (BIT 2) # concat (map (send_events External) configureDisplay2_commands) @
      [Wr PORTJSET (BIT 2)])"
  unfolding configureDisplay2_def [abs_def] Let_def
  by (rule emits_cong) (rule emits_intros emits_fold assms | simp)+

definition copy_events :: "u8 \<Rightarrow> event list" where
  "copy_events b = [Wr SPI5BUF (byte_value b), Wr SPI1BUF (byte_value b)]"

lemma emits_copy_byte [emits_intros]:
  assumes "responsive dev" shows "emits (copy_byte dev b) (copy_events b)"
  unfolding copy_byte_def [abs_def] copy_events_def
  by (rule emits_cong) (rule emits_intros assms | simp)+

lemma emits_copyToDisplay:
  assumes "responsive dev" and "512 \<le> length buffer"
  shows "emits (copyToDisplay dev buffer)
     (Wr PORTACLR (BIT 0) # Wr PORTJCLR (BIT 3) # concat (map copy_events (take 512 buffer)) @
      [Wr PORTASET (BIT 0), Wr PORTJSET (BIT 3)])"
  unfolding copyToDisplay_def [abs_def] Let_def if_not_P [OF assms(2) [folded not_less]]
  by (rule emits_cong) (rule emits_intros emits_fold assms(1) | simp)+

lemma emits_turnOnDisplay [emits_intros]:
  assumes "responsive dev"
  shows "emits (turnOnDisplay dev)
     (Wr PORTJCLR (BIT 9 OR BIT 2) # concat (map (send_events Internal) [0x22, 0x00, 0x03, 0xaf]) @
      send_events External 0xaf @ [Wr PORTJSET (BIT 9 OR BIT 2)])"
  unfolding turnOnDisplay_def [abs_def] Let_def
  by (rule emits_cong) (rule emits_intros assms | simp)+

lemma emits_turnOffDisplay [emits_intros]:
  assumes "responsive dev"
  shows "emits (turnOffDisplay dev)
     (Wr PORTJCLR (BIT 9 OR BIT 2) # send_events Internal 0xae @ send_events External 0xae @
      [Wr PORTJSET (BIT 9 OR BIT 2)])"
  unfolding turnOffDisplay_def [abs_def] Let_def
  by (rule emits_cong) (rule emits_intros assms | simp)+

lemma emits_setDisplayContrast:
  assumes "responsive dev"
  shows "emits (setDisplayContrast dev c)
     (Wr PORTJCLR (BIT 9 OR BIT 2) # send_events Internal 0x81 @ send_events Internal c @
      delay_events 1 @ send_events External 0x81 @ send_events External c @ delay_events 1 @
      [Wr PORTJSET (BIT 9 OR BIT 2)])"
  unfolding setDisplayContrast_def [abs_def] Let_def
  by (rule emits_cong) (rule emits_intros assms | simp)+

lemma emits_setDisplayFlip:
  assumes "responsive dev"
  shows "emits (setDisplayFlip dev f)
     (Wr PORTJCLR (BIT 9) #
      concat (map (send_events Internal) (if f \<noteq> 0 then [0xa0, 0xc0] else [0xa1, 0xc8])) @
      [Wr PORTJSET (BIT 9)])"
  unfolding setDisplayFlip_def [abs_def] Let_def
  by (rule emits_cong) (rule emits_intros emits_fold assms | simp)+

section \<open>The panels' view\<close>

lemma bit_BIT_or [simp]: "bit (BIT m OR BIT n) k \<longleftrightarrow> (k = m \<and> m < 32) \<or> (k = n \<and> n < 32)"
  by (auto simp: bit_or_iff)

lemma panel_send_events [simp]:
  "\<not> selected q \<Longrightarrow> panel_run p (send_events r c) q =
     (if p = r then q\<lparr>received := received q @ [(data_mode q, byte_value c)]\<rparr> else q)"
  by (cases p; cases r) (simp_all add: send_events_def dc_pin_def data_reg_def)

lemma panel_send_list [simp]:
  "\<not> selected q \<Longrightarrow> panel_run p (concat (map (send_events r) cs)) q =
     (if p = r then q\<lparr>received := received q @ map (\<lambda>c. (data_mode q, byte_value c)) cs\<rparr> else q)"
  by (induction cs arbitrary: q) simp_all

lemma panel_send_replicate [simp]:
  "\<not> selected q \<Longrightarrow> panel_run p (concat (replicate n (send_events r c))) q =
     (if p = r then q\<lparr>received := received q @ replicate n (data_mode q, byte_value c)\<rparr> else q)"
  using panel_send_list [of q p r "replicate n c"] by simp

lemma panel_delay_events [simp]: "panel_run p (delay_events n) q = q"
proof -
  have t: "panel_run p timer_restart q = q"
    by (cases p) (simp_all add: timer_restart_def data_reg_def)
  have "panel_run p (concat (replicate n timer_restart)) q = q"
    by (induction n) (simp_all add: t)
  then show ?thesis by (simp add: delay_events_def)
qed

lemma panel_copy [simp]:
  "selected q \<Longrightarrow> panel_run p (concat (map copy_events bs)) q =
     q\<lparr>received := received q @ map (\<lambda>b. (data_mode q, byte_value b)) bs\<rparr>"
  by (induction bs arbitrary: q; cases p) (simp_all add: copy_events_def data_reg_def)

text \<open>
  A panel command: from a deselected panel, what the operation sends it, and that it ends
  deselected and in data mode; an operation for the other panel leaves this one as it was.
\<close>

definition commands :: "u8 list \<Rightarrow> panel \<Rightarrow> panel" where
  "commands cs q = q\<lparr>data_mode := True,
     received := received q @ map (\<lambda>c. (False, byte_value c)) cs\<rparr>"

definition sends_commands ::
    "panel_id \<Rightarrow> panel \<Rightarrow> 'a hw_scheme \<Rightarrow> 'a hw_scheme \<Rightarrow> u8 list \<Rightarrow> bool" where
  "sends_commands p q0 s s' cs \<longleftrightarrow>
     panel_run p (trace s') q0 = commands cs (panel_run p (trace s) q0)"

lemma emits_panel:
  assumes "emits f es"
  shows "\<exists>s'. f s = Some s' \<and> panel_run p (trace s') q0 = panel_run p es (panel_run p (trace s) q0)"
  using assms by (rule emitsE) auto

definition boot_state :: hw where
  "boot_state = \<lparr>clock = 0, trace = []\<rparr>"

definition boot_panel :: panel where
  "boot_panel = \<lparr>data_mode = False, selected = False, received = []\<rparr>"

text \<open>
  C19: \<open>configureDisplay\<close> returns on a responsive device; the built-in panel receives the 27
  configuration commands in order with its data/command line low, then 512 zero data bytes (its
  whole memory), then the display-on command, and is left deselected and in data mode. The rest
  of the program state is untouched.
\<close>

theorem configureDisplay_panel:
  assumes "responsive dev" and "\<not> selected (panel_run Internal (trace s) q0)"
  shows "\<exists>s'. configureDisplay dev s = Some s' \<and> hw.more s' = hw.more s \<and>
     panel_run Internal (trace s') q0 =
       (let q = panel_run Internal (trace s) q0
        in q\<lparr>data_mode := True,
             received := received q @ map (\<lambda>c. (False, byte_value c)) configureDisplay_commands @
               replicate 512 (True, 0) @ [(False, 0xaf)]\<rparr>)"
proof -
  have b: "byte_value 0 = 0" "byte_value 0xaf = 0xaf" by (simp_all add: byte_value_def)
  have u: "q\<lparr>selected := False\<rparr> = q" if "\<not> selected q" for q using that by (cases q) simp
  show ?thesis
    by (rule emitsE [OF emits_configureDisplay [OF assms(1)], where s = s])
       (use assms(2) u [OF assms(2)] in \<open>simp add: dc_pin_def data_reg_def Let_def b\<close>)
qed

text \<open>The panel theorem at power-on with an always-ready device.\<close>

lemma configureDisplay_panel_witness:
  "\<exists>s'. configureDisplay ready_device boot_state = Some s' \<and>
     length (received (panel_run Internal (trace s') boot_panel)) = 540 \<and>
     last (received (panel_run Internal (trace s') boot_panel)) = (False, 0xaf)"
  using configureDisplay_panel [OF responsive_ready_device, of boot_state boot_panel]
  by (auto simp: boot_state_def boot_panel_def configureDisplay_commands_def)

text \<open>
  on a responsive device every panel command returns, sends the panels exactly its command
  bytes with the data/command line low (on and contrast go to both panels, flip to the built-in
  one only), and leaves the panels deselected and in data mode.
\<close>

theorem panel_commands_received:
  assumes "responsive dev" and "\<not> selected (panel_run p (trace s) q0)"
    and "data_mode (panel_run p (trace s) q0)"
  shows "(\<exists>s'. turnOnDisplay dev s = Some s' \<and> sends_commands p q0 s s'
           (case p of Internal \<Rightarrow> [0x22, 0x00, 0x03, 0xaf] | External \<Rightarrow> [0xaf])) \<and>
     (\<exists>s'. turnOffDisplay dev s = Some s' \<and> sends_commands p q0 s s' [0xae]) \<and>
     (\<exists>s'. setDisplayContrast dev c s = Some s' \<and> sends_commands p q0 s s' [0x81, c]) \<and>
     (\<exists>s'. setDisplayFlip dev f s = Some s' \<and> sends_commands p q0 s s'
           (case p of External \<Rightarrow> []
            | Internal \<Rightarrow> if f \<noteq> 0 then [0xa0, 0xc0] else [0xa1, 0xc8]))"
proof (intro conjI)
  have u: "q\<lparr>data_mode := True\<rparr> = q" if "data_mode q" for q using that by (cases q) simp
  note panel_facts = assms(2,3) sends_commands_def commands_def dc_pin_def
  show "\<exists>s'. turnOnDisplay dev s = Some s' \<and> sends_commands p q0 s s'
      (case p of Internal \<Rightarrow> [0x22, 0x00, 0x03, 0xaf] | External \<Rightarrow> [0xaf])"
    using emits_panel [OF emits_turnOnDisplay [OF assms(1)], of s p q0]
    by (cases p; use assms(2) in \<open>auto simp: panel_facts\<close>)
  show "\<exists>s'. turnOffDisplay dev s = Some s' \<and> sends_commands p q0 s s' [0xae]"
    using emits_panel [OF emits_turnOffDisplay [OF assms(1)], of s p q0]
    by (cases p; use assms(2) in \<open>auto simp: panel_facts\<close>)
  show "\<exists>s'. setDisplayContrast dev c s = Some s' \<and> sends_commands p q0 s s' [0x81, c]"
    using emits_panel [OF emits_setDisplayContrast [OF assms(1)], of c s p q0]
    by (cases p; use assms(2) in \<open>auto simp: panel_facts\<close>)
  show "\<exists>s'. setDisplayFlip dev f s = Some s' \<and> sends_commands p q0 s s'
      (case p of External \<Rightarrow> [] | Internal \<Rightarrow> if f \<noteq> 0 then [0xa0, 0xc0] else [0xa1, 0xc8])"
    using emits_panel [OF emits_setDisplayFlip [OF assms(1)], of f s p q0]
    by (cases p; use assms(2,3) in \<open>auto simp: panel_facts u\<close>)
qed

lemma panel_commands_received_witness:
  "\<exists>s'. turnOffDisplay ready_device boot_state = Some s' \<and>
     sends_commands External (boot_panel\<lparr>data_mode := True\<rparr>) boot_state s' [0xae]"
  using panel_commands_received [OF responsive_ready_device, of External boot_state
      "boot_panel\<lparr>data_mode := True\<rparr>"]
  by (simp add: boot_state_def boot_panel_def)

text \<open>
  \<open>copyToDisplay\<close> of a full buffer returns on a responsive device; both panels receive exactly
  its first 512 bytes, in order and in the mode their data/command line had, and are deselected
  afterwards.
\<close>

theorem copyToDisplay_received:
  assumes "responsive dev" and "512 \<le> length buffer"
  shows "\<exists>s'. copyToDisplay dev buffer s = Some s' \<and> hw.more s' = hw.more s \<and>
     panel_run p (trace s') q0 =
       (let q = panel_run p (trace s) q0
        in q\<lparr>selected := False,
             received := received q @ map (\<lambda>b. (data_mode q, byte_value b)) (take 512 buffer)\<rparr>)"
  by (rule emitsE [OF emits_copyToDisplay [OF assms], where s = s])
     (cases p; simp add: dc_pin_def Let_def)

lemma copyToDisplay_received_witness:
  "\<exists>s'. copyToDisplay ready_device (replicate 512 7) boot_state = Some s' \<and>
     received (panel_run External (trace s') (boot_panel\<lparr>data_mode := True\<rparr>)) = replicate 512 (True, 7)"
  using copyToDisplay_received [OF responsive_ready_device, of "replicate 512 7" boot_state External
      "boot_panel\<lparr>data_mode := True\<rparr>"]
  by (auto simp: boot_state_def boot_panel_def byte_value_def)

end
