(* ===== verification/Shared_State.thy ===== *)
theory Shared_State
  imports Display_HW
begin

text \<open>
  The globals of \<open>app.c\<close> that several components read: the sample clock \<open>time\<close> and the state of
  the two halves of the module, \<open>halfState\<close>. Of \<open>_halfState\<close> (\<open>app.h\<close>) the control inputs are here;
  its calibration fields are modelled with the calibration.
\<close>

record half_state =
  encA :: u8
  encB :: u8
  encSW :: u8
  potSW :: u8
  lastEncA :: u8

record shared = hw +
  time :: u32
  halfState :: "half_state list"

definition SAMPLE_RATE :: int where "SAMPLE_RATE = 96000"
definition SLOW_RATE :: int where "SLOW_RATE = 600"
definition kSlowTimeRatio :: int where "kSlowTimeRatio = SAMPLE_RATE div SLOW_RATE"

text \<open>\<open>APP_Initialize\<close> sets every control input to 1 (released).\<close>

definition released :: half_state where
  "released = \<lparr>encA = 1, encB = 1, encSW = 1, potSW = 1, lastEncA = 1\<rparr>"

end
