(* ===== verification/Font.thy ===== *)
theory Font
  imports Prelude
begin

text \<open>
  The 8x8 font of \<open>display.c\<close> (\<open>font_8x8\<close>, from \<open>fonts/codeman38_deluxefont/dlxfont.ttf.h\<close>): one
  row per printable character from space on, one byte per column, bit 0 the top pixel.
\<close>

definition font_8x8 :: "u8 list list" where
  "font_8x8 = [
    [0x0, 0x0, 0x0, 0x0, 0x0, 0x0, 0x0, 0x0],
    [0x0, 0x0, 0x5f, 0x5f, 0x0, 0x0, 0x0, 0x0],
    [0x0, 0x7, 0x7, 0x0, 0x7, 0x7, 0x0, 0x0],
    [0x14, 0x7f, 0x7f, 0x14, 0x7f, 0x7f, 0x14, 0x0],
    [0x24, 0x2e, 0x6b, 0x6b, 0x3a, 0x12, 0x0, 0x0],
    [0x46, 0x66, 0x30, 0x18, 0xc, 0x66, 0x62, 0x0],
    [0x30, 0x7a, 0x4f, 0x5d, 0x37, 0x7a, 0x48, 0x0],
    [0x4, 0x7, 0x3, 0x0, 0x0, 0x0, 0x0, 0x0],
    [0x0, 0x1c, 0x3e, 0x63, 0x41, 0x0, 0x0, 0x0],
    [0x0, 0x41, 0x63, 0x3e, 0x1c, 0x0, 0x0, 0x0],
    [0x8, 0x2a, 0x3e, 0x1c, 0x1c, 0x3e, 0x2a, 0x8],
    [0x8, 0x8, 0x3e, 0x3e, 0x8, 0x8, 0x0, 0x0],
    [0x0, 0x80, 0xe0, 0x60, 0x0, 0x0, 0x0, 0x0],
    [0x8, 0x8, 0x8, 0x8, 0x8, 0x8, 0x0, 0x0],
    [0x0, 0x0, 0x60, 0x60, 0x0, 0x0, 0x0, 0x0],
    [0x60, 0x30, 0x18, 0xc, 0x6, 0x3, 0x1, 0x0],
    [0x3e, 0x7f, 0x71, 0x59, 0x4d, 0x7f, 0x3e, 0x0],
    [0x0, 0x42, 0x7f, 0x7f, 0x40, 0x0, 0x0, 0x0],
    [0x61, 0x71, 0x59, 0x49, 0x4f, 0x46, 0x0, 0x0],
    [0x41, 0x41, 0x49, 0x49, 0x7f, 0x36, 0x0, 0x0],
    [0x18, 0x1c, 0x16, 0x13, 0x7f, 0x7f, 0x10, 0x0],
    [0x47, 0x47, 0x45, 0x45, 0x7d, 0x39, 0x0, 0x0],
    [0x3c, 0x7e, 0x4b, 0x49, 0x79, 0x31, 0x0, 0x0],
    [0x61, 0x71, 0x19, 0xd, 0x7, 0x3, 0x0, 0x0],
    [0x36, 0x7f, 0x49, 0x49, 0x7f, 0x36, 0x0, 0x0],
    [0x6, 0x4f, 0x49, 0x49, 0x7f, 0x3e, 0x0, 0x0],
    [0x0, 0x0, 0x66, 0x66, 0x0, 0x0, 0x0, 0x0],
    [0x0, 0x80, 0xe6, 0x66, 0x0, 0x0, 0x0, 0x0],
    [0x8, 0x1c, 0x36, 0x63, 0x41, 0x0, 0x0, 0x0],
    [0x24, 0x24, 0x24, 0x24, 0x24, 0x24, 0x0, 0x0],
    [0x0, 0x41, 0x63, 0x36, 0x1c, 0x8, 0x0, 0x0],
    [0x1, 0x1, 0x59, 0x59, 0xf, 0x6, 0x0, 0x0],
    [0x3e, 0x7f, 0x41, 0x5d, 0x5d, 0x1f, 0x1e, 0x0],
    [0x7c, 0x7e, 0x13, 0x13, 0x7e, 0x7c, 0x0, 0x0],
    [0x7f, 0x7f, 0x49, 0x49, 0x7f, 0x36, 0x0, 0x0],
    [0x3e, 0x7f, 0x41, 0x41, 0x41, 0x41, 0x0, 0x0],
    [0x7f, 0x7f, 0x41, 0x41, 0x7f, 0x3e, 0x0, 0x0],
    [0x7f, 0x7f, 0x49, 0x49, 0x49, 0x41, 0x0, 0x0],
    [0x7f, 0x7f, 0x9, 0x9, 0x9, 0x1, 0x0, 0x0],
    [0x3e, 0x7f, 0x41, 0x51, 0x71, 0x71, 0x0, 0x0],
    [0x7f, 0x7f, 0x8, 0x8, 0x7f, 0x7f, 0x0, 0x0],
    [0x0, 0x41, 0x7f, 0x7f, 0x41, 0x0, 0x0, 0x0],
    [0x40, 0x40, 0x40, 0x41, 0x7f, 0x3f, 0x1, 0x0],
    [0x7f, 0x7f, 0x8, 0x1c, 0x36, 0x63, 0x41, 0x0],
    [0x7f, 0x7f, 0x40, 0x40, 0x40, 0x40, 0x0, 0x0],
    [0x7f, 0x7f, 0x6, 0xc, 0x6, 0x7f, 0x7f, 0x0],
    [0x7f, 0x7f, 0x6, 0xc, 0x18, 0x7f, 0x7f, 0x0],
    [0x3e, 0x7f, 0x41, 0x41, 0x7f, 0x3e, 0x0, 0x0],
    [0x7f, 0x7f, 0x9, 0x9, 0xf, 0x6, 0x0, 0x0],
    [0x3e, 0x7f, 0x41, 0x21, 0x7f, 0x5e, 0x0, 0x0],
    [0x7f, 0x7f, 0x19, 0x39, 0x6f, 0x46, 0x0, 0x0],
    [0x46, 0x4f, 0x49, 0x49, 0x79, 0x31, 0x0, 0x0],
    [0x1, 0x1, 0x7f, 0x7f, 0x1, 0x1, 0x0, 0x0],
    [0x3f, 0x7f, 0x40, 0x40, 0x7f, 0x7f, 0x0, 0x0],
    [0x1f, 0x3f, 0x60, 0x60, 0x3f, 0x1f, 0x0, 0x0],
    [0x7f, 0x7f, 0x30, 0x18, 0x30, 0x7f, 0x7f, 0x0],
    [0x63, 0x77, 0x1c, 0x8, 0x1c, 0x77, 0x63, 0x0],
    [0x47, 0x4f, 0x48, 0x48, 0x7f, 0x3f, 0x0, 0x0],
    [0x61, 0x71, 0x59, 0x4d, 0x47, 0x43, 0x41, 0x0],
    [0x0, 0x7f, 0x7f, 0x41, 0x41, 0x0, 0x0, 0x0],
    [0x1, 0x3, 0x6, 0xc, 0x18, 0x30, 0x60, 0x0],
    [0x0, 0x41, 0x41, 0x7f, 0x7f, 0x0, 0x0, 0x0],
    [0x8, 0xc, 0x6, 0x3, 0x6, 0xc, 0x8, 0x0],
    [0x80, 0x80, 0x80, 0x80, 0x80, 0x80, 0x80, 0x80],
    [0x0, 0x0, 0x3, 0x7, 0x4, 0x0, 0x0, 0x0],
    [0x24, 0x74, 0x54, 0x54, 0x7c, 0x78, 0x0, 0x0],
    [0x7f, 0x7f, 0x44, 0x44, 0x7c, 0x38, 0x0, 0x0],
    [0x38, 0x7c, 0x44, 0x44, 0x44, 0x44, 0x0, 0x0],
    [0x38, 0x7c, 0x44, 0x44, 0x7f, 0x7f, 0x0, 0x0],
    [0x38, 0x7c, 0x54, 0x54, 0x5c, 0x58, 0x0, 0x0],
    [0x8, 0x7e, 0x7f, 0x9, 0x9, 0x1, 0x0, 0x0],
    [0x98, 0xbc, 0xa4, 0xa4, 0xfc, 0x7c, 0x0, 0x0],
    [0x7f, 0x7f, 0x4, 0x4, 0x7c, 0x78, 0x0, 0x0],
    [0x0, 0x0, 0x7d, 0x7d, 0x0, 0x0, 0x0, 0x0],
    [0x80, 0x80, 0x80, 0xfd, 0x7d, 0x0, 0x0, 0x0],
    [0x7f, 0x7f, 0x10, 0x38, 0x6c, 0x44, 0x0, 0x0],
    [0x0, 0x1, 0x7f, 0x7f, 0x0, 0x0, 0x0, 0x0],
    [0x7c, 0x7c, 0x8, 0x18, 0x8, 0x7c, 0x7c, 0x0],
    [0x7c, 0x7c, 0x4, 0x4, 0x7c, 0x78, 0x0, 0x0],
    [0x38, 0x7c, 0x44, 0x44, 0x7c, 0x38, 0x0, 0x0],
    [0xfc, 0xfc, 0x44, 0x44, 0x7c, 0x38, 0x0, 0x0],
    [0x38, 0x7c, 0x44, 0x44, 0xfc, 0xfc, 0x0, 0x0],
    [0x7c, 0x7c, 0x8, 0x4, 0x4, 0x4, 0x0, 0x0],
    [0x48, 0x5c, 0x54, 0x54, 0x74, 0x24, 0x0, 0x0],
    [0x4, 0x3f, 0x7f, 0x44, 0x44, 0x44, 0x0, 0x0],
    [0x3c, 0x7c, 0x40, 0x40, 0x7c, 0x7c, 0x0, 0x0],
    [0x1c, 0x3c, 0x60, 0x60, 0x3c, 0x1c, 0x0, 0x0],
    [0x7c, 0x7c, 0x20, 0x30, 0x20, 0x7c, 0x7c, 0x0],
    [0x44, 0x6c, 0x38, 0x10, 0x38, 0x6c, 0x44, 0x0],
    [0x9c, 0xbc, 0xa0, 0xa0, 0xfc, 0x7c, 0x0, 0x0],
    [0x44, 0x64, 0x74, 0x5c, 0x4c, 0x44, 0x0, 0x0],
    [0x8, 0x8, 0x3e, 0x77, 0x41, 0x41, 0x0, 0x0],
    [0x0, 0x0, 0x0, 0x77, 0x77, 0x0, 0x0, 0x0],
    [0x41, 0x41, 0x77, 0x3e, 0x8, 0x8, 0x0, 0x0],
    [0x2, 0x3, 0x1, 0x3, 0x2, 0x3, 0x1, 0x0],
    [0x70, 0x78, 0x4c, 0x46, 0x4c, 0x78, 0x70, 0x0]]"

lemma font_shape: "length font_8x8 = 96 \<and> (\<forall>g\<in>set font_8x8. length g = 8)"
  by (simp add: font_8x8_def)

lemma font_glyph: "n < 96 \<Longrightarrow> length (font_8x8 ! n) = 8"
  using font_shape by simp

end
