(* ===== verification/Display.thy ===== *)
theory Display
  imports Shared_State Font
begin

text \<open>
  \<open>display.c\<close>: drawing into the 128-column frame buffer (one 32-bit word per column, bit 0 at the
  top), the byte-wise transfer of a frame to the panels, the refresh with its blanking timer, and
  the display loop. The macro \<open>CHECK_SERVICE_AUDIO\<close> (and its internal variant) is the parameter
  \<open>svc\<close> of every operation that runs it: it may do nothing or run a slice of the audio service.
  \<open>None\<close> stands for an access outside an array, an undefined shift, or a wait that never ends.
\<close>

datatype screen_ref = Screen | Screen2

datatype display_mode = kDisplayModeNormal | kDisplayModeMessage4x16

record display = shared +
  screen :: "u32 list"
  screen2 :: "u32 list"
  screen2ptr :: screen_ref
  displayMode :: display_mode
  displayBlankCountdown :: int
  displayIsOn :: bool
  message4x16 :: "u8 list list"
  displayBytesToSend :: int

type_synonym 'a service = "'a display_scheme \<Rightarrow> 'a display_scheme option"

definition kTimeToBlank :: int where "kTimeToBlank = 15 * 60 * SAMPLE_RATE"
definition kDisplayRefreshCount :: int where "kDisplayRefreshCount = SAMPLE_RATE div 30"

section \<open>The frame buffers\<close>

definition get_screen :: "screen_ref \<Rightarrow> 'a display_scheme \<Rightarrow> u32 list" where
  "get_screen r s = (case r of Screen \<Rightarrow> screen s | Screen2 \<Rightarrow> screen2 s)"

definition set_screen :: "screen_ref \<Rightarrow> u32 list \<Rightarrow> 'a display_scheme \<Rightarrow> 'a display_scheme" where
  "set_screen r xs s = (case r of Screen \<Rightarrow> s\<lparr>screen := xs\<rparr> | Screen2 \<Rightarrow> s\<lparr>screen2 := xs\<rparr>)"

text \<open>\<open>screen[i] = f(screen[i])\<close>, undefined outside the array.\<close>

definition modify_column ::
    "screen_ref \<Rightarrow> int \<Rightarrow> (u32 \<Rightarrow> u32) \<Rightarrow> 'a display_scheme \<Rightarrow> 'a display_scheme option" where
  "modify_column r i f s =
     (let xs = get_screen r s in
      if 0 \<le> i \<and> i < int (length xs) then Some (set_screen r (xs[nat i := f (xs ! nat i)]) s)
      else None)"

definition modify_range ::
    "'a service \<Rightarrow> screen_ref \<Rightarrow> int \<Rightarrow> int \<Rightarrow> (u32 \<Rightarrow> u32) \<Rightarrow> 'a service" where
  "modify_range svc r x0 x1 f s =
     fold_opt (\<lambda>i s. Option.bind (modify_column r i f s) svc) [x0..x1] s"

definition clearPartialScreenPtrWithAudioService ::
    "'a service \<Rightarrow> screen_ref \<Rightarrow> int \<Rightarrow> int \<Rightarrow> 'a service" where
  "clearPartialScreenPtrWithAudioService svc r x0 x1 = modify_range svc r x0 x1 (\<lambda>_. 0)"

definition clearPartialScreenWithAudioService :: "'a service \<Rightarrow> int \<Rightarrow> int \<Rightarrow> 'a service" where
  "clearPartialScreenWithAudioService svc x0 x1 = modify_range svc Screen x0 x1 (\<lambda>_. 0)"

definition clearScreenWithAudioService :: "'a service \<Rightarrow> 'a service" where
  "clearScreenWithAudioService svc = clearPartialScreenWithAudioService svc 0 127"

definition clearScreenPtrWithAudioService :: "'a service \<Rightarrow> screen_ref \<Rightarrow> 'a service" where
  "clearScreenPtrWithAudioService svc r = clearPartialScreenPtrWithAudioService svc r 0 127"

definition orScreenPtr :: "'a service \<Rightarrow> screen_ref \<Rightarrow> int \<Rightarrow> int \<Rightarrow> u32 \<Rightarrow> 'a service" where
  "orScreenPtr svc r x0 x1 msk = modify_range svc r x0 x1 (\<lambda>v. v OR msk)"

definition orScreen :: "'a service \<Rightarrow> int \<Rightarrow> int \<Rightarrow> u32 \<Rightarrow> 'a service" where
  "orScreen svc x0 x1 msk = orScreenPtr svc Screen x0 x1 msk"

definition xorScreenPtr :: "'a service \<Rightarrow> screen_ref \<Rightarrow> int \<Rightarrow> int \<Rightarrow> u32 \<Rightarrow> 'a service" where
  "xorScreenPtr svc r x0 x1 msk = modify_range svc r x0 x1 (\<lambda>v. v XOR msk)"

definition xorScreen :: "'a service \<Rightarrow> int \<Rightarrow> int \<Rightarrow> u32 \<Rightarrow> 'a service" where
  "xorScreen svc x0 x1 msk = xorScreenPtr svc Screen x0 x1 msk"

definition andScreenPtr :: "'a service \<Rightarrow> screen_ref \<Rightarrow> int \<Rightarrow> int \<Rightarrow> u32 \<Rightarrow> 'a service" where
  "andScreenPtr svc r x0 x1 msk = modify_range svc r x0 x1 (\<lambda>v. v AND msk)"

definition andScreen :: "'a service \<Rightarrow> int \<Rightarrow> int \<Rightarrow> u32 \<Rightarrow> 'a service" where
  "andScreen svc x0 x1 msk = andScreenPtr svc Screen x0 x1 msk"

text \<open>The copies read the source buffer afresh in every iteration, as the loop does.\<close>

definition copyScreenWithAudioService :: "'a service \<Rightarrow> screen_ref \<Rightarrow> screen_ref \<Rightarrow> 'a service" where
  "copyScreenWithAudioService svc dst src s =
     fold_opt (\<lambda>i s. if nat i < length (get_screen src s)
                     then Option.bind (modify_column dst i (\<lambda>_. get_screen src s ! nat i) s) svc
                     else None) [0..127] s"

definition copyToScreenWithAudioService :: "'a service \<Rightarrow> screen_ref \<Rightarrow> 'a service" where
  "copyToScreenWithAudioService svc src s =
     fold_opt (\<lambda>i s. if nat i < length (get_screen src s)
                     then Option.bind (modify_column Screen i (\<lambda>_. get_screen src s ! nat i) s) svc
                     else None) [0..127] s"

section \<open>Text\<close>

text \<open>Column \<open>i\<close> of glyph \<open>index\<close> at \<open>(x, y)\<close>: clipped on the right and left by the unsigned test.\<close>

definition plot_column :: "int \<Rightarrow> int \<Rightarrow> nat \<Rightarrow> nat \<Rightarrow> 'a service" where
  "plot_column x y index i s =
     (let xx = (word_of_int (x + int i) :: u32) in
      if xx < 128
      then if 0 \<le> y \<and> y < 32
           then modify_column Screen (uint xx)
                  (\<lambda>v. v OR push_bit (nat y) (ucast (font_8x8 ! index ! i))) s
           else None
      else Some s)"

definition drawChar88 :: "int \<Rightarrow> int \<Rightarrow> u8 \<Rightarrow> 'a service" where
  "drawChar88 x y c s =
     (let index = sint c - 32 in
      if index < 0 \<or> index \<ge> 96 then Some s
      else fold_opt (plot_column x y (nat index)) [0..<8] s)"

fun drawString88 :: "'a service \<Rightarrow> int \<Rightarrow> int \<Rightarrow> u8 list \<Rightarrow> 'a service" where
  "drawString88 svc x y [] s = None"
| "drawString88 svc x y (c # str) s =
     (if c = 0 then Some s
      else let index = sint c - 32 in
        if index < 0 \<or> index \<ge> 96 then drawString88 svc x y str s
        else do {
          s \<leftarrow> fold_opt (\<lambda>i s. Option.bind (plot_column x y (nat index) i s) svc) [0..<8] s;
          drawString88 svc (x + 8) y str s })"

text \<open>
  \<open>strncpy(dst, msg, 16)\<close> into a 17-byte row: the string up to its NUL, padded with NULs to 16
  bytes; the 17th byte keeps its value.
\<close>

definition strncpy16 :: "u8 list \<Rightarrow> u8 list \<Rightarrow> u8 list" where
  "strncpy16 dst msg =
     (let str = take 16 (takeWhile (\<lambda>c. c \<noteq> 0) msg)
      in str @ replicate (16 - length str) 0 @ drop 16 dst)"

definition displayMessage4x16 ::
    "u8 list \<Rightarrow> u8 list \<Rightarrow> u8 list \<Rightarrow> u8 list \<Rightarrow> 'a display_scheme \<Rightarrow> 'a display_scheme" where
  "displayMessage4x16 msg1 msg2 msg3 msg4 s =
     s\<lparr>displayMode := kDisplayModeMessage4x16,
       message4x16 := map2 strncpy16 (message4x16 s) [msg1, msg2, msg3, msg4]\<rparr>"

section \<open>Sending a frame\<close>

text \<open>
  Byte \<open>k\<close> of a frame buffer as the little-endian processor stores it, and the frame as the
  panels get it.
\<close>

definition screen_byte :: "u32 list \<Rightarrow> nat \<Rightarrow> u8" where
  "screen_byte xs k = ucast (drop_bit (8 * (k mod 4)) (xs ! (k div 4)))"

definition frame_bytes :: "u32 list \<Rightarrow> u8 list" where
  "frame_bytes xs = map (screen_byte xs) [0..<4 * length xs]"

text \<open>The two stores that send byte \<open>512 - displayBytesToSend\<close>, and the countdown.\<close>

definition store5 :: "'a display_scheme \<Rightarrow> 'a display_scheme" where
  "store5 s = wr SPI5BUF (byte_value (screen_byte (screen s) (nat (512 - displayBytesToSend s)))) s"

definition store1 :: "'a display_scheme \<Rightarrow> 'a display_scheme" where
  "store1 s = wr SPI1BUF (byte_value
     (screen_byte (get_screen (screen2ptr s) s) (nat (512 - displayBytesToSend s)))) s"

definition count_down :: "'a display_scheme \<Rightarrow> 'a display_scheme" where
  "count_down s = s\<lparr>displayBytesToSend := displayBytesToSend s - 1\<rparr>"

definition send_next :: "device \<Rightarrow> 'a service" where
  "send_next dev s = do {
     s \<leftarrow> wait_while dev SPI5_SPITBF s;
     let s = store5 s;
     s \<leftarrow> wait_while dev SPI1_SPITBF s;
     Some (count_down (store1 s)) }"

definition allowDisplayWrite :: "device \<Rightarrow> 'a service" where
  "allowDisplayWrite dev s = (if displayBytesToSend s > 0 then send_next dev s else Some s)"

partial_function (option) send_all :: "device \<Rightarrow> 'a service" where
  "send_all dev s =
     (if displayBytesToSend s > 0 then Option.bind (send_next dev s) (send_all dev) else Some s)"

definition flushDisplayWrite :: "device \<Rightarrow> 'a service" where
  "flushDisplayWrite dev s =
     (if displayBytesToSend s \<ge> 0 then do {
        s \<leftarrow> send_all dev s;
        s \<leftarrow> wait_while dev SPI5_SPIBUSY s;
        let s = wr PORTASET (BIT 0) s;
        s \<leftarrow> wait_while dev SPI1_SPIBUSY s;
        let s = wr PORTJSET (BIT 3) s;
        Some (s\<lparr>displayBytesToSend := -1\<rparr>) }
      else Some s)"

text \<open>The variant that services audio while it waits polls both status registers at once.\<close>

partial_function (option) wait_serving :: "device \<Rightarrow> 'a service \<Rightarrow> flag \<Rightarrow> flag \<Rightarrow> 'a service" where
  "wait_serving dev svc f g s =
     (if dev f (clock s) \<or> dev g (Suc (clock s))
      then Option.bind (svc (tick 2 s)) (wait_serving dev svc f g)
      else Some (tick 2 s))"

partial_function (option) send_all_serving :: "device \<Rightarrow> 'a service \<Rightarrow> 'a service" where
  "send_all_serving dev svc s =
     (if displayBytesToSend s > 0
      then Option.bind (wait_serving dev svc SPI5_SPITBF SPI1_SPITBF s)
        (\<lambda>s. Option.bind (svc (count_down (store1 (store5 s)))) (send_all_serving dev svc))
      else Some s)"

definition flushDisplayWriteWithAudioService :: "device \<Rightarrow> 'a service \<Rightarrow> 'a service" where
  "flushDisplayWriteWithAudioService dev svc s =
     (if displayBytesToSend s \<ge> 0 then do {
        s \<leftarrow> send_all_serving dev svc s;
        s \<leftarrow> wait_serving dev svc SPI5_SPIBUSY SPI1_SPIBUSY s;
        let s = wr PORTJSET (BIT 3) (wr PORTASET (BIT 0) s);
        Some (s\<lparr>displayBytesToSend := -1\<rparr>) }
      else Some s)"

section \<open>Refreshing\<close>

text \<open>The blanking timer at the head of \<open>updateDisplay\<close>.\<close>

definition blanking :: "device \<Rightarrow> 'a service" where
  "blanking dev s =
     (if displayIsOn s
      then let s = s\<lparr>displayBlankCountdown := displayBlankCountdown s - kDisplayRefreshCount\<rparr> in
        if displayBlankCountdown s \<le> 0
        then do { s \<leftarrow> turnOffDisplay dev s;
                  Some (s\<lparr>displayIsOn := False, displayBlankCountdown := 0\<rparr>) }
        else Some s
      else if displayBlankCountdown s \<noteq> 0
        then do { s \<leftarrow> turnOnDisplay dev s; Some (s\<lparr>displayIsOn := True\<rparr>) }
        else Some s)"

definition highlight :: "'a service \<Rightarrow> nat \<Rightarrow> (half_state \<Rightarrow> u8) \<Rightarrow> int \<Rightarrow> int \<Rightarrow> u32 \<Rightarrow> 'a service" where
  "highlight svc i sw x0 x1 msk s =
     (if sw (halfState s ! i) = 0 then xorScreen svc x0 x1 msk s else Some s)"

text \<open>\<open>alg_display\<close> is \<open>algorithm_display\<close>.\<close>

definition updateDisplay :: "device \<Rightarrow> 'a service \<Rightarrow> 'a service \<Rightarrow> 'a service" where
  "updateDisplay dev svc alg_display s = do {
     s \<leftarrow> blanking dev s;
     let s = s\<lparr>screen2ptr := Screen\<rparr>;
     s \<leftarrow> modify_range svc Screen 0 127 (\<lambda>_. 0) s;
     (case displayMode s of
        kDisplayModeNormal \<Rightarrow> do {
          s \<leftarrow> alg_display s;
          s \<leftarrow> highlight svc 0 encSW 0 63 0x000000ff s;
          s \<leftarrow> highlight svc 1 encSW 64 127 0x000000ff s;
          s \<leftarrow> highlight svc 0 potSW 0 63 0xff000000 s;
          highlight svc 1 potSW 64 127 0xff000000 s }
      | kDisplayModeMessage4x16 \<Rightarrow>
          fold_opt (\<lambda>i s. drawString88 svc 0 (8 * int i) (message4x16 s ! i) s) [0..<4] s) }"

definition startupSequence :: "device \<Rightarrow> 'a service" where
  "startupSequence dev s = do {
     let s = s\<lparr>screen := replicate 128 0\<rparr>;
     s \<leftarrow> copyToDisplay dev (frame_bytes (screen s)) s;
     delayMs dev 17 s }"

section \<open>The display loop\<close>

record loop_locals =
  refreshCount :: int
  displayLastTime :: u32

text \<open>
  One iteration of \<open>displayLoop\<close> (the loop never exits), split as the code is into the transfer
  half, whose \<open>continue\<close> statements skip the rest, and the refresh half.
\<close>

text \<open>The transfer half returns whether the iteration goes on to the refresh half.\<close>

definition transfer_step :: "device \<Rightarrow> 'a display_scheme \<Rightarrow> bool \<times> 'a display_scheme" where
  "transfer_step dev s =
     (if displayBytesToSend s > 0
      then let (full5, s) = poll_flag dev SPI5_SPITBF s in
        if full5 then (False, s)
        else let (full1, s) = poll_flag dev SPI1_SPITBF s in
          if full1 then (False, s) else (False, count_down (store1 (store5 s)))
      else if displayBytesToSend s = 0
      then let (busy5, s) = poll_flag dev SPI5_SPIBUSY s in
        if busy5 then (False, s)
        else let (busy1, s) = poll_flag dev SPI1_SPIBUSY s in
          if busy1 then (False, s)
          else (True, (wr PORTJSET (BIT 3) (wr PORTASET (BIT 0) s))\<lparr>displayBytesToSend := -1\<rparr>)
      else (True, s))"

definition refresh_step ::
    "device \<Rightarrow> 'a service \<Rightarrow> 'a service \<Rightarrow> loop_locals \<times> 'a display_scheme \<Rightarrow>
     (loop_locals \<times> 'a display_scheme) option" where
  "refresh_step dev svc alg_display ls =
     (let (l, s) = ls;
          thisTime = time s;
          dt = sint (thisTime - displayLastTime l);
          l = l\<lparr>refreshCount := refreshCount l - dt\<rparr>
      in if refreshCount l \<le> 0
         then do {
           s \<leftarrow> updateDisplay dev svc alg_display s;
           let s = wr PORTJCLR (BIT 3) (wr PORTACLR (BIT 0) (s\<lparr>displayBytesToSend := 512\<rparr>));
           Some (l\<lparr>refreshCount := kDisplayRefreshCount, displayLastTime := thisTime\<rparr>, s) }
         else Some (l\<lparr>displayLastTime := thisTime\<rparr>, s))"

definition displayLoop_iteration ::
    "device \<Rightarrow> 'a service \<Rightarrow> 'a service \<Rightarrow> loop_locals \<times> 'a display_scheme \<Rightarrow>
     (loop_locals \<times> 'a display_scheme) option" where
  "displayLoop_iteration dev svc alg_display ls = do {
     s \<leftarrow> svc (snd ls);
     let (go_on, s) = transfer_step dev s;
     if go_on then refresh_step dev svc alg_display (fst ls, s) else Some (fst ls, s) }"

section \<open>What the audio service leaves alone\<close>

text \<open>
  The part of the state that drawing works on, and what drawing relies on in the audio service that
  runs in between: from a state with its invariant \<open>I\<close> it returns, keeps the invariant, and leaves that part as it was;
  and drawing into a frame buffer does not disturb the invariant.
\<close>

definition drawing :: "'a display_scheme \<Rightarrow>
    u32 list \<times> u32 list \<times> screen_ref \<times> display_mode \<times> u8 list list \<times> int" where
  "drawing s = (screen s, screen2 s, screen2ptr s, displayMode s, message4x16 s, displayBytesToSend s)"

lemma drawing_eqD:
  assumes "drawing s = drawing s'"
  shows "screen s = screen s'" "screen2 s = screen2 s'" "screen2ptr s = screen2ptr s'"
    "displayMode s = displayMode s'" "message4x16 s = message4x16 s'"
    "displayBytesToSend s = displayBytesToSend s'"
    "get_screen r s = get_screen r s'"
    "drawing (set_screen r xs s) = drawing (set_screen r xs s')"
  using assms by (auto simp: drawing_def get_screen_def set_screen_def split: screen_ref.splits)

lemma get_set_screen [simp]:
  "get_screen r (set_screen r' xs s) = (if r = r' then xs else get_screen r s)"
  "set_screen r xs (set_screen r ys s) = set_screen r xs s"
  "set_screen r (get_screen r s) s = s"
  by (cases r; cases r'; simp add: get_screen_def set_screen_def)+

locale audio_frame =
  fixes I :: "'a display_scheme \<Rightarrow> bool" and svc :: "'a service"
  assumes serves: "I s \<Longrightarrow> \<exists>s'. svc s = Some s' \<and> I s' \<and> drawing s' = drawing s"
    and undisturbed: "I s \<Longrightarrow> I (set_screen r xs s)"
begin

lemma servesE:
  assumes "I s"
  obtains s' where "svc s = Some s'" "I s'" "drawing s' = drawing s"
  using serves [OF assms] by blast

end

text \<open>The service that finds no interrupt pending does nothing.\<close>

interpretation idle: audio_frame "\<lambda>_. True" Some
  by unfold_locales simp_all

section \<open>Range operations\<close>

definition apply_at :: "(u32 \<Rightarrow> u32) \<Rightarrow> int \<Rightarrow> u32 list \<Rightarrow> u32 list" where
  "apply_at f i xs = xs[nat i := f (xs ! nat i)]"

lemma fold_apply_at:
  assumes "distinct is" and "\<forall>i\<in>set is. 0 \<le> i"
  shows "length (fold (apply_at f) is xs) = length xs"
    and "k < length xs \<Longrightarrow> fold (apply_at f) is xs ! k = (if int k \<in> set is then f (xs ! k) else xs ! k)"
proof -
  show "length (fold (apply_at f) is xs) = length xs" for "is" and xs :: "u32 list"
    by (induction "is" arbitrary: xs) (simp_all add: apply_at_def)
  show "k < length xs \<Longrightarrow> fold (apply_at f) is xs ! k = (if int k \<in> set is then f (xs ! k) else xs ! k)"
    using assms
  proof (induction "is" arbitrary: xs)
    case Nil
    then show ?case by simp
  next
    case (Cons i "is")
    then show ?case by (auto simp: apply_at_def nth_list_update)
  qed
qed

definition upd_range :: "int \<Rightarrow> int \<Rightarrow> (u32 \<Rightarrow> u32) \<Rightarrow> u32 list \<Rightarrow> u32 list" where
  "upd_range x0 x1 f xs =
     map (\<lambda>k. if x0 \<le> int k \<and> int k \<le> x1 then f (xs ! k) else xs ! k) [0..<length xs]"

context audio_frame
begin

lemma modify_columns:
  assumes "I s" and "\<forall>i\<in>set is. 0 \<le> i \<and> i < int (length (get_screen r s))"
  shows "\<exists>s'. fold_opt (\<lambda>i s. Option.bind (modify_column r i f s) svc) is s = Some s' \<and> I s' \<and>
           drawing s' = drawing (set_screen r (fold (apply_at f) is (get_screen r s)) s)"
  using assms
proof (induction "is" arbitrary: s)
  case Nil
  then show ?case by simp
next
  case (Cons i "is")
  let ?s1 = "set_screen r (apply_at f i (get_screen r s)) s"
  have i1: "I ?s1" by (rule undisturbed [OF Cons.prems(1)])
  have m: "modify_column r i f s = Some ?s1"
    using Cons.prems by (simp add: modify_column_def apply_at_def Let_def)
  obtain s2 where s2: "svc ?s1 = Some s2" "I s2" "drawing s2 = drawing ?s1"
    by (rule servesE [OF i1])
  have g: "get_screen r s2 = apply_at f i (get_screen r s)"
    using drawing_eqD(7) [OF s2(3), of r] by simp
  have "\<exists>s'. fold_opt (\<lambda>i s. Option.bind (modify_column r i f s) svc) is s2 = Some s' \<and> I s' \<and>
      drawing s' = drawing (set_screen r (fold (apply_at f) is (get_screen r s2)) s2)"
    by (rule Cons.IH [OF s2(2)]) (use Cons.prems in \<open>simp add: g apply_at_def\<close>)
  then show ?case
    using drawing_eqD(8) [OF s2(3), of r] by (simp add: m s2 g)
qed

lemma modify_range_effect:
  assumes "I s" and "0 \<le> x0" and "x1 < int (length (get_screen r s))"
  shows "\<exists>s'. modify_range svc r x0 x1 f s = Some s' \<and> I s' \<and>
           drawing s' = drawing (set_screen r (upd_range x0 x1 f (get_screen r s)) s)"
proof -
  have "fold (apply_at f) [x0..x1] xs = upd_range x0 x1 f xs" for xs
    using assms(2) by (intro nth_equalityI) (auto simp: fold_apply_at upd_range_def)
  moreover have "\<exists>s'. modify_range svc r x0 x1 f s = Some s' \<and> I s' \<and>
           drawing s' = drawing (set_screen r (fold (apply_at f) [x0..x1] (get_screen r s)) s)"
    unfolding modify_range_def using assms by (intro modify_columns) auto
  ultimately show ?thesis by simp
qed

end

text \<open>
  the range operations on either frame buffer return and do exactly what their names say:
  columns \<open>x0..x1\<close> are combined with the mask (or cleared), every other column and the other buffer
  are untouched, whatever the audio service does in between.
\<close>

theorem screen_range_ops:
  assumes "audio_frame I svc" and "I s" and "0 \<le> x0" and "x1 < int (length (get_screen r s))"
  shows "(\<exists>s'. orScreenPtr svc r x0 x1 msk s = Some s' \<and>
            drawing s' = drawing (set_screen r (upd_range x0 x1 (\<lambda>v. v OR msk) (get_screen r s)) s)) \<and>
     (\<exists>s'. xorScreenPtr svc r x0 x1 msk s = Some s' \<and>
            drawing s' = drawing (set_screen r (upd_range x0 x1 (\<lambda>v. v XOR msk) (get_screen r s)) s)) \<and>
     (\<exists>s'. andScreenPtr svc r x0 x1 msk s = Some s' \<and>
            drawing s' = drawing (set_screen r (upd_range x0 x1 (\<lambda>v. v AND msk) (get_screen r s)) s)) \<and>
     (\<exists>s'. clearPartialScreenPtrWithAudioService svc r x0 x1 s = Some s' \<and>
            drawing s' = drawing (set_screen r (upd_range x0 x1 (\<lambda>_. 0) (get_screen r s)) s))"
  using audio_frame.modify_range_effect [OF assms]
  unfolding orScreenPtr_def xorScreenPtr_def andScreenPtr_def clearPartialScreenPtrWithAudioService_def by blast

definition demo_display :: display where
  "demo_display = \<lparr>clock = 0, trace = [], time = 0, halfState = [released, released],
     screen = replicate 128 0, screen2 = replicate 128 5, screen2ptr = Screen2,
     displayMode = kDisplayModeNormal, displayBlankCountdown = kTimeToBlank, displayIsOn = True,
     message4x16 = replicate 4 (replicate 17 0), displayBytesToSend = -1\<rparr>"

lemma screen_range_ops_witness:
  "\<exists>s'. orScreenPtr Some Screen2 3 4 2 demo_display = Some s' \<and>
     screen2 s' ! 3 = 7 \<and> screen2 s' ! 5 = 5 \<and> screen s' = replicate 128 0"
  using screen_range_ops [OF idle.audio_frame_axioms TrueI, of 3 4 Screen2 demo_display 2]
  by (auto simp: demo_display_def get_screen_def set_screen_def upd_range_def drawing_def)

text \<open>
  inverting a range twice restores the frame buffer, so the highlights that \<open>updateDisplay\<close>
  draws with \<open>xorScreen\<close> can be undone by drawing them again.
\<close>

theorem xorScreen_twice:
  assumes "audio_frame I svc" and "I s" and "0 \<le> x0" and "x1 < int (length (screen s))"
  shows "\<exists>s1 s2. xorScreen svc x0 x1 msk s = Some s1 \<and> xorScreen svc x0 x1 msk s1 = Some s2 \<and>
           drawing s2 = drawing s"
proof -
  let ?f = "\<lambda>v. v XOR msk"
  have len: "x1 < int (length (get_screen Screen s))" using assms(4) by (simp add: get_screen_def)
  obtain s1 where s1: "modify_range svc Screen x0 x1 ?f s = Some s1" "I s1"
      "drawing s1 = drawing (set_screen Screen (upd_range x0 x1 ?f (get_screen Screen s)) s)"
    using audio_frame.modify_range_effect [OF assms(1-3) len] by blast
  have g1: "get_screen Screen s1 = upd_range x0 x1 ?f (get_screen Screen s)"
    using drawing_eqD(7) [OF s1(3), of Screen] by simp
  obtain s2 where s2: "modify_range svc Screen x0 x1 ?f s1 = Some s2"
      "drawing s2 = drawing (set_screen Screen (upd_range x0 x1 ?f (get_screen Screen s1)) s1)"
    using audio_frame.modify_range_effect [OF assms(1) s1(2) assms(3), of x1 Screen ?f] len by (auto simp: g1 upd_range_def)
  have "upd_range x0 x1 ?f (upd_range x0 x1 ?f xs) = xs" for xs
    by (rule nth_equalityI) (auto simp: upd_range_def xor.assoc)
  then have "drawing s2 = drawing s"
    using s2(2) drawing_eqD(8) [OF s1(3), of Screen "get_screen Screen s"] by (simp add: g1)
  with s1(1) s2(1) show ?thesis by (auto simp: xorScreen_def xorScreenPtr_def)
qed

lemma xorScreen_twice_witness:
  "\<exists>s1 s2. xorScreen Some 0 63 0xff demo_display = Some s1 \<and> xorScreen Some 0 63 0xff s1 = Some s2 \<and>
     screen s2 = replicate 128 0"
  using xorScreen_twice [OF idle.audio_frame_axioms TrueI, of 0 63 demo_display "0xff"]
  by (auto simp: demo_display_def drawing_def)

section \<open>Copies\<close>

context audio_frame
begin

lemma copy_columns:
  assumes "I s" and "n \<le> length (get_screen src s)" and "n \<le> length (get_screen dst s)"
  shows "\<exists>s'. fold_opt (\<lambda>i s. if nat i < length (get_screen src s)
                 then Option.bind (modify_column dst i (\<lambda>_. get_screen src s ! nat i) s) svc
                 else None) [0..int n - 1] s = Some s' \<and> I s' \<and>
           drawing s' = drawing (set_screen dst
             (take n (get_screen src s) @ drop n (get_screen dst s)) s)"
  using assms(2,3)
proof (induction n)
  case 0
  then show ?case using assms(1) by simp
next
  case (Suc n)
  let ?step = "\<lambda>i s. if nat i < length (get_screen src s)
                 then Option.bind (modify_column dst i (\<lambda>_. get_screen src s ! nat i) s) svc else None"
  let ?mix = "take n (get_screen src s) @ drop n (get_screen dst s)"
  obtain s1 where s1: "fold_opt ?step [0..int n - 1] s = Some s1" "I s1"
      "drawing s1 = drawing (set_screen dst ?mix s)"
    using Suc by (auto simp: assms(1))
  have src1: "get_screen src s1 ! n = get_screen src s ! n" "n < length (get_screen src s1)"
      "length (get_screen src s1) = length (get_screen src s)"
    using drawing_eqD(7) [OF s1(3), of src] Suc.prems by (auto simp: nth_append hd_drop_conv_nth)
  have dst1: "get_screen dst s1 = ?mix" using drawing_eqD(7) [OF s1(3), of dst] by simp
  have upd: "?mix[n := get_screen src s ! n] =
      take (Suc n) (get_screen src s) @ drop (Suc n) (get_screen dst s)"
    using Suc.prems by (simp add: list_update_append take_Suc_conv_app_nth
        flip: Cons_nth_drop_Suc)
  obtain s2 where s2: "svc (set_screen dst (?mix[n := get_screen src s ! n]) s1) = Some s2" "I s2"
      "drawing s2 = drawing (set_screen dst (?mix[n := get_screen src s ! n]) s1)"
    by (rule servesE [OF undisturbed [OF s1(2)]])
  have "?step (int n) s1 = Some s2"
    using src1 Suc.prems s2(1) by (simp add: modify_column_def dst1 Let_def)
  moreover have "[0..int (Suc n) - 1] = [0..int n - 1] @ [int n]"
    using upto_rec2 [of 0 "int n"] by simp
  moreover have "drawing s2 = drawing (set_screen dst
      (take (Suc n) (get_screen src s) @ drop (Suc n) (get_screen dst s)) s)"
    using s2(3) drawing_eqD(8) [OF s1(3), of dst] by (simp add: upd)
  ultimately show ?case using s1(1) s2(2) by (simp add: fold_opt_append)
qed

end

text \<open>
  copying one 128-column frame buffer to the other, or the given buffer to the screen, returns
  and leaves exactly the source in the destination, with the source untouched.
\<close>

theorem screen_copies:
  assumes "audio_frame I svc" and "I s" and "length (get_screen src s) = 128" and "length (get_screen dst s) = 128"
    and "length (screen s) = 128"
  shows "(\<exists>s'. copyScreenWithAudioService svc dst src s = Some s' \<and>
            drawing s' = drawing (set_screen dst (get_screen src s) s)) \<and>
     (\<exists>s'. copyToScreenWithAudioService svc src s = Some s' \<and>
            drawing s' = drawing (set_screen Screen (get_screen src s) s))"
  using audio_frame.copy_columns [OF assms(1,2), of 128 src dst] audio_frame.copy_columns [OF assms(1,2), of 128 src Screen] assms(3-)
  by (auto simp add: copyScreenWithAudioService_def copyToScreenWithAudioService_def get_screen_def [of Screen])

lemma screen_copies_witness:
  "\<exists>s'. copyScreenWithAudioService Some Screen Screen2 demo_display = Some s' \<and>
     screen s' = replicate 128 5 \<and> screen2 s' = replicate 128 5"
  using screen_copies [OF idle.audio_frame_axioms TrueI, of Screen2 demo_display Screen]
  by (auto simp: demo_display_def get_screen_def set_screen_def drawing_def)

section \<open>The transfer of a frame\<close>

definition pair_events :: "'a display_scheme \<Rightarrow> nat \<Rightarrow> event list" where
  "pair_events s k =
     [Wr SPI5BUF (byte_value (screen_byte (screen s) k)),
      Wr SPI1BUF (byte_value (screen_byte (get_screen (screen2ptr s) s) k))]"

lemma send_next_effect:
  assumes "responsive dev"
  shows "\<exists>t\<ge>clock s. send_next dev s = Some (s\<lparr>clock := t,
           trace := trace s @ pair_events s (nat (512 - displayBytesToSend s)),
           displayBytesToSend := displayBytesToSend s - 1\<rparr>)"
proof -
  obtain t1 where t1: "wait_while dev SPI5_SPITBF s = Some (s\<lparr>clock := t1\<rparr>)" "clock s \<le> t1"
    using wait_while_returns [OF assms, of SPI5_SPITBF s] by (auto simp: later_def)
  obtain t2 where t2: "wait_while dev SPI1_SPITBF (store5 (s\<lparr>clock := t1\<rparr>)) =
      Some ((store5 (s\<lparr>clock := t1\<rparr>))\<lparr>clock := t2\<rparr>)" "t1 \<le> t2"
    using wait_while_returns [OF assms, of SPI1_SPITBF "store5 (s\<lparr>clock := t1\<rparr>)"]
    by (auto simp: later_def store5_def)
  show ?thesis
    using t1 t2 by (intro exI [of _ t2])
      (simp add: send_next_def store5_def store1_def count_down_def wr_def emit_def pair_events_def
        get_screen_def split: screen_ref.splits)
qed

lemma send_all_effect:
  assumes "responsive dev" and "displayBytesToSend s = int n" and "n \<le> 512"
  shows "\<exists>t\<ge>clock s. send_all dev s = Some (s\<lparr>clock := t,
           trace := trace s @ concat (map (pair_events s) [512 - n..<512]),
           displayBytesToSend := 0\<rparr>)"
  using assms(2,3)
proof (induction n arbitrary: s)
  case 0
  then show ?case by (intro exI [of _ "clock s"]) (simp add: send_all.simps)
next
  case (Suc n)
  obtain t1 where t1: "clock s \<le> t1" "send_next dev s = Some (s\<lparr>clock := t1,
      trace := trace s @ pair_events s (512 - Suc n), displayBytesToSend := int n\<rparr>)"
    using send_next_effect [OF assms(1), of s] Suc.prems by (auto simp: of_nat_diff nat_diff_distrib')
  let ?s1 = "s\<lparr>clock := t1, trace := trace s @ pair_events s (512 - Suc n),
    displayBytesToSend := int n\<rparr>"
  have pe: "pair_events (s\<lparr>clock := t, trace := tr, displayBytesToSend := m\<rparr>) = pair_events s" for t tr m
    by (simp add: fun_eq_iff pair_events_def get_screen_def split: screen_ref.splits)
  obtain t2 where "t1 \<le> t2" "send_all dev ?s1 = Some (?s1\<lparr>clock := t2,
      trace := trace ?s1 @ concat (map (pair_events ?s1) [512 - n..<512]), displayBytesToSend := 0\<rparr>)"
    using Suc.IH [of ?s1] Suc.prems by auto
  moreover have "[512 - Suc n..<512] = (512 - Suc n) # [512 - n..<512]"
  proof -
    have "Suc (512 - Suc n) = 512 - n" using Suc.prems(2) by simp
    then show ?thesis by (metis diff_less zero_less_Suc zero_less_numeral upt_conv_Cons)
  qed
  ultimately show ?case
    using Suc.prems t1 by (intro exI [of _ t2]) (simp add: send_all.simps [of dev s] pe)
qed

definition panel_frame :: "panel_id \<Rightarrow> 'a display_scheme \<Rightarrow> u8 list" where
  "panel_frame p s = frame_bytes (case p of Internal \<Rightarrow> screen s | External \<Rightarrow> get_screen (screen2ptr s) s)"

lemma panel_pair_events:
  assumes "selected q"
  shows "panel_run p (concat (map (pair_events s) ks)) q =
    q\<lparr>received := received q @ map (\<lambda>k. (data_mode q, byte_value (screen_byte
        (case p of Internal \<Rightarrow> screen s | External \<Rightarrow> get_screen (screen2ptr s) s) k))) ks\<rparr>"
  using assms by (induction ks arbitrary: q; cases p) (simp_all add: pair_events_def data_reg_def)

text \<open>What a selected panel \<open>q\<close> holds once it got the bytes \<open>bs\<close>.\<close>

definition got :: "u8 list \<Rightarrow> panel \<Rightarrow> panel" where
  "got bs q = q\<lparr>received := received q @ map (\<lambda>b. (data_mode q, byte_value b)) bs\<rparr>"

lemma flush_writes:
  assumes "responsive dev" and "0 \<le> displayBytesToSend s" and "displayBytesToSend s \<le> 512"
  shows "\<exists>t. flushDisplayWrite dev s = Some (s\<lparr>clock := t,
           trace := trace s @ concat (map (pair_events s) [512 - nat (displayBytesToSend s)..<512]) @
             [Wr PORTASET (BIT 0), Wr PORTJSET (BIT 3)],
           displayBytesToSend := -1\<rparr>)"
proof -
  let ?n = "nat (displayBytesToSend s)"
  let ?tr = "trace s @ concat (map (pair_events s) [512 - ?n..<512])"
  obtain t1 where t1: "send_all dev s = Some (s\<lparr>clock := t1, trace := ?tr, displayBytesToSend := 0\<rparr>)"
  proof -
    have "?n \<le> 512" using assms(3) by simp
    then show ?thesis using send_all_effect [OF assms(1), of s ?n] assms(2) that by auto
  qed
  let ?s1 = "s\<lparr>clock := t1, trace := ?tr, displayBytesToSend := 0\<rparr>"
  obtain t2 where t2: "wait_while dev SPI5_SPIBUSY ?s1 = Some (?s1\<lparr>clock := t2\<rparr>)"
    using wait_while_returns [OF assms(1), of SPI5_SPIBUSY ?s1] by (auto simp: later_def)
  let ?s2 = "wr PORTASET (BIT 0) (?s1\<lparr>clock := t2\<rparr>)"
  obtain t3 where t3: "wait_while dev SPI1_SPIBUSY ?s2 = Some (?s2\<lparr>clock := t3\<rparr>)"
    using wait_while_returns [OF assms(1), of SPI1_SPIBUSY ?s2] by (auto simp: later_def)
  show ?thesis
    using assms(2) t1 t2 t3
    by (intro exI [of _ t3]) (simp add: flushDisplayWrite_def Let_def, simp add: wr_def emit_def)
qed

text \<open>
  with \<open>n\<close> bytes of a frame outstanding, \<open>flushDisplayWrite\<close> returns on a responsive device: both
  panels receive exactly the last \<open>n\<close> bytes of their frame, are deselected, and no transfer is
  pending; drawing state is untouched.
\<close>

theorem flushDisplayWrite_completes:
  assumes "responsive dev" and "0 \<le> displayBytesToSend s" and "displayBytesToSend s \<le> 512"
    and "length (screen s) = 128" and "length (get_screen (screen2ptr s) s) = 128"
    and "selected (panel_run p (trace s) q0)"
  shows "\<exists>s'. flushDisplayWrite dev s = Some s' \<and> displayBytesToSend s' = -1 \<and>
     drawing (s'\<lparr>displayBytesToSend := displayBytesToSend s\<rparr>) = drawing s \<and>
     panel_run p (trace s') q0 =
       (got (drop (nat (512 - displayBytesToSend s)) (panel_frame p s))
          (panel_run p (trace s) q0))\<lparr>selected := False\<rparr>"
proof -
  let ?q = "panel_run p (trace s) q0" and ?n = "nat (displayBytesToSend s)"
  have "drop (512 - ?n) (panel_frame p s) =
      map (screen_byte (case p of Internal \<Rightarrow> screen s | External \<Rightarrow> get_screen (screen2ptr s) s)) [512 - ?n..<512]"
    using assms(4,5) by (cases p) (simp_all add: panel_frame_def frame_bytes_def drop_map)
  moreover have "nat (512 - displayBytesToSend s) = 512 - ?n" using assms(2) by simp
  ultimately have r: "panel_run p (concat (map (pair_events s) [512 - ?n..<512])) ?q =
      got (drop (nat (512 - displayBytesToSend s)) (panel_frame p s)) ?q"
    using panel_pair_events [OF assms(6)] by (simp add: got_def o_def)
  have "data_mode (got bs ?q) = data_mode ?q" "selected (got bs ?q)" for bs
    using assms(6) by (simp_all add: got_def)
  then show ?thesis
    using flush_writes [OF assms(1-3)]
    by (auto simp: drawing_def r dc_pin_def split: panel_id.splits)
qed

lemma flushDisplayWrite_completes_witness:
  "\<exists>s'. flushDisplayWrite ready_device (demo_display\<lparr>displayBytesToSend := 2\<rparr>) = Some s' \<and>
     panel_run External (trace s') (boot_panel\<lparr>selected := True\<rparr>) =
       (got [0, 0] (boot_panel\<lparr>selected := True\<rparr>))\<lparr>selected := False\<rparr>"
proof -
  have d: "drop 510 (panel_frame External (demo_display\<lparr>displayBytesToSend := 2\<rparr>)) = [0, 0]"
    by (simp add: demo_display_def panel_frame_def frame_bytes_def get_screen_def drop_map
        upt_conv_Cons screen_byte_def)
  show ?thesis
    using flushDisplayWrite_completes [OF responsive_ready_device,
        of "demo_display\<lparr>displayBytesToSend := 2\<rparr>" External "boot_panel\<lparr>selected := True\<rparr>"]
    by (auto simp: d) (auto simp: demo_display_def get_screen_def boot_panel_def)
qed

end
