(* ===== verification/Ring_Queue.thy ===== *)
theory Ring_Queue
  imports Prelude
begin

text \<open>
  The firmware's byte queues are arrays with a read and a write index: \<open>i2cRxQueue\<close>,
  \<open>selectRxQueue\<close> and \<open>midiRxQueue\<close> of \<open>app.c\<close>, whose sizes are powers of two and whose indices
  wrap by a mask, and \<open>midiQueue\<close> of \<open>midi.c\<close>, whose indices wrap by a comparison. The read index
  names the last element taken, the write index the next slot to fill; the queue is empty when
  the slot after the read index is the write index and full when the two indices are equal.
  Before the first element is taken the read index is -1, which no write index equals: a queue
  that has never been read has no full state.

  This theory holds the interface (\<open>bounded_fifo\<close>, and \<open>lossless_fifo\<close> for a queue that refuses
  when full), the representation shared by the four queues, and the proof that an index step
  that computes the successor modulo the size gives both contracts.
\<close>

section \<open>The interface\<close>

text \<open>One turn of a consumer: take an element off the queue component of the state and process it.\<close>

definition consume :: "('q \<Rightarrow> ('a \<times> 'q) option) \<Rightarrow> ('s \<Rightarrow> 'q) \<Rightarrow> ('q \<Rightarrow> 's \<Rightarrow> 's) \<Rightarrow> ('a \<Rightarrow> 's \<Rightarrow> 's option) \<Rightarrow>
    'a \<Rightarrow> 's \<Rightarrow> 's option" where
  "consume take_one get upd f x s = (case take_one (get s) of None \<Rightarrow> None | Some (_, q) \<Rightarrow> f x (upd q s))"

locale bounded_fifo =
  fixes invar :: "'q \<Rightarrow> bool"
    and contents :: "'q \<Rightarrow> 'a list"
    and capacity :: nat
    and put :: "'a \<Rightarrow> 'q \<Rightarrow> 'q"
    and take_one :: "'q \<Rightarrow> ('a \<times> 'q) option"
  assumes put_invar: "invar q \<Longrightarrow> invar (put x q)"
    and put_contents: "invar q \<Longrightarrow> length (contents q) < capacity \<Longrightarrow>
          contents (put x q) = contents q @ [x]"
    and within_capacity: "invar q \<Longrightarrow> length (contents q) \<le> capacity"
    and take_empty: "invar q \<Longrightarrow> contents q = [] \<Longrightarrow> take_one q = None"
    and take_cons: "invar q \<Longrightarrow> contents q = x # xs \<Longrightarrow>
          \<exists>q'. take_one q = Some (x, q') \<and> invar q' \<and> contents q' = xs"
begin

lemma put_list:
  assumes "invar q" and "length (contents q) + length xs \<le> capacity"
  shows "invar (fold put xs q) \<and> contents (fold put xs q) = contents q @ xs"
  using assms
proof (induction xs arbitrary: q)
  case Nil
  then show ?case by simp
next
  case (Cons x xs)
  have "contents (put x q) = contents q @ [x]"
    using Cons.prems by (intro put_contents) auto
  with Cons.prems Cons.IH [of "put x q"] show ?case by (simp add: put_invar)
qed

lemma take_None_iff: "invar q \<Longrightarrow> take_one q = None \<longleftrightarrow> contents q = []"
  by (cases "contents q") (auto simp: take_empty dest: take_cons)

lemma take_SomeD:
  assumes "invar q" and "take_one q = Some (x, q')"
  shows "contents q = x # contents q'" and "invar q'"
proof -
  obtain y ys where c: "contents q = y # ys"
    using assms take_empty by (cases "contents q") auto
  from take_cons [OF assms(1) c] assms(2)
  show "contents q = x # contents q'" and "invar q'" using c by auto
qed

text \<open>
  The consumer's loop: take an element and hand it to \<open>f\<close> until the queue is empty. Any loop that
  satisfies the unfolding equation returns, when \<open>f\<close> returns and leaves the queue alone, with the queue empty;
  it has processed exactly the queue's elements, first in first out.
\<close>

lemma drain_loop:
  assumes loop: "\<And>s. loop s = (case take_one (get s) of None \<Rightarrow> Some s
                    | Some (x, q) \<Rightarrow> Option.bind (f x (upd q s)) loop)"
    and step: "\<And>x q s. P s \<Longrightarrow> take_one (get s) = Some (x, q) \<Longrightarrow>
                 \<exists>s'. f x (upd q s) = Some s' \<and> get s' = q \<and> P s'"
    and inv: "invar (get s)" and "P s"
  shows "\<exists>s'. loop s = Some s' \<and> P s' \<and> invar (get s') \<and> contents (get s') = [] \<and>
           fold_opt (consume take_one get upd f) (contents (get s)) s = Some s'"
  using inv \<open>P s\<close>
proof (induction "contents (get s)" arbitrary: s)
  case Nil
  then have "loop s = Some s" by (subst loop) (simp add: take_empty)
  with Nil show ?case by (intro exI [of _ s]) (simp flip: Nil(1))
next
  case (Cons x xs)
  from take_cons [OF Cons.prems(1) Cons.hyps(2) [symmetric]]
  obtain q where q: "take_one (get s) = Some (x, q)" "invar q" "contents q = xs" by blast
  from step [OF Cons.prems(2) q(1)] obtain t where
    t: "f x (upd q s) = Some t" "get t = q" "P t" by blast
  from Cons.hyps(1) [of t] t q obtain s' where
    s': "loop t = Some s'" "P s'" "invar (get s')" "contents (get s') = []"
        "fold_opt (consume take_one get upd f) xs t = Some s'" by auto
  moreover have "loop s = loop t" by (subst loop) (simp add: q t)
  moreover have "consume take_one get upd f x s = Some t" by (simp add: consume_def q t)
  ultimately show ?case by (intro exI [of _ s']) (simp flip: Cons.hyps(2))
qed

end

locale lossless_fifo = bounded_fifo +
  fixes live :: "'q \<Rightarrow> bool"
  assumes put_full: "invar q \<Longrightarrow> live q \<Longrightarrow> length (contents q) = capacity \<Longrightarrow> put x q = q"
    and put_live: "live q \<Longrightarrow> live (put x q)"
    and take_live: "invar q \<Longrightarrow> take_one q = Some (x, q') \<Longrightarrow> live q'"
begin

lemma put_live_cases:
  assumes "invar q" and "live q"
  shows "contents (put x q) = (if length (contents q) < capacity then contents q @ [x] else contents q)"
  using assms within_capacity [OF assms(1)]
  by (auto simp: put_contents put_full)

text \<open>A burst on a live queue keeps the oldest elements and drops the excess, never the reverse.\<close>

lemma put_list_live:
  assumes "invar q" and "live q"
  shows "contents (fold put xs q) = take capacity (contents q @ xs)"
proof -
  have "invar (fold put xs q) \<and> live (fold put xs q) \<and>
      contents (fold put xs q) = take capacity (contents q @ xs)" if "invar q" "live q" for q
    using that
  proof (induction xs arbitrary: q)
    case Nil
    then show ?case by (simp add: within_capacity)
  next
    case (Cons x xs)
    then have i: "invar (put x q)" "live (put x q)" by (simp_all add: put_invar put_live)
    show ?case
      using Cons.IH [OF i] put_live_cases [OF Cons.prems, of x] within_capacity [OF Cons.prems(1)]
      by (auto simp: not_less take_Cons')
  qed
  with assms show ?thesis by blast
qed

end

section \<open>The representation\<close>

record 'a ring =
  ring_read :: int
  ring_write :: int
  ring_slots :: "'a list"

text \<open>
  \<open>nxt\<close> is the successor of an index. \<open>ring_put\<close> is the body of the interrupt handlers: nothing
  happens on overflow. \<open>ring_take\<close> is the head of the consumer's loop: \<open>None\<close> is its \<open>break\<close>.
\<close>

definition ring_put :: "(int \<Rightarrow> int) \<Rightarrow> 'a \<Rightarrow> 'a ring \<Rightarrow> 'a ring" where
  "ring_put nxt x q =
     (if ring_read q = ring_write q then q
      else q\<lparr>ring_slots := (ring_slots q)[nat (ring_write q) := x],
             ring_write := nxt (ring_write q)\<rparr>)"

definition ring_take :: "(int \<Rightarrow> int) \<Rightarrow> 'a ring \<Rightarrow> ('a \<times> 'a ring) option" where
  "ring_take nxt q =
     (let nextRead = nxt (ring_read q) in
      if nextRead = ring_write q then None
      else Some (ring_slots q ! nat nextRead, q\<lparr>ring_read := nextRead\<rparr>))"

definition ring_empty :: "nat \<Rightarrow> 'a \<Rightarrow> 'a ring" where
  "ring_empty n x = \<lparr>ring_read = -1, ring_write = 0, ring_slots = replicate n x\<rparr>"

text \<open>The abstraction: how many elements a ring of size \<open>n\<close> holds, and which.\<close>

definition ring_count :: "nat \<Rightarrow> 'a ring \<Rightarrow> nat" where
  "ring_count n q = nat ((ring_write q - (ring_read q + 1)) mod int n)"

definition ring_contents :: "nat \<Rightarrow> 'a ring \<Rightarrow> 'a list" where
  "ring_contents n q =
     map (\<lambda>k. ring_slots q ! nat ((ring_read q + 1 + int k) mod int n)) [0..<ring_count n q]"

definition ring_inv :: "nat \<Rightarrow> 'a ring \<Rightarrow> bool" where
  "ring_inv n q \<longleftrightarrow> length (ring_slots q) = n \<and>
     -1 \<le> ring_read q \<and> ring_read q < int n \<and> 0 \<le> ring_write q \<and> ring_write q < int n"

definition ring_live :: "'a ring \<Rightarrow> bool" where
  "ring_live q \<longleftrightarrow> 0 \<le> ring_read q"

lemma length_ring_contents [simp]: "length (ring_contents n q) = ring_count n q"
  by (simp add: ring_contents_def)

lemma ring_count_bound: "0 < n \<Longrightarrow> ring_count n q < n"
  by (simp add: ring_count_def nat_less_iff)

lemma ring_empty_contents: "0 < n \<Longrightarrow> ring_inv n (ring_empty n x) \<and> ring_contents n (ring_empty n x) = []"
  by (auto simp: ring_inv_def ring_empty_def ring_contents_def ring_count_def)

section \<open>A correct index step gives a first-in-first-out queue\<close>

locale ring_index =
  fixes size :: nat and nxt :: "int \<Rightarrow> int"
  assumes size_pos: "0 < size"
    and nxt_mod: "-1 \<le> i \<Longrightarrow> i < int size \<Longrightarrow> nxt i = (i + 1) mod int size"
begin

lemma slot_of_write:
  assumes "ring_inv size q"
  shows "ring_write q = (ring_read q + 1 + int (ring_count size q)) mod int size"
  using assms size_pos by (simp add: ring_inv_def ring_count_def mod_simps)

lemma slot_inject:
  assumes "i < size" and "j < size"
    and "(a + int i) mod int size = (a + int j) mod int size"
  shows "i = j"
proof -
  from assms(3) have "int i mod int size = int j mod int size"
    by (metis add_diff_cancel_left' mod_diff_left_eq)
  with assms(1,2) show ?thesis by simp
qed

lemma full_iff:
  assumes "ring_inv size q"
  shows "ring_live q \<Longrightarrow> ring_read q = ring_write q \<longleftrightarrow> ring_count size q = size - 1"
    and "ring_count size q < size - 1 \<Longrightarrow> ring_read q \<noteq> ring_write q"
proof -
  have m1: "(-1) mod int size = int size - 1"
    using size_pos by (simp add: zmod_minus1)
  have c: "int (ring_count size q) = (ring_write q - ring_read q + -1) mod int size"
    using size_pos by (simp add: ring_count_def algebra_simps)
  have fwd: "ring_read q = ring_write q \<Longrightarrow> ring_count size q = size - 1"
    using c m1 size_pos by simp
  then show "ring_count size q < size - 1 \<Longrightarrow> ring_read q \<noteq> ring_write q" by auto
  assume "ring_live q"
  moreover have "ring_write q = (ring_read q + int size) mod int size"
    if "ring_count size q = size - 1"
    using slot_of_write [OF assms] size_pos that by (simp add: of_nat_diff)
  ultimately show "ring_read q = ring_write q \<longleftrightarrow> ring_count size q = size - 1"
    using fwd assms by (auto simp: ring_inv_def ring_live_def)
qed

lemma put_ring_inv: "ring_inv size q \<Longrightarrow> ring_inv size (ring_put nxt x q)"
  using size_pos by (auto simp: ring_put_def ring_inv_def nxt_mod)

lemma put_ring_contents:
  assumes inv: "ring_inv size q" and room: "length (ring_contents size q) < size - 1"
  shows "ring_contents size (ring_put nxt x q) = ring_contents size q @ [x]"
proof -
  let ?c = "ring_count size q" and ?q' = "ring_put nxt x q"
  let ?slot = "\<lambda>k. nat ((ring_read q + 1 + int k) mod int size)"
  have room: "?c < size - 1" using room by simp
  have q': "?q' = q\<lparr>ring_slots := (ring_slots q)[nat (ring_write q) := x],
                   ring_write := (ring_write q + 1) mod int size\<rparr>"
    using full_iff(2) [OF inv room] inv by (simp add: ring_put_def nxt_mod ring_inv_def)
  have "int (ring_count size ?q') = (int ?c + 1) mod int size"
    using size_pos by (simp add: q' ring_count_def mod_simps algebra_simps)
  also have "\<dots> = int ?c + 1" using room by simp
  finally have c': "ring_count size ?q' = Suc ?c" by simp
  have w: "nat (ring_write q) = ?slot ?c" using slot_of_write [OF inv] by simp
  have slot_less: "?slot k < size" for k
    using size_pos by (simp add: nat_less_iff)
  have len: "length (ring_slots q) = size" using inv by (simp add: ring_inv_def)
  have "?slot k \<noteq> ?slot ?c" if "k < ?c" for k
    using slot_inject [of k ?c "ring_read q + 1"] that ring_count_bound [OF size_pos, of q] size_pos by (auto simp: nat_eq_iff)
  then have old: "(ring_slots q)[?slot ?c := x] ! ?slot k = ring_slots q ! ?slot k" if "k < ?c" for k
    using that by (metis nth_list_update_neq)
  show ?thesis
    unfolding ring_contents_def c' by (simp add: q' w len slot_less old)
qed

lemma take_ring:
  assumes inv: "ring_inv size q"
  shows "ring_contents size q = [] \<Longrightarrow> ring_take nxt q = None"
    and "ring_contents size q = x # xs \<Longrightarrow>
          \<exists>q'. ring_take nxt q = Some (x, q') \<and> ring_inv size q' \<and> ring_contents size q' = xs"
proof -
  let ?c = "ring_count size q" and ?n = "(ring_read q + 1) mod int size"
  have n: "nxt (ring_read q) = ?n" using inv by (simp add: nxt_mod ring_inv_def)
  have w: "ring_write q = (ring_read q + 1 + int ?c) mod int size" by (rule slot_of_write [OF inv])
  have cn: "?c < size" by (rule ring_count_bound [OF size_pos])
  show "ring_take nxt q = None" if "ring_contents size q = []"
  proof -
    have "?c = 0" using arg_cong [OF that, of length] by simp
    then show ?thesis using w by (simp add: ring_take_def n)
  qed
  assume xs: "ring_contents size q = x # xs"
  have pos: "0 < ?c" using arg_cong [OF xs, of length] by simp
  have ne: "?n \<noteq> ring_write q"
    using slot_inject [of 0 ?c "ring_read q + 1"] pos cn size_pos w by auto
  let ?q' = "q\<lparr>ring_read := ?n\<rparr>"
  have "(ring_write q - (?n + 1)) mod int size = ((ring_write q - 1) - ?n) mod int size"
    by (simp add: algebra_simps)
  also have "\<dots> = ((ring_write q - 1) - (ring_read q + 1)) mod int size"
    by (rule mod_diff_right_eq)
  also have "\<dots> = ((ring_write q - (ring_read q + 1)) mod int size - 1) mod int size"
    unfolding mod_diff_left_eq by (simp add: algebra_simps)
  finally have "int (ring_count size ?q') = (int ?c - 1) mod int size"
    using size_pos by (simp add: ring_count_def)
  also have "\<dots> = int (?c - 1)" using pos cn by (simp add: of_nat_diff)
  finally have c': "ring_count size ?q' = ?c - 1" by simp
  have step: "(?n + 1 + int k) mod int size = (ring_read q + 1 + (1 + int k)) mod int size" for k
    using mod_add_left_eq [of "ring_read q + 1" "int size" "1 + int k"] by (simp add: add.assoc)
  have "[0..<?c] = 0 # map Suc [0..<?c - 1]"
    using pos by (simp add: upt_conv_Cons map_Suc_upt)
  then have "ring_contents size q = ring_slots q ! nat ?n # ring_contents size ?q'"
    unfolding ring_contents_def c' by (simp add: step o_def del: upt.simps)
  with xs have "x = ring_slots q ! nat ?n" "ring_contents size ?q' = xs" by simp_all
  moreover have "-1 \<le> ?n" by (rule order_trans [of _ 0]) (use size_pos in simp_all)
  then have "ring_inv size ?q'" using inv size_pos by (simp add: ring_inv_def)
  ultimately show "\<exists>q'. ring_take nxt q = Some (x, q') \<and> ring_inv size q' \<and> ring_contents size q' = xs"
    using ne by (simp add: ring_take_def n Let_def)
qed

end

sublocale ring_index \<subseteq>
  lossless_fifo "ring_inv size" "ring_contents size" "size - 1" "ring_put nxt" "ring_take nxt" ring_live
proof unfold_locales
  show "ring_inv size q \<Longrightarrow> length (ring_contents size q) \<le> size - 1" for q :: "'a ring"
    using ring_count_bound [OF size_pos, of q] by simp
  show "ring_inv size q \<Longrightarrow> ring_live q \<Longrightarrow> length (ring_contents size q) = size - 1 \<Longrightarrow>
      ring_put nxt x q = q" for q :: "'a ring" and x
    by (simp add: full_iff(1) ring_put_def)
  show "ring_live q \<Longrightarrow> ring_live (ring_put nxt x q)" for q :: "'a ring" and x
    by (simp add: ring_live_def ring_put_def)
  show "ring_inv size q \<Longrightarrow> ring_take nxt q = Some (x, q') \<Longrightarrow> ring_live q'" for q q' :: "'a ring" and x
  proof -
    assume "ring_inv size q" "ring_take nxt q = Some (x, q')"
    then have "ring_read q' = (ring_read q + 1) mod int size"
      by (auto simp: ring_take_def nxt_mod ring_inv_def Let_def split: if_splits)
    then show "ring_live q'" using size_pos by (simp add: ring_live_def)
  qed
qed (simp_all add: put_ring_inv put_ring_contents take_ring)

section \<open>Writing ahead\<close>

text \<open>
  Slots written beyond the write index are not part of the queue until the index moves.
\<close>

lemma ring_contents_slots_prefix:
  assumes "ring_read q' = ring_read q" and "ring_count n q \<le> ring_count n q'"
  shows "ring_contents n (q\<lparr>ring_slots := ring_slots q'\<rparr>) = take (ring_count n q) (ring_contents n q')"
proof -
  have "ring_count n (q\<lparr>ring_slots := ring_slots q'\<rparr>) = ring_count n q" by (simp add: ring_count_def)
  moreover have "take (ring_count n q) [0..<ring_count n q'] = [0..<ring_count n q]"
    using assms(2) by (simp add: take_upt)
  ultimately show ?thesis by (simp add: ring_contents_def assms(1) take_map)
qed

lemma ring_put_read [simp]: "ring_read (ring_put nxt x q) = ring_read q"
  by (simp add: ring_put_def)

lemma fold_ring_put_read [simp]: "ring_read (fold (ring_put nxt) xs q) = ring_read q"
  by (induction xs arbitrary: q) simp_all

section \<open>A ring that has never been read\<close>

text \<open>
  Filling the last slot of a ring whose read index is still -1 wraps the write index to 0, which
  is the successor of -1: the ring then looks empty, and everything in it is lost.
\<close>

context ring_index
begin

lemma unread_overflow:
  assumes inv: "ring_inv size q" and "ring_read q = -1"
    and "length (ring_contents size q) = size - 1"
  shows "ring_contents size (ring_put nxt x q) = []" and "ring_read (ring_put nxt x q) = -1"
proof -
  have "int (ring_count size q) = ring_write q mod int size"
    using assms(2) size_pos by (simp add: ring_count_def)
  then have w: "ring_write q = int size - 1"
    using assms size_pos by (simp add: ring_inv_def of_nat_diff)
  then show "ring_contents size (ring_put nxt x q) = []" and "ring_read (ring_put nxt x q) = -1"
    using assms(2) size_pos
    by (auto simp: ring_put_def nxt_mod ring_contents_def ring_count_def)
qed

end

end
