(* ===== verification/Midi_Out.thy ===== *)
theory Midi_Out
  imports Display Ring_Queue
begin

text \<open>
  The MIDI output half of \<open>midi.c\<close>: a 736-byte queue filled by \<open>QueueMIDI1/2/3\<close> and drained one
  byte per call by \<open>HandleMIDIOut\<close> into the transmit register of UART 4, the blocking variants
  that drain while the queue is full, and the framing of a native system exclusive message.
\<close>

record midi_out = display +
  midiQueue :: "u8 ring"
  midiOutPending :: bool

definition kMidiQueueSize :: int where "kMidiQueueSize = 736"

section \<open>The operations\<close>

definition midi_wrap :: "int \<Rightarrow> int" where
  "midi_wrap w = (let w = w + 1 in if w \<ge> kMidiQueueSize then 0 else w)"

definition QueueMIDI1 :: "u8 \<Rightarrow> 'a midi_out_scheme \<Rightarrow> bool \<times> 'a midi_out_scheme" where
  "QueueMIDI1 b s =
     (let q = midiQueue s; w = ring_write q in
      if ring_read q = w then (False, s)
      else (True, s\<lparr>midiQueue := q\<lparr>ring_slots := (ring_slots q)[nat w := b],
                                    ring_write := midi_wrap w\<rparr>,
                    midiOutPending := True\<rparr>))"

text \<open>
  The loop of \<open>QueueMIDI2/3\<close>: \<open>n\<close> bytes from bit \<open>sh\<close> of the shifting message into consecutive
  slots. The array is written as the loop goes, also when it gives up in the middle; only the
  write index is held back.
\<close>

fun queue_bytes ::
    "nat \<Rightarrow> nat \<Rightarrow> u32 \<Rightarrow> int \<Rightarrow> int \<Rightarrow> u8 list \<Rightarrow> bool \<times> int \<times> u8 list" where
  "queue_bytes 0 sh msg r w slots = (True, w, slots)"
| "queue_bytes (Suc n) sh msg r w slots =
     (if r = w then (False, w, slots)
      else queue_bytes n sh (push_bit 8 msg) r (midi_wrap w)
             (slots[nat w := ucast (drop_bit sh msg AND 0xff)]))"

definition queue_message :: "nat \<Rightarrow> nat \<Rightarrow> u32 \<Rightarrow> 'a midi_out_scheme \<Rightarrow> bool \<times> 'a midi_out_scheme" where
  "queue_message n sh msg s =
     (let q = midiQueue s;
          (done, w, slots) = queue_bytes n sh msg (ring_read q) (ring_write q) (ring_slots q)
      in if done
         then (True, s\<lparr>midiQueue := q\<lparr>ring_slots := slots, ring_write := w\<rparr>, midiOutPending := True\<rparr>)
         else (False, s\<lparr>midiQueue := q\<lparr>ring_slots := slots\<rparr>\<rparr>))"

definition QueueMIDI3 :: "u32 \<Rightarrow> 'a midi_out_scheme \<Rightarrow> bool \<times> 'a midi_out_scheme" where
  "QueueMIDI3 = queue_message 3 16"

definition QueueMIDI2 :: "u32 \<Rightarrow> 'a midi_out_scheme \<Rightarrow> bool \<times> 'a midi_out_scheme" where
  "QueueMIDI2 = queue_message 2 8"

definition HandleMIDIOut :: "device \<Rightarrow> 'a midi_out_scheme \<Rightarrow> bool \<times> 'a midi_out_scheme" where
  "HandleMIDIOut dev s =
     (let (full, s) = poll_flag dev U4_UTXBF s in
      if full then (True, s)
      else
        let q = midiQueue s; nextRead = midi_wrap (ring_read q) in
        if nextRead = ring_write q then (False, s\<lparr>midiOutPending := False\<rparr>)
        else (True, wr U4TXREG (byte_value (ring_slots q ! nat nextRead))
                      (s\<lparr>midiQueue := q\<lparr>ring_read := nextRead\<rparr>\<rparr>)))"

text \<open>The three blocking variants are the same loop around their \<open>QueueMIDI\<close> call \<open>queue\<close>.\<close>

partial_function (option) blocking_queue ::
    "device \<Rightarrow> ('a midi_out_scheme \<Rightarrow> bool \<times> 'a midi_out_scheme) \<Rightarrow>
     'a midi_out_scheme \<Rightarrow> 'a midi_out_scheme option" where
  "blocking_queue dev queue s =
     (let (queued, s) = queue s in
      if queued then Some s
      else Option.bind (wait_while dev U4_UTXBF s)
             (\<lambda>s. blocking_queue dev queue (snd (HandleMIDIOut dev s))))"

definition BlockingQueueMIDI1 :: "device \<Rightarrow> u8 \<Rightarrow> 'a midi_out_scheme \<Rightarrow> 'a midi_out_scheme option" where
  "BlockingQueueMIDI1 dev b = blocking_queue dev (QueueMIDI1 b)"

definition BlockingQueueMIDI3 :: "device \<Rightarrow> u32 \<Rightarrow> 'a midi_out_scheme \<Rightarrow> 'a midi_out_scheme option" where
  "BlockingQueueMIDI3 dev msg = blocking_queue dev (QueueMIDI3 msg)"

definition BlockingQueueMIDI2 :: "device \<Rightarrow> u32 \<Rightarrow> 'a midi_out_scheme \<Rightarrow> 'a midi_out_scheme option" where
  "BlockingQueueMIDI2 dev msg = blocking_queue dev (QueueMIDI2 msg)"

partial_function (option) FlushMIDIOut ::
    "device \<Rightarrow> 'a midi_out_scheme \<Rightarrow> 'a midi_out_scheme option" where
  "FlushMIDIOut dev s =
     (let (more, s) = HandleMIDIOut dev s in if more then FlushMIDIOut dev s else Some s)"

definition sysex_header :: "u32 \<Rightarrow> u8 list" where
  "sysex_header code = [0xF0, 0x00, 0x21, 0x27, 0x5D, 0, ucast code]"

text \<open>\<open>sendBytes( code, ptr, count )\<close> with \<open>bs\<close> the \<open>count\<close> bytes at \<open>ptr\<close>.\<close>

definition sendBytes :: "device \<Rightarrow> u32 \<Rightarrow> u8 list \<Rightarrow> 'a midi_out_scheme \<Rightarrow> 'a midi_out_scheme option" where
  "sendBytes dev code bs s = do {
     s \<leftarrow> flushDisplayWrite dev s;
     s \<leftarrow> fold_opt (BlockingQueueMIDI1 dev) (sysex_header code) s;
     s \<leftarrow> fold_opt (\<lambda>b. BlockingQueueMIDI1 dev (b AND 0x7f)) bs s;
     BlockingQueueMIDI1 dev 0xF7 s }"

text \<open>\<open>strlen\<close> of an array without a NUL is undefined.\<close>

definition sendSysExMsg :: "device \<Rightarrow> u8 list \<Rightarrow> 'a midi_out_scheme \<Rightarrow> 'a midi_out_scheme option" where
  "sendSysExMsg dev str s =
     (if 0 \<in> set str then sendBytes dev 0x32 (takeWhile (\<lambda>c. c \<noteq> 0) str) s else None)"

section \<open>The queue is a bounded FIFO\<close>

lemma midi_wrap_mod: "-1 \<le> i \<Longrightarrow> i < 736 \<Longrightarrow> midi_wrap i = (i + 1) mod 736"
  by (cases "i = 735") (auto simp: midi_wrap_def kMidiQueueSize_def Let_def)

interpretation mq: ring_index 736 midi_wrap
  by unfold_locales (simp_all add: midi_wrap_mod)

definition midi_queued :: "'a midi_out_scheme \<Rightarrow> u8 list" where
  "midi_queued s = ring_contents 736 (midiQueue s)"

definition midi_ok :: "'a midi_out_scheme \<Rightarrow> bool" where
  "midi_ok s \<longleftrightarrow> ring_inv 736 (midiQueue s) \<and> ring_live (midiQueue s)"

lemma QueueMIDI1_ring:
  "QueueMIDI1 b s =
     (if ring_read (midiQueue s) = ring_write (midiQueue s) then (False, s)
      else (True, s\<lparr>midiQueue := ring_put midi_wrap b (midiQueue s), midiOutPending := True\<rparr>))"
  by (simp add: QueueMIDI1_def ring_put_def Let_def)

lemma HandleMIDIOut_ring:
  "HandleMIDIOut dev s =
     (let s1 = tick 1 s in
      if dev U4_UTXBF (clock s) then (True, s1)
      else case ring_take midi_wrap (midiQueue s) of
          None \<Rightarrow> (False, s1\<lparr>midiOutPending := False\<rparr>)
        | Some (b, q) \<Rightarrow> (True, wr U4TXREG (byte_value b) (s1\<lparr>midiQueue := q\<rparr>)))"
  by (simp add: HandleMIDIOut_def poll_flag_def ring_take_def Let_def tick_def)


text \<open>Bytes of a packed message, first byte from bit \<open>sh\<close>.\<close>

definition message_bytes :: "nat \<Rightarrow> nat \<Rightarrow> u32 \<Rightarrow> u8 list" where
  "message_bytes n sh msg = map (\<lambda>k. ucast (drop_bit sh (push_bit (8 * k) msg) AND 0xff)) [0..<n]"

lemma message_bytes_Suc:
  "message_bytes (Suc n) sh msg =
     ucast (drop_bit sh msg AND 0xff) # message_bytes n sh (push_bit 8 msg)"
proof -
  have "[0..<Suc n] = 0 # map Suc [0..<n]" by (simp add: upt_conv_Cons map_Suc_upt del: upt_Suc)
  then show ?thesis by (simp add: message_bytes_def o_def algebra_simps del: upt_Suc)
qed

lemma length_message_bytes [simp]: "length (message_bytes n sh msg) = n"
  by (simp add: message_bytes_def)

lemma queue_bytes_puts:
  assumes "ring_inv 736 q" and "ring_live q"
  shows "queue_bytes n sh msg (ring_read q) (ring_write q) (ring_slots q) =
    (let q' = fold (ring_put midi_wrap) (message_bytes n sh msg) q
     in (ring_count 736 q + n \<le> 735, ring_write q', ring_slots q'))"
  using assms
proof (induction n arbitrary: msg q)
  case 0
  then show ?case using ring_count_bound [of 736 q] by (simp add: message_bytes_def)
next
  case (Suc n)
  let ?b = "ucast (drop_bit sh msg AND 0xff) :: u8"
  show ?case
  proof (cases "ring_read q = ring_write q")
    case True
    then have stuck: "fold (ring_put midi_wrap) bs q = q" for bs
      by (induction bs) (simp_all add: ring_put_def)
    have "ring_count 736 q = 735" using mq.full_iff(1) [OF Suc.prems] True by simp
    with True show ?thesis by (simp add: stuck)
  next
    case False
    then have put: "ring_put midi_wrap ?b q = q\<lparr>ring_slots := (ring_slots q)[nat (ring_write q) := ?b],
        ring_write := midi_wrap (ring_write q)\<rparr>" by (simp add: ring_put_def)
    have "ring_count 736 q \<noteq> 735" using mq.full_iff(1) [OF Suc.prems] False by simp
    then have "length (ring_contents 736 (ring_put midi_wrap ?b q)) = Suc (ring_count 736 q)"
      using mq.put_contents [OF Suc.prems(1), of ?b] ring_count_bound [of 736 q] by simp
    with Suc.IH [OF mq.put_invar [OF Suc.prems(1)] mq.put_live [OF Suc.prems(2)], of "push_bit 8 msg" ?b]
    show ?thesis using False put by (simp add: message_bytes_Suc)
  qed
qed

text \<open>
  The contract of the three queueing functions: all of the message or nothing of it. \<open>queues\<close>
  states it for a function that queues the bytes \<open>bs\<close>.
\<close>

definition queues :: "('a midi_out_scheme \<Rightarrow> bool \<times> 'a midi_out_scheme) \<Rightarrow> u8 list \<Rightarrow> bool" where
  "queues f bs \<longleftrightarrow> (\<forall>s. midi_ok s \<longrightarrow>
     (\<exists>q p. snd (f s) = s\<lparr>midiQueue := q, midiOutPending := p\<rparr> \<and> midi_ok (snd (f s)) \<and>
       fst (f s) = (length (midi_queued s) + length bs \<le> 735) \<and>
       midi_queued (snd (f s)) = midi_queued s @ (if fst (f s) then bs else []) \<and>
       (p \<longleftrightarrow> midiOutPending s \<or> fst (f s))))"

lemma queues_QueueMIDI1: "queues (QueueMIDI1 b) [b]"
  unfolding queues_def
proof (intro allI impI)
  fix s :: "'a midi_out_scheme"
  assume ok: "midi_ok s"
  then have i: "ring_inv 736 (midiQueue s)" "ring_live (midiQueue s)" by (simp_all add: midi_ok_def)
  note full = mq.full_iff(1) [OF i] and bound = ring_count_bound [of 736 "midiQueue s"]
  show "\<exists>q p. snd (QueueMIDI1 b s) = s\<lparr>midiQueue := q, midiOutPending := p\<rparr> \<and> midi_ok (snd (QueueMIDI1 b s)) \<and>
       fst (QueueMIDI1 b s) = (length (midi_queued s) + length [b] \<le> 735) \<and>
       midi_queued (snd (QueueMIDI1 b s)) = midi_queued s @ (if fst (QueueMIDI1 b s) then [b] else []) \<and>
       (p \<longleftrightarrow> midiOutPending s \<or> fst (QueueMIDI1 b s))"
  proof (cases "ring_read (midiQueue s) = ring_write (midiQueue s)")
    case True
    then show ?thesis
      using ok full
      by (intro exI [of _ "midiQueue s"] exI [of _ "midiOutPending s"]) (simp add: QueueMIDI1_ring midi_queued_def)
  next
    case False
    then show ?thesis
      using i full bound mq.put_invar [OF i(1), of b] mq.put_live [OF i(2), of b] mq.put_live_cases [OF i, of b]
      by (intro exI [of _ "ring_put midi_wrap b (midiQueue s)"] exI [of _ True])
        (simp add: QueueMIDI1_ring midi_queued_def midi_ok_def)
  qed
qed

lemma queues_message: "queues (queue_message n sh msg) (message_bytes n sh msg)"
  unfolding queues_def
proof (intro allI impI)
  fix s :: "'a midi_out_scheme"
  assume ok: "midi_ok s"
  define q where "q = midiQueue s"
  define q' where "q' = fold (ring_put midi_wrap) (message_bytes n sh msg) q"
  have i: "ring_inv 736 q" "ring_live q" using ok by (simp_all add: midi_ok_def q_def)
  have c': "ring_contents 736 q' = take 735 (ring_contents 736 q @ message_bytes n sh msg)"
    using mq.put_list_live [OF i, of "message_bytes n sh msg"] by (simp add: q'_def)
  have inv': "ring_inv 736 q'"
  proof -
    have "ring_inv 736 (fold (ring_put midi_wrap) bs r)" if "ring_inv 736 r" for bs and r :: "u8 ring"
      using that by (induction bs arbitrary: r) (simp_all add: mq.put_ring_inv)
    with i show ?thesis by (simp add: q'_def)
  qed
  have rd: "ring_read q' = ring_read q" by (simp add: q'_def)
  have m: "queue_message n sh msg s =
      (if ring_count 736 q + n \<le> 735
       then (True, s\<lparr>midiQueue := q\<lparr>ring_slots := ring_slots q', ring_write := ring_write q'\<rparr>, midiOutPending := True\<rparr>)
       else (False, s\<lparr>midiQueue := q\<lparr>ring_slots := ring_slots q'\<rparr>\<rparr>))"
    unfolding queue_message_def
    using queue_bytes_puts [OF i, of n sh msg] by (simp add: q_def [symmetric] q'_def [symmetric] Let_def)
  show "\<exists>r p. snd (queue_message n sh msg s) = s\<lparr>midiQueue := r, midiOutPending := p\<rparr> \<and>
       midi_ok (snd (queue_message n sh msg s)) \<and>
       fst (queue_message n sh msg s) = (length (midi_queued s) + length (message_bytes n sh msg) \<le> 735) \<and>
       midi_queued (snd (queue_message n sh msg s)) = midi_queued s @
         (if fst (queue_message n sh msg s) then message_bytes n sh msg else []) \<and>
       (p \<longleftrightarrow> midiOutPending s \<or> fst (queue_message n sh msg s))"
  proof (cases "ring_count 736 q + n \<le> 735")
    case True
    have "q\<lparr>ring_slots := ring_slots q', ring_write := ring_write q'\<rparr> = q'" using rd by simp
    with True m have m': "queue_message n sh msg s = (True, s\<lparr>midiQueue := q', midiOutPending := True\<rparr>)" by simp
    show ?thesis
      using True m' inv' i(2) rd c'
      by (intro exI [of _ q'] exI [of _ True]) (simp add: midi_ok_def midi_queued_def ring_live_def q_def)
  next
    case False
    let ?r = "q\<lparr>ring_slots := ring_slots q'\<rparr>"
    have le: "ring_count 736 q \<le> ring_count 736 q'"
      using arg_cong [OF c', of length] False ring_count_bound [of 736 q] by simp
    have "ring_contents 736 ?r = ring_contents 736 q"
      using ring_contents_slots_prefix [OF rd le] c' ring_count_bound [of 736 q]
      by (simp add: min_def)
    moreover have "ring_inv 736 ?r" using inv' i by (simp add: ring_inv_def)
    ultimately show ?thesis
      using False m i(2)
      by (intro exI [of _ ?r] exI [of _ "midiOutPending s"])
        (simp add: midi_ok_def midi_queued_def ring_live_def q_def)
  qed
qed

lemma queues_QueueMIDI2: "queues (QueueMIDI2 msg) (message_bytes 2 8 msg)"
  and queues_QueueMIDI3: "queues (QueueMIDI3 msg) (message_bytes 3 16 msg)"
  by (simp_all add: QueueMIDI2_def QueueMIDI3_def queues_message)


section \<open>Draining\<close>

text \<open>
  \<open>moved s s' bs\<close>: from \<open>s\<close> to \<open>s'\<close> only the queue and the UART changed; the bytes that left the
  queue were sent on UART 4 in order, and with them the queue is the old one with \<open>bs\<close> behind it.
\<close>

definition uart4 :: "u8 list \<Rightarrow> event list" where
  "uart4 bs = map (\<lambda>b. Wr U4TXREG (byte_value b)) bs"

definition moved :: "'a midi_out_scheme \<Rightarrow> 'a midi_out_scheme \<Rightarrow> u8 list \<Rightarrow> bool" where
  "moved s s' bs \<longleftrightarrow> (\<exists>sent c q p.
     s' = s\<lparr>clock := c, trace := trace s @ uart4 sent, midiQueue := q, midiOutPending := p\<rparr> \<and>
     clock s \<le> c \<and> midi_ok s' \<and> sent @ midi_queued s' = midi_queued s @ bs)"

lemma moved_refl: "midi_ok s \<Longrightarrow> moved s s []"
  unfolding moved_def
  by (intro exI [of _ "[]"] exI [of _ "clock s"] exI [of _ "midiQueue s"] exI [of _ "midiOutPending s"])
    (simp add: uart4_def)

lemma moved_trans:
  assumes "moved s s' bs" and "moved s' s'' cs"
  shows "moved s s'' (bs @ cs)"
proof -
  obtain sent c q p where 1: "s' = s\<lparr>clock := c, trace := trace s @ uart4 sent, midiQueue := q, midiOutPending := p\<rparr>"
      "clock s \<le> c" "sent @ midi_queued s' = midi_queued s @ bs"
    using assms(1) by (auto simp: moved_def)
  obtain sent' c' q' p' where 2: "s'' = s'\<lparr>clock := c', trace := trace s' @ uart4 sent', midiQueue := q', midiOutPending := p'\<rparr>"
      "clock s' \<le> c'" "midi_ok s''" "sent' @ midi_queued s'' = midi_queued s' @ cs"
    using assms(2) by (auto simp: moved_def)
  have "s'' = s\<lparr>clock := c', trace := trace s @ uart4 (sent @ sent'), midiQueue := q', midiOutPending := p'\<rparr>"
    using 1(1) 2(1) by (simp add: uart4_def)
  moreover have "(sent @ sent') @ midi_queued s'' = midi_queued s @ bs @ cs"
    using 1(3) 2(4) by (metis append.assoc)
  moreover have "clock s \<le> c'" using 1 2 by simp
  ultimately show ?thesis using 2(3) unfolding moved_def by blast
qed

lemma moved_ok: "moved s s' bs \<Longrightarrow> midi_ok s'"
  by (auto simp: moved_def)

lemma HandleMIDIOut_cases:
  assumes "midi_ok s"
  shows "dev U4_UTXBF (clock s) \<Longrightarrow> HandleMIDIOut dev s = (True, tick 1 s) \<and> moved s (tick 1 s) []"
    and "\<not> dev U4_UTXBF (clock s) \<Longrightarrow> midi_queued s = [] \<Longrightarrow>
           HandleMIDIOut dev s = (False, (tick 1 s)\<lparr>midiOutPending := False\<rparr>) \<and>
           moved s ((tick 1 s)\<lparr>midiOutPending := False\<rparr>) []"
    and "\<not> dev U4_UTXBF (clock s) \<Longrightarrow> midi_queued s = b # bs \<Longrightarrow>
           \<exists>s'. HandleMIDIOut dev s = (True, s') \<and> moved s s' [] \<and> midi_queued s' = bs \<and>
             clock s' = Suc (clock s) \<and> trace s' = trace s @ uart4 [b]"
proof -
  have i: "ring_inv 736 (midiQueue s)" "ring_live (midiQueue s)" using assms by (simp_all add: midi_ok_def)
  show "HandleMIDIOut dev s = (True, tick 1 s) \<and> moved s (tick 1 s) []" if "dev U4_UTXBF (clock s)"
    unfolding moved_def HandleMIDIOut_ring using that assms
    by (intro conjI exI [of _ "[]"] exI [of _ "Suc (clock s)"] exI [of _ "midiQueue s"] exI [of _ "midiOutPending s"])
      (simp_all add: uart4_def tick_def midi_ok_def midi_queued_def)
  show "HandleMIDIOut dev s = (False, (tick 1 s)\<lparr>midiOutPending := False\<rparr>) \<and>
           moved s ((tick 1 s)\<lparr>midiOutPending := False\<rparr>) []"
    if "\<not> dev U4_UTXBF (clock s)" "midi_queued s = []"
    unfolding moved_def HandleMIDIOut_ring using that assms mq.take_empty [OF i(1)]
    by (intro conjI exI [of _ "[]"] exI [of _ "Suc (clock s)"] exI [of _ "midiQueue s"] exI [of _ False])
      (simp_all add: uart4_def tick_def midi_ok_def midi_queued_def Let_def)
  show "\<exists>s'. HandleMIDIOut dev s = (True, s') \<and> moved s s' [] \<and> midi_queued s' = bs \<and>
             clock s' = Suc (clock s) \<and> trace s' = trace s @ uart4 [b]"
    if free: "\<not> dev U4_UTXBF (clock s)" and queued: "midi_queued s = b # bs"
  proof -
    obtain q where q: "ring_take midi_wrap (midiQueue s) = Some (b, q)" "ring_inv 736 q" "ring_contents 736 q = bs"
      using mq.take_cons [OF i(1), of b bs] queued by (auto simp: midi_queued_def)
    have "ring_live q" by (rule mq.take_live [OF i(1) q(1)])
    then show ?thesis
      unfolding moved_def HandleMIDIOut_ring using free q queued
      by (intro exI [of _ "wr U4TXREG (byte_value b) ((tick 1 s)\<lparr>midiQueue := q\<rparr>)"] conjI
          exI [of _ "[b]"] exI [of _ "Suc (clock s)"] exI [of _ q] exI [of _ "midiOutPending s"])
        (simp_all add: uart4_def tick_def midi_ok_def midi_queued_def Let_def wr_def emit_def)
  qed
qed

lemma moved_HandleMIDIOut:
  assumes "midi_ok s" shows "moved s (snd (HandleMIDIOut dev s)) []"
proof (cases "dev U4_UTXBF (clock s)")
  case True
  from HandleMIDIOut_cases(1) [of s dev, OF assms this] show ?thesis by simp
next
  case False
  show ?thesis
  proof (cases "midi_queued s")
    case Nil
    from HandleMIDIOut_cases(2) [where dev = dev, OF assms False this] show ?thesis by simp
  next
    case (Cons b bs)
    obtain s' where "HandleMIDIOut dev s = (True, s')" "moved s s' []"
      using HandleMIDIOut_cases(3) [where dev = dev, OF assms False Cons] by blast
    then show ?thesis by simp
  qed
qed

lemma moved_wait:
  assumes "midi_ok s" and "later s s'"
  shows "moved s s' []"
proof -
  obtain t where t: "s' = s\<lparr>clock := t\<rparr>" "clock s \<le> t" using assms(2) by (auto simp: later_def)
  show ?thesis
    unfolding moved_def using t assms(1)
    by (intro exI [of _ "[]"] exI [of _ t] exI [of _ "midiQueue s"] exI [of _ "midiOutPending s"])
      (simp add: uart4_def midi_ok_def midi_queued_def)
qed

lemma moved_queue:
  assumes "queues f bs" and "midi_ok s"
  shows "moved s (snd (f s)) (if fst (f s) then bs else [])"
    and "fst (f s) \<longleftrightarrow> length (midi_queued s) + length bs \<le> 735"
    and "clock (snd (f s)) = clock s"
proof -
  obtain q p where f: "snd (f s) = s\<lparr>midiQueue := q, midiOutPending := p\<rparr>" "midi_ok (snd (f s))"
      "fst (f s) \<longleftrightarrow> length (midi_queued s) + length bs \<le> 735"
      "midi_queued (snd (f s)) = midi_queued s @ (if fst (f s) then bs else [])"
    using assms unfolding queues_def by blast
  show "moved s (snd (f s)) (if fst (f s) then bs else [])"
    unfolding moved_def using f
    by (intro exI [of _ "[]"] exI [of _ "clock s"] exI [of _ q] exI [of _ p]) (simp add: uart4_def)
  show "fst (f s) \<longleftrightarrow> length (midi_queued s) + length bs \<le> 735" by (rule f(3))
  show "clock (snd (f s)) = clock s" by (simp add: f(1))
qed


text \<open>One round of the blocking loop after another until a byte has left the queue.\<close>

lemma poll_until_1_bounds:
  assumes "t \<le> v" and "p v"
  shows "\<exists>u. poll_until 1 p t = Some u \<and> t < u \<and> u \<le> Suc v"
  using assms
proof (induction "v - t" arbitrary: t)
  case 0
  then show ?case by (simp add: poll_until.simps)
next
  case (Suc d)
  show ?case
  proof (cases "p t")
    case True
    with Suc.prems show ?thesis by (simp add: poll_until.simps)
  next
    case False
    then have "Suc t \<le> v" using Suc.prems by (metis not_less_eq_eq le_antisym)
    moreover have "d = v - Suc t" using Suc.hyps(2) by simp
    ultimately obtain u where u: "poll_until 1 p (Suc t) = Some u" "Suc t < u" "u \<le> Suc v"
      using Suc.hyps(1) [of "Suc t"] Suc.prems(2) by blast
    have "poll_until 1 p t = poll_until 1 p (Suc t)"
      using False by (subst poll_until.simps) simp
    with u show ?thesis by auto
  qed
qed

lemma blocking_drains_one:
  assumes resp: "responsive dev" and f: "queues f bs"
    and ok: "midi_ok s" and full: "735 < length (midi_queued s) + length bs" and bs: "length bs \<le> 735"
  shows "\<exists>s'. moved s s' [] \<and> Suc (length (midi_queued s')) = length (midi_queued s) \<and>
           blocking_queue dev f s = blocking_queue dev f s'"
proof -
  obtain t' where t': "t' \<ge> clock s" "\<And>u. t' \<le> u \<Longrightarrow> u < t' + 12 \<Longrightarrow> idle_at dev u"
    using resp unfolding responsive_def by blast
  have "\<exists>s'. moved r s' [] \<and> Suc (length (midi_queued s')) = length (midi_queued r) \<and>
           blocking_queue dev f r = blocking_queue dev f s'"
    if "clock r \<le> Suc t'" "midi_ok r" "735 < length (midi_queued r) + length bs" for r
    using that
  proof (induction "Suc t' - clock r" arbitrary: r rule: less_induct)
    case less
    obtain r0 where r0: "f r = (False, r0)" "moved r r0 []" "clock r0 = clock r"
      using moved_queue [OF f less.prems(2)] less.prems(3) by (cases "f r") auto
    let ?v = "max t' (clock r)"
    have "idle_at dev ?v" using t'(2) [of ?v] less.prems(1) by auto
    then obtain u where u: "poll_until 1 (\<lambda>t. \<not> dev U4_UTXBF t) (clock r0) = Some u"
        "clock r < u" "u \<le> Suc ?v"
      using poll_until_1_bounds [of "clock r0" ?v "\<lambda>t. \<not> dev U4_UTXBF t"] r0(3)
      by (auto dest: idle_U4)
    define r1 where "r1 = r0\<lparr>clock := u\<rparr>"
    have w: "wait_while dev U4_UTXBF r0 = Some r1" using u(1) by (simp add: wait_while_def r1_def del: One_nat_def)
    have "moved r0 r1 []"
      by (rule moved_wait [OF moved_ok [OF r0(2)] wait_later(1) [OF w]])
    then have m1: "moved r r1 []" using moved_trans [OF r0(2)] by force
    have q1: "midi_queued r1 = midi_queued r"
    proof -
      have "midi_queued r0 = midi_queued r"
        using f less.prems(2) r0(1) unfolding queues_def by (metis append_Nil2 fst_conv snd_conv)
      then show ?thesis by (simp add: r1_def midi_queued_def)
    qed
    have eq: "blocking_queue dev f r = blocking_queue dev f (snd (HandleMIDIOut dev r1))"
      by (subst blocking_queue.simps) (simp add: r0(1) w)
    show ?case
    proof (cases "dev U4_UTXBF u")
      case True
      have "u < t'"
      proof (rule ccontr)
        assume "\<not> u < t'"
        with u(3) less.prems(1) have "idle_at dev u" by (intro t'(2)) auto
        then show False using True idle_atD(1) [of dev u U4_UTXBF] by simp
      qed
      have h: "HandleMIDIOut dev r1 = (True, tick 1 r1)" "moved r1 (tick 1 r1) []"
        using HandleMIDIOut_cases(1) [OF moved_ok [OF m1], of dev] True by (simp_all add: r1_def)
      have q2: "midi_queued (tick 1 r1) = midi_queued r" using q1 by (simp add: midi_queued_def tick_def)
      have "\<exists>s'. moved (tick 1 r1) s' [] \<and> Suc (length (midi_queued s')) = length (midi_queued (tick 1 r1)) \<and>
           blocking_queue dev f (tick 1 r1) = blocking_queue dev f s'"
      proof (rule less.hyps)
        show "midi_ok (tick 1 r1)" by (rule moved_ok [OF h(2)])
        show "735 < length (midi_queued (tick 1 r1)) + length bs" using less.prems(3) q2 by simp
      qed (use \<open>u < t'\<close> u(2) in \<open>simp_all add: r1_def\<close>)
      then show ?thesis
        using eq h(1) q2 moved_trans [OF moved_trans [OF m1 h(2)]] by (metis append_Nil2 snd_conv)
    next
      case False
      obtain b rest where "midi_queued r1 = b # rest"
        using q1 less.prems(3) bs by (cases "midi_queued r") auto
      then obtain s' where "HandleMIDIOut dev r1 = (True, s')" "moved r1 s' []" "midi_queued s' = rest"
        using HandleMIDIOut_cases(3) [OF moved_ok [OF m1]] False by (auto simp: r1_def)
      then show ?thesis
        using eq q1 \<open>midi_queued r1 = b # rest\<close> moved_trans [OF m1] by (metis append_Nil2 length_Cons snd_conv)
    qed
  qed
  with t'(1) ok full show ?thesis by (meson le_SucI)
qed

lemma blocking_queue_returns:
  assumes resp: "responsive dev" and f: "queues f bs" and bs: "length bs \<le> 735" and "midi_ok s"
  shows "\<exists>s'. blocking_queue dev f s = Some s' \<and> moved s s' bs"
  using \<open>midi_ok s\<close>
proof (induction "length (midi_queued s)" arbitrary: s)
  case 0
  then have "fst (f s)" "moved s (snd (f s)) bs" using moved_queue [OF f 0(2)] bs by auto
  then show ?case by (subst blocking_queue.simps) (simp add: case_prod_unfold Let_def)
next
  case (Suc n)
  show ?case
  proof (cases "length (midi_queued s) + length bs \<le> 735")
    case True
    then have "fst (f s)" "moved s (snd (f s)) bs" using moved_queue [OF f Suc.prems] by auto
    then show ?thesis by (subst blocking_queue.simps) (simp add: case_prod_unfold Let_def)
  next
    case False
    then obtain s1 where s1: "moved s s1 []" "Suc (length (midi_queued s1)) = length (midi_queued s)"
        "blocking_queue dev f s = blocking_queue dev f s1"
      using blocking_drains_one [OF resp f Suc.prems _ bs] by auto
    with Suc.hyps obtain s' where "blocking_queue dev f s1 = Some s'" "moved s1 s' bs"
      using moved_ok [OF s1(1)] by (metis Suc_inject)
    then show ?thesis using s1 moved_trans [OF s1(1)] by auto
  qed
qed


lemma FlushMIDIOut_returns:
  fixes s :: "'a midi_out_scheme"
  assumes resp: "responsive dev" and "midi_ok s"
  shows "\<exists>s'. FlushMIDIOut dev s = Some s' \<and> moved s s' [] \<and> midi_queued s' = [] \<and> \<not> midiOutPending s'"
  using \<open>midi_ok s\<close>
proof (induction "length (midi_queued s)" arbitrary: s rule: less_induct)
  case outer: less
  obtain t' where t': "t' \<ge> clock s" "\<And>u. t' \<le> u \<Longrightarrow> u < t' + 12 \<Longrightarrow> idle_at dev u"
    using resp unfolding responsive_def by blast
  have "\<exists>s'. FlushMIDIOut dev r = Some s' \<and> moved r s' [] \<and> midi_queued s' = [] \<and> \<not> midiOutPending s'"
    if "clock r \<le> t'" "midi_ok r" "midi_queued r = midi_queued s" for r :: "'a midi_out_scheme"
    using that
  proof (induction "t' - clock r" arbitrary: r rule: less_induct)
    case less
    note cases = HandleMIDIOut_cases [where dev = dev, OF less.prems(2)]
    show ?case
    proof (cases "dev U4_UTXBF (clock r)")
      case True
      have "clock r \<noteq> t'" using t'(2) [of t'] True by (auto dest: idle_U4)
      have h: "HandleMIDIOut dev r = (True, tick 1 r)" "moved r (tick 1 r) []" using cases(1) [OF True] by simp_all
      have "\<exists>s'. FlushMIDIOut dev (tick 1 r) = Some s' \<and> moved (tick 1 r) s' [] \<and>
          midi_queued s' = [] \<and> \<not> midiOutPending s'"
      proof (rule less.hyps)
        show "midi_ok (tick 1 r)" by (rule moved_ok [OF h(2)])
        show "midi_queued (tick 1 r) = midi_queued s" using less.prems(3) by (simp add: midi_queued_def tick_def)
      qed (use less.prems(1) \<open>clock r \<noteq> t'\<close> in simp_all)
      then show ?thesis
        using h(1) moved_trans [OF h(2)] by (subst FlushMIDIOut.simps) force
    next
      case free: False
      show ?thesis
      proof (cases "midi_queued r")
        case Nil
        then show ?thesis
          using cases(2) [OF free Nil] by (subst FlushMIDIOut.simps) (simp add: midi_queued_def tick_def)
      next
        case (Cons b bs)
        obtain r1 where r1: "HandleMIDIOut dev r = (True, r1)" "moved r r1 []" "midi_queued r1 = bs"
          using cases(3) [OF free Cons] by blast
        have "\<exists>s'. FlushMIDIOut dev r1 = Some s' \<and> moved r1 s' [] \<and> midi_queued s' = [] \<and> \<not> midiOutPending s'"
        proof (rule outer.hyps)
          show "length (midi_queued r1) < length (midi_queued s)"
            using r1(3) Cons less.prems(3) by (metis length_Cons lessI)
        qed (rule moved_ok [OF r1(2)])
        then show ?thesis using r1(1) moved_trans [OF r1(2)] by (subst FlushMIDIOut.simps) force
      qed
    qed
  qed
  from this [OF t'(1) outer.prems refl] show ?case .
qed

section \<open>Properties of the output queue\<close>

text \<open>
  C12: \<open>QueueMIDI1\<close>, \<open>QueueMIDI2\<close> and \<open>QueueMIDI3\<close> on a live queue are all-or-nothing: they
  report success exactly when their whole message fits in the 735 usable slots, and then the queue
  is the old one followed by the message bytes, most significant first; otherwise the queue content
  is unchanged, although the slots beyond the write index may have been written. Nothing else of the state
  changes but the pending flag, which success sets.
\<close>

theorem QueueMIDI_all_or_nothing:
  "queues (QueueMIDI1 b :: 'a midi_out_scheme \<Rightarrow> _) [b] \<and>
   queues (QueueMIDI2 msg :: 'a midi_out_scheme \<Rightarrow> _) [ucast (drop_bit 8 msg), ucast msg] \<and>
   queues (QueueMIDI3 msg :: 'a midi_out_scheme \<Rightarrow> _)
     [ucast (drop_bit 16 msg), ucast (drop_bit 8 msg), ucast msg]"
proof -
  have byte: "ucast (drop_bit i (push_bit j msg) AND 0xff) = (ucast (drop_bit (i - j) msg) :: u8)"
    if "j \<le> i" "i \<le> 16" for i j
  proof (rule bit_word_eqI)
    fix n assume n: "n < LENGTH(8)"
    have e: "(0xff :: u32) = mask 8" by (simp add: mask_eq_exp_minus_1)
    show "bit (ucast (drop_bit i (push_bit j msg) AND 0xff) :: u8) n = bit (ucast (drop_bit (i - j) msg) :: u8) n"
      unfolding e using n that by (auto simp: bit_simps)
  qed
  have "message_bytes 2 8 msg = [ucast (drop_bit 8 msg), ucast msg]"
    "message_bytes 3 16 msg = [ucast (drop_bit 16 msg), ucast (drop_bit 8 msg), ucast msg]"
    using byte [of 0 8] byte [of 8 8] byte [of 0 16] byte [of 8 16] byte [of 16 16]
    by (simp_all add: message_bytes_def upt_rec)
  then show ?thesis
    using queues_QueueMIDI1 queues_QueueMIDI2 [of msg] queues_QueueMIDI3 [of msg] by metis
qed

text \<open>
  C4: on a responsive UART the blocking variants return, and no byte is lost, duplicated or
  reordered: the bytes sent on UART 4 in the meantime followed by the queue left behind are the old
  queue followed by the message.
\<close>

theorem BlockingQueueMIDI_conserves:
  assumes "responsive dev" and "midi_ok s"
  shows "(\<exists>s'. BlockingQueueMIDI1 dev b s = Some s' \<and> moved s s' [b]) \<and>
     (\<exists>s'. BlockingQueueMIDI2 dev msg s = Some s' \<and> moved s s' (message_bytes 2 8 msg)) \<and>
     (\<exists>s'. BlockingQueueMIDI3 dev msg s = Some s' \<and> moved s s' (message_bytes 3 16 msg))"
  using blocking_queue_returns [OF assms(1) queues_QueueMIDI1 _ assms(2), of b]
    blocking_queue_returns [OF assms(1) queues_QueueMIDI2 _ assms(2), of msg]
    blocking_queue_returns [OF assms(1) queues_QueueMIDI3 _ assms(2), of msg]
  by (simp add: BlockingQueueMIDI1_def BlockingQueueMIDI2_def BlockingQueueMIDI3_def)

text \<open>A state that has queued the bytes 7, 7 and has sent some before.\<close>

definition demo_midi :: midi_out where
  "demo_midi = display.extend demo_display
     (midi_out.fields \<lparr>ring_read = 5, ring_write = 8, ring_slots = replicate 736 7\<rparr> True)"

lemma demo_midi_simps [simp]:
  "midiQueue demo_midi = \<lparr>ring_read = 5, ring_write = 8, ring_slots = replicate 736 7\<rparr>"
  "midi_queued demo_midi = [7, 7]" "midi_ok demo_midi"
  "displayBytesToSend demo_midi = -1" "trace demo_midi = []"
  by (simp_all add: demo_midi_def demo_display_def display.defs midi_out.defs midi_ok_def ring_inv_def
      ring_live_def midi_queued_def ring_contents_def ring_count_def upt_rec)

lemma BlockingQueueMIDI_conserves_witness:
  "\<exists>s'. BlockingQueueMIDI1 ready_device 9 demo_midi = Some s' \<and> moved demo_midi s' [9]"
  using BlockingQueueMIDI_conserves [OF responsive_ready_device, of demo_midi 9 0] by simp

text \<open>
  C20: on a responsive UART \<open>FlushMIDIOut\<close> returns, sends exactly the queued bytes in order,
  leaves the queue empty and clears the pending flag.
\<close>

theorem FlushMIDIOut_drains:
  assumes "responsive dev" and "midi_ok s"
  shows "\<exists>s'. FlushMIDIOut dev s = Some s' \<and> midi_queued s' = [] \<and> \<not> midiOutPending s' \<and>
     trace s' = trace s @ uart4 (midi_queued s) \<and> drawing s' = drawing s"
proof -
  obtain s' where s': "FlushMIDIOut dev s = Some s'" "moved s s' []" "midi_queued s' = []" "\<not> midiOutPending s'"
    using FlushMIDIOut_returns [OF assms] by blast
  then show ?thesis by (auto simp: moved_def drawing_def)
qed

lemma FlushMIDIOut_drains_witness:
  "\<exists>s'. FlushMIDIOut ready_device demo_midi = Some s' \<and> trace s' = uart4 [7, 7]"
  using FlushMIDIOut_drains [OF responsive_ready_device, of demo_midi] by auto

lemma fold_blocking:
  assumes "responsive dev" and "midi_ok s"
  shows "\<exists>s'. fold_opt (\<lambda>b. BlockingQueueMIDI1 dev (f b)) bs s = Some s' \<and> moved s s' (map f bs)"
  using assms(2)
proof (induction bs arbitrary: s)
  case Nil
  then show ?case by (simp add: moved_refl)
next
  case (Cons b bs)
  obtain s1 where s1: "BlockingQueueMIDI1 dev (f b) s = Some s1" "moved s s1 [f b]"
    using blocking_queue_returns [OF assms(1) queues_QueueMIDI1 _ Cons.prems, of "f b"]
    by (auto simp: BlockingQueueMIDI1_def)
  then obtain s2 where "fold_opt (\<lambda>b. BlockingQueueMIDI1 dev (f b)) bs s1 = Some s2" "moved s1 s2 (map f bs)"
    using Cons.IH [OF moved_ok [OF s1(2)]] by blast
  with s1 moved_trans [OF s1(2)] show ?case by force
qed

definition sysex_frame :: "u32 \<Rightarrow> u8 list \<Rightarrow> u8 list" where
  "sysex_frame code bs = [0xF0, 0x00, 0x21, 0x27, 0x5D, 0, ucast code] @ map (\<lambda>b. b AND 0x7f) bs @ [0xF7]"

text \<open>
  \<open>sendBytes\<close> returns on a responsive device: it completes the pending display transfer first,
  then queues one well-formed native system exclusive message: the manufacturer and hardware header,
  the code, every data byte reduced to seven bits, and the closing \<open>0xF7\<close>, in order and without loss
  whatever the length of the data.
\<close>

theorem sendBytes_frame:
  assumes "responsive dev" and "midi_ok s" and "displayBytesToSend s \<le> 512"
  shows "\<exists>s1 s'. flushDisplayWrite dev s = Some s1 \<and> displayBytesToSend s1 < 0 \<and>
     sendBytes dev code bs s = Some s' \<and> moved s1 s' (sysex_frame code bs)"
proof -
  obtain s1 where s1: "flushDisplayWrite dev s = Some s1" "midi_ok s1" "displayBytesToSend s1 < 0"
  proof (cases "0 \<le> displayBytesToSend s")
    case True
    then show ?thesis using flush_writes [OF assms(1) True assms(3)] assms(2) that by (auto simp: midi_ok_def)
  next
    case False
    then show ?thesis using assms(2) that [of s] by (simp add: flushDisplayWrite_def)
  qed
  obtain s2 where s2: "fold_opt (BlockingQueueMIDI1 dev) (sysex_header code) s1 = Some s2"
      "moved s1 s2 (sysex_header code)"
    using fold_blocking [OF assms(1) s1(2), of "\<lambda>b. b" "sysex_header code"] by auto
  obtain s3 where s3: "fold_opt (\<lambda>b. BlockingQueueMIDI1 dev (b AND 0x7f)) bs s2 = Some s3"
      "moved s2 s3 (map (\<lambda>b. b AND 0x7f) bs)"
    using fold_blocking [OF assms(1) moved_ok [OF s2(2)], of "\<lambda>b. b AND 0x7f" bs] by blast
  obtain s4 where s4: "BlockingQueueMIDI1 dev 0xF7 s3 = Some s4" "moved s3 s4 [0xF7]"
    using blocking_queue_returns [OF assms(1) queues_QueueMIDI1 _ moved_ok [OF s3(2)], of "0xF7"]
    by (auto simp: BlockingQueueMIDI1_def)
  have "moved s1 s4 (sysex_frame code bs)"
    using moved_trans [OF moved_trans [OF s2(2) s3(2)] s4(2)]
    by (simp add: sysex_header_def sysex_frame_def)
  then show ?thesis using s1 s2 s3 s4 by (auto simp: sendBytes_def)
qed

lemma sendBytes_frame_witness:
  "\<exists>s1 s'. flushDisplayWrite ready_device demo_midi = Some s1 \<and>
     sendBytes ready_device 0x32 [0xC1] demo_midi = Some s' \<and>
     moved s1 s' [0xF0, 0x00, 0x21, 0x27, 0x5D, 0, 0x32, 0x41, 0xF7]"
  using sendBytes_frame [OF responsive_ready_device, of demo_midi "0x32" "[0xC1]"]
  by (auto simp: sysex_frame_def)

text \<open>
  the full test never holds before the first byte has been taken, so a burst of 736 bytes queued
  before the first \<open>HandleMIDIOut\<close> is reported as successful throughout and then
  lost entirely: the queue is empty afterwards. 735 bytes are kept.
\<close>

theorem MIDI_burst_before_first_read:
  assumes "midiQueue s = ring_empty 736 0" and "length bs = 735"
  shows "let s735 = fold (\<lambda>b s. snd (QueueMIDI1 b s)) bs s in
     midi_queued s735 = bs \<and> fst (QueueMIDI1 b s735) \<and> midi_queued (snd (QueueMIDI1 b s735)) = []"
proof -
  have step: "midiQueue (snd (QueueMIDI1 b s)) = ring_put midi_wrap b (midiQueue s)" for b and s :: "'a midi_out_scheme"
    by (simp add: QueueMIDI1_ring ring_put_def)
  have q: "midiQueue (fold (\<lambda>b s. snd (QueueMIDI1 b s)) xs r) = fold (ring_put midi_wrap) xs (midiQueue r)"
    for xs and r :: "'a midi_out_scheme"
    by (induction xs arbitrary: r) (simp_all add: step)
  have ok: "fst (QueueMIDI1 b s) \<longleftrightarrow> ring_read (midiQueue s) \<noteq> ring_write (midiQueue s)"
    for b and s :: "'a midi_out_scheme"
    by (simp add: QueueMIDI1_ring)
  have inv0: "ring_inv 736 (midiQueue s)" "ring_contents 736 (midiQueue s) = []"
    using ring_empty_contents [of 736 "0 :: u8"] assms(1) by simp_all
  have p: "ring_inv 736 (fold (ring_put midi_wrap) bs (midiQueue s)) \<and>
      ring_contents 736 (fold (ring_put midi_wrap) bs (midiQueue s)) = bs"
    using mq.put_list [OF inv0(1), of bs] assms(2) inv0(2) by simp
  have unread: "ring_read (fold (ring_put midi_wrap) bs (midiQueue s)) = -1"
    using assms(1) by (simp add: ring_empty_def)
  then have "ring_read (fold (ring_put midi_wrap) bs (midiQueue s)) \<noteq>
      ring_write (fold (ring_put midi_wrap) bs (midiQueue s))"
    using p by (auto simp: ring_inv_def)
  then show ?thesis
    using p mq.unread_overflow(1) [OF conjunct1 [OF p] unread] assms(2)
    by (simp add: midi_queued_def q step ok Let_def del: fold_ring_put_read)
qed

lemma MIDI_burst_before_first_read_witness:
  "let s0 = demo_midi\<lparr>midiQueue := ring_empty 736 0\<rparr>;
       s735 = fold (\<lambda>b s. snd (QueueMIDI1 b s)) (replicate 735 1) s0 in
   length (midi_queued s735) = 735 \<and> midi_queued (snd (QueueMIDI1 1 s735)) = []"
  using MIDI_burst_before_first_read [of "demo_midi\<lparr>midiQueue := ring_empty 736 0\<rparr>" "replicate 735 1" 1]
  by (simp add: Let_def)

end
