(* ===== verification/Midi_Spec.thy ===== *)
theory Midi_Spec
  imports Prelude
begin

text \<open>
  What a MIDI receiver of this module promises, stated without the variables of the code: the
  receiver knows the last status byte (as a number, 0 before the first one), what it is listening for,
  and the byte left over in the second place of its message buffer. The status byte is split by
  division, the buffer of a system exclusive message is a list. \<open>Midi_In\<close> shows that the parser of \<open>midi.c\<close>
  implements it.

  The receiver departs from the MIDI specification where the program does: it takes every byte below
  \<open>0xF8\<close> that arrives in the middle of a channel message as data, it keeps running status across a system
  exclusive message, and it stores a stray byte after one twice.
\<close>

datatype midi_action = Quiet | Call u8 u8 "u8 list option" | Native u8 "u8 list"

datatype status_kind = Two_Bytes | One_Byte | Exclusive | Unknown

definition kind_of :: "nat \<Rightarrow> status_kind" where
  "kind_of n =
     (if n div 16 \<in> {8, 9, 10, 11, 14} then Two_Bytes
      else if n div 16 \<in> {12, 13} then One_Byte
      else if n = 240 then Exclusive
      else Unknown)"

datatype listening = Ready | Await | Have u8 | Capture "u8 list"

record receiver =
  running_status :: nat
  leftover :: u8
  listening :: listening

text \<open>
  An accepted native message: the maker's and the module's identification, its own or the
  broadcast device number, a code, and at least one more byte. What is handed over is all that follows the
  code, with the closing \<open>0xF7\<close>.
\<close>

definition accept_native :: "u8 list \<Rightarrow> midi_action" where
  "accept_native xs =
     (if length xs > 7 \<and> take 4 xs = [0xF0, 0x00, 0x21, 0x27] \<and> xs ! 4 = 0x5D \<and> xs ! 5 \<in> {0x7f, 0}
      then Native (xs ! 6) (drop 7 xs) else Quiet)"

definition message_of :: "receiver \<Rightarrow> u8 list \<Rightarrow> midi_action" where
  "message_of r xs = Call (of_nat (16 * (running_status r div 16))) (of_nat (running_status r mod 16)) (Some xs)"

definition hear_status :: "u8 \<Rightarrow> receiver \<Rightarrow> receiver" where
  "hear_status b r = r\<lparr>running_status := unat b,
     listening := (case kind_of (unat b) of
        Two_Bytes \<Rightarrow> Await | One_Byte \<Rightarrow> Await | Exclusive \<Rightarrow> Capture [b] | Unknown \<Rightarrow> Ready)\<rparr>"

definition first_data :: "u8 \<Rightarrow> receiver \<Rightarrow> receiver \<times> midi_action" where
  "first_data b r =
     (case kind_of (running_status r) of
        Two_Bytes \<Rightarrow> (r\<lparr>listening := Have b\<rparr>, Quiet)
      | One_Byte \<Rightarrow> (r\<lparr>listening := Ready\<rparr>, message_of r [b, leftover r])
      | Exclusive \<Rightarrow> (r\<lparr>listening := Capture [b, b]\<rparr>, Quiet)
      | Unknown \<Rightarrow> (r, Quiet))"

definition hear :: "u8 \<Rightarrow> receiver \<Rightarrow> receiver \<times> midi_action" where
  "hear b r =
     (if unat b \<ge> 248 then (r, Call 0xF0 (of_nat (unat b - 240)) None)
      else case listening r of
        Ready \<Rightarrow> if unat b \<ge> 128 then (hear_status b r, Quiet) else first_data b r
      | Await \<Rightarrow> first_data b r
      | Have x \<Rightarrow> (r\<lparr>listening := Ready, leftover := b\<rparr>, message_of r [x, b])
      | Capture xs \<Rightarrow>
          let ys = take 4096 (xs @ [b]) in
          if unat b < 128 then (r\<lparr>listening := Capture ys\<rparr>, Quiet)
          else if unat b = 247 then (r\<lparr>listening := Ready\<rparr>, accept_native ys)
          else (hear_status b r, Quiet))"

fun hear_all :: "u8 list \<Rightarrow> receiver \<Rightarrow> receiver \<times> midi_action list" where
  "hear_all [] r = (r, [])"
| "hear_all (b # bs) r = (let (r1, a) = hear b r; (r2, as) = hear_all bs r1 in (r2, a # as))"

lemma hear_all_append:
  "hear_all (xs @ ys) r =
     (let (r1, as) = hear_all xs r; (r2, bs) = hear_all ys r1 in (r2, as @ bs))"
  by (induction xs arbitrary: r) (simp_all add: case_prod_unfold Let_def)

section \<open>What the receiver does with ordinary messages\<close>

text \<open>A channel message is passed on whatever the two bytes after its status are, status bytes included.\<close>

lemma hear_two:
  assumes "kind_of n = Two_Bytes" and "running_status r = n" and "listening r = Await \<or> listening r = Ready \<and> unat x < 128"
    and "unat x < 248" and "unat y < 248"
  shows "hear_all [x, y] r =
     (r\<lparr>listening := Ready, leftover := y\<rparr>, [Quiet, message_of r [x, y]])"
  using assms by (auto simp: hear_def first_data_def message_of_def)

lemma hear_one:
  assumes "kind_of n = One_Byte" and "running_status r = n" and "listening r = Await \<or> listening r = Ready \<and> unat x < 128"
    and "unat x < 248"
  shows "hear x r = (r\<lparr>listening := Ready\<rparr>, message_of r [x, leftover r])"
  using assms by (auto simp: hear_def first_data_def)

lemma hear_start:
  assumes "128 \<le> unat b" and "unat b < 248" and "listening r = Ready"
  shows "hear b r = (hear_status b r, Quiet)"
  using assms by (simp add: hear_def)

end
