(* ===== verification/Midi_In.thy ===== *)
theory Midi_In
  imports Midi_Out Midi_Spec
begin

text \<open>
  The MIDI input half of \<open>midi.c\<close>: the byte parser (\<open>ProcessStatus\<close>, \<open>ProcessMIDI\<close>) with running
  status and system exclusive capture, the default message handlers with the MIDI clock counter,
  and the acceptance test of native system exclusive messages.

  The parser calls the function pointer \<open>midiMessageHandler\<close>, a parameter \<open>h\<close> here: it gets status,
  channel and the message bytes (\<open>None\<close> is the NULL pointer of real-time messages), and returns a
  value and the new state, or \<open>None\<close> if it dereferences NULL.
\<close>

datatype parse_state = kIdle | kWantByte1of1 | kWantByte1of2 | kWantByte2 | kWantSysex

record midi_parser =
  pstate :: parse_state
  sStatus :: u8
  sChannel :: u8
  sMessage :: "u8 list"
  sysex :: "u8 list"
  sysexCount :: int

text \<open>
  \<open>nativeSysEx\<close> is an observation and no variable of the code: for each message that reaches the \<open>switch\<close>
  of \<open>ProcessNativeSysEx\<close>, whose cases are all empty in this firmware, it records what they are given: the
  code \<open>sysex[6]\<close>, and the bytes from \<open>msg = &sysex[7]\<close> to the end of the captured message, the closing \<open>0xF7\<close>
  included where the buffer had room for it.
\<close>

record midi_in = midi_out +
  parser :: midi_parser
  firstMidiClock :: bool
  masterMIDIClockCounter :: u32
  nativeSysEx :: "(u8 \<times> u8 list) list"

type_synonym 'a handler = "u8 \<Rightarrow> u8 \<Rightarrow> u8 list option \<Rightarrow> 'a \<Rightarrow> (int \<times> 'a) option"

definition sysExIDES :: "u8 list" where "sysExIDES = [0xF0, 0x00, 0x21, 0x27]"
definition kMaxSysex :: int where "kMaxSysex = 4096"

section \<open>The default handlers\<close>

definition DefaultProcessChannelPressure :: "u8 \<Rightarrow> u8 \<Rightarrow> int" where
  "DefaultProcessChannelPressure channel message0 = 0"

definition DefaultProcessCC :: "u8 \<Rightarrow> u8 \<Rightarrow> u8 \<Rightarrow> int" where
  "DefaultProcessCC channel message0 message1 = 0"

definition DefaultProcessPGM :: "u8 \<Rightarrow> u8 \<Rightarrow> int" where
  "DefaultProcessPGM channel message0 = 0"

definition DefaultProcessRealTime :: "u8 \<Rightarrow> 'a midi_in_scheme \<Rightarrow> int \<times> 'a midi_in_scheme" where
  "DefaultProcessRealTime channel s =
     (if channel = 0xA then (0, s\<lparr>firstMidiClock := True\<rparr>)
      else if channel = 0x8 then
        if firstMidiClock s
        then (0, s\<lparr>firstMidiClock := False, masterMIDIClockCounter := 0\<rparr>)
        else let c = masterMIDIClockCounter s + 1 in
          (0, s\<lparr>masterMIDIClockCounter := if c \<ge> 96 * 4 then 0 else c\<rparr>)
      else (0, s))"

definition message_byte :: "u8 list option \<Rightarrow> nat \<Rightarrow> u8 option" where
  "message_byte m i = Option.bind m (\<lambda>xs. if i < length xs then Some (xs ! i) else None)"

definition DefaultMIDIMessageHandler :: "'a midi_in_scheme handler" where
  "DefaultMIDIMessageHandler status channel message s =
     (if status = 0xb0 then do {
        m0 \<leftarrow> message_byte message 0; m1 \<leftarrow> message_byte message 1;
        Some (DefaultProcessCC channel m0 m1, s) }
      else if status = 0xc0 then do {
        m0 \<leftarrow> message_byte message 0; Some (DefaultProcessPGM channel m0, s) }
      else if status = 0xd0 then do {
        m0 \<leftarrow> message_byte message 0; Some (DefaultProcessChannelPressure channel m0, s) }
      else if status = 0xf0 \<and> channel \<ge> 0x8 then Some (DefaultProcessRealTime channel s)
      else Some (0, s))"

section \<open>System exclusive messages\<close>

definition ProcessNativeSysEx :: "u8 list \<Rightarrow> int \<Rightarrow> 'a midi_in_scheme \<Rightarrow> 'a midi_in_scheme" where
  "ProcessNativeSysEx sx count s =
     (if \<not> (count > 5 \<and> sx ! 4 = 0x5D) then s
      else if \<not> (count > 7) then s
      else let ident = sx ! 5 in
        if ident \<noteq> 0x7f \<and> ident \<noteq> 0 then s
        else s\<lparr>nativeSysEx := nativeSysEx s @ [(sx ! 6, drop 7 (take (nat count) sx))]\<rparr>)"

definition ProcessNonRealTimeSystemExclusive :: "u8 list \<Rightarrow> int \<Rightarrow> 'a midi_in_scheme \<Rightarrow> 'a midi_in_scheme" where
  "ProcessNonRealTimeSystemExclusive sx count s = s"

text \<open>The appending of a byte, and the dispatch at the closing \<open>0xF7\<close>.\<close>

definition store_sysex :: "int \<Rightarrow> u8 \<Rightarrow> midi_parser \<Rightarrow> midi_parser" where
  "store_sysex limit b p =
     (if sysexCount p < limit
      then p\<lparr>sysex := (sysex p)[nat (sysexCount p) := b], sysexCount := sysexCount p + 1\<rparr>
      else p)"

definition end_of_sysex :: "'a midi_in_scheme \<Rightarrow> 'a midi_in_scheme" where
  "end_of_sysex s =
     (let p = parser s in
      if sysexCount p > 4 \<and> take 4 (sysex p) = sysExIDES
      then ProcessNativeSysEx (sysex p) (sysexCount p) s
      else if sysexCount p > 2 \<and> sysex p ! 1 = 0x7E
      then ProcessNonRealTimeSystemExclusive (sysex p) (sysexCount p) s
      else s)"

section \<open>The parser\<close>

definition latch_status :: "u8 \<Rightarrow> midi_parser \<Rightarrow> midi_parser" where
  "latch_status b p = (if b AND 0x80 \<noteq> 0 then p\<lparr>sStatus := b AND 0xf0, sChannel := b AND 0x0f\<rparr> else p)"

definition start_sysex :: "u8 \<Rightarrow> midi_parser \<Rightarrow> midi_parser" where
  "start_sysex b p = p\<lparr>pstate := kWantSysex, sysex := (sysex p)[0 := b], sysexCount := 1\<rparr>"

text \<open>\<open>ProcessStatus\<close> up to its final test.\<close>

definition select_state :: "u8 \<Rightarrow> midi_parser \<Rightarrow> midi_parser" where
  "select_state b p =
     (if sStatus p \<in> {0x80, 0x90, 0xa0, 0xb0, 0xe0} then p\<lparr>pstate := kWantByte1of2\<rparr>
      else if sStatus p \<in> {0xc0, 0xd0} then p\<lparr>pstate := kWantByte1of1\<rparr>
      else if sStatus p = 0xf0 \<and> sChannel p = 0 then start_sysex b p
      else p)"

definition with_parser :: "(midi_parser \<Rightarrow> midi_parser) \<Rightarrow> 'a midi_in_scheme \<Rightarrow> 'a midi_in_scheme" where
  "with_parser f s = s\<lparr>parser := f (parser s)\<rparr>"

text \<open>A call of the handler with the message so far, and the return to idle.\<close>

definition dispatch :: "'a midi_in_scheme handler \<Rightarrow> 'a midi_in_scheme \<Rightarrow> (int \<times> 'a midi_in_scheme) option" where
  "dispatch h s =
     map_option (\<lambda>(ret, s). (ret, with_parser (pstate_update (\<lambda>_. kIdle)) s))
       (h (sStatus (parser s)) (sChannel (parser s)) (Some (sMessage (parser s))) s)"

text \<open>A store into the message buffer; one outside it has no defined outcome.\<close>

definition set_message :: "nat \<Rightarrow> u8 \<Rightarrow> 'a midi_in_scheme \<Rightarrow> 'a midi_in_scheme option" where
  "set_message i b s =
     (if i < length (sMessage (parser s))
      then Some (with_parser (\<lambda>p. p\<lparr>sMessage := (sMessage p)[i := b]\<rparr>) s) else None)"

function ProcessStatus :: "'a midi_in_scheme handler \<Rightarrow> u8 \<Rightarrow> 'a midi_in_scheme \<Rightarrow> (int \<times> 'a midi_in_scheme) option"
  and ProcessMIDI :: "'a midi_in_scheme handler \<Rightarrow> u8 \<Rightarrow> 'a midi_in_scheme \<Rightarrow> (int \<times> 'a midi_in_scheme) option"
where
  "ProcessStatus h b s =
     (let s = with_parser (\<lambda>p. select_state b (latch_status b p)) s in
      if \<not> (b AND 0x80 \<noteq> 0) \<and> pstate (parser s) \<noteq> kIdle then ProcessMIDI h b s else Some (0, s))"
| "ProcessMIDI h b s =
     (if b \<ge> 0xF8 then h (b AND 0xf0) (b AND 0x0f) None s
      else case pstate (parser s) of
        kIdle \<Rightarrow> ProcessStatus h b s
      | kWantByte1of1 \<Rightarrow> Option.bind (set_message 0 b s) (dispatch h)
      | kWantByte1of2 \<Rightarrow>
          map_option (\<lambda>s. (0, with_parser (pstate_update (\<lambda>_. kWantByte2)) s)) (set_message 0 b s)
      | kWantByte2 \<Rightarrow> Option.bind (set_message 1 b s) (dispatch h)
      | kWantSysex \<Rightarrow>
          let s = with_parser (store_sysex kMaxSysex b) s in
          if b AND 0x80 \<noteq> 0
          then let s = with_parser (pstate_update (\<lambda>_. kIdle)) s in
            if b \<noteq> 0xf7 then ProcessStatus h b s else Some (0, end_of_sysex s)
          else Some (0, s))"
  by pat_completeness auto

text \<open>
  The two functions call each other at most twice per byte: \<open>ProcessStatus\<close> only passes on a
  data byte, and only when it has left the idle state.
\<close>

termination
  by (relation "measure (\<lambda>x. case x of Inl (h, b, s) \<Rightarrow> 2
        | Inr (h, b, s) \<Rightarrow> if pstate (parser s) = kIdle \<or> b AND 0x80 \<noteq> 0 then 3 else (1 :: nat))")
    (auto split: if_splits)

declare ProcessStatus.simps [simp del] ProcessMIDI.simps [simp del]

definition ProcessMIDIIn :: "'a midi_in_scheme handler \<Rightarrow> u8 \<Rightarrow> 'a midi_in_scheme \<Rightarrow> (int \<times> 'a midi_in_scheme) option" where
  "ProcessMIDIIn h b s = ProcessMIDI h b (s\<lparr>displayBlankCountdown := kTimeToBlank\<rparr>)"

text \<open>A run of the parser over a sequence of bytes.\<close>

definition receive :: "'a midi_in_scheme handler \<Rightarrow> u8 list \<Rightarrow> 'a midi_in_scheme \<Rightarrow> 'a midi_in_scheme option" where
  "receive h = fold_opt (\<lambda>b s. map_option snd (ProcessMIDI h b s))"


section \<open>The contract of a message handler\<close>

text \<open>
  A handler returns whenever it is called the way the parser calls it (both message bytes present,
  or a system message), and neither reads nor writes the parser's variables, which are static to the file.
\<close>

locale message_handler =
  fixes h :: "'a midi_in_scheme handler"
  assumes returns: "st = 0xF0 \<or> (\<exists>m0 m1. m = Some [m0, m1]) \<Longrightarrow> \<exists>r. h st ch m s = Some r"
    and frame: "h st ch m (s\<lparr>parser := p\<rparr>) =
          map_option (\<lambda>(r, s). (r, s\<lparr>parser := p\<rparr>)) (h st ch m s)"

interpretation default_handler: message_handler DefaultMIDIMessageHandler
  by unfold_locales
    (auto simp: DefaultMIDIMessageHandler_def DefaultProcessRealTime_def message_byte_def Let_def
      split: bind_splits)

section \<open>The parser as a flat function of its own variables\<close>

text \<open>
  An intermediate step of the refinement: what a byte makes the parser do, still on the variables of
  the code and with its helper functions, but without the mutual calls: at most one action, on the old
  or the new parser variables.
\<close>

definition sysex_bytes :: "midi_parser \<Rightarrow> u8 list" where
  "sysex_bytes p = take (nat (sysexCount p)) (sysex p)"

definition idle :: "midi_parser \<Rightarrow> midi_parser" where
  "idle = pstate_update (\<lambda>_. kIdle)"

definition put_message :: "nat \<Rightarrow> u8 \<Rightarrow> midi_parser \<Rightarrow> midi_parser" where
  "put_message i b p = p\<lparr>sMessage := (sMessage p)[i := b]\<rparr>"

definition complete :: "midi_parser \<Rightarrow> midi_parser \<times> midi_action" where
  "complete p = (idle p, Call (sStatus p) (sChannel p) (Some (sMessage p)))"

definition parse_data :: "u8 \<Rightarrow> midi_parser \<Rightarrow> midi_parser \<times> midi_action" where
  "parse_data b p =
     (case pstate p of
        kIdle \<Rightarrow> (p, Quiet)
      | kWantByte1of1 \<Rightarrow> complete (put_message 0 b p)
      | kWantByte1of2 \<Rightarrow> ((put_message 0 b p)\<lparr>pstate := kWantByte2\<rparr>, Quiet)
      | kWantByte2 \<Rightarrow> complete (put_message 1 b p)
      | kWantSysex \<Rightarrow> (store_sysex kMaxSysex b p, Quiet))"

definition parse_byte :: "u8 \<Rightarrow> midi_parser \<Rightarrow> midi_parser \<times> midi_action" where
  "parse_byte b p =
     (if b \<ge> 0xF8 then (p, Call 0xF0 (b AND 0x0f) None)
      else if b < 0x80 then parse_data b (if pstate p = kIdle then select_state b p else p)
      else case pstate p of
        kIdle \<Rightarrow> (select_state b (latch_status b p), Quiet)
      | kWantSysex \<Rightarrow>
          let p = idle (store_sysex kMaxSysex b p) in
          if b = 0xF7 then (p, accept_native (sysex_bytes p))
          else (select_state b (latch_status b p), Quiet)
      | _ \<Rightarrow> parse_data b p)"

fun parse_all :: "u8 list \<Rightarrow> midi_parser \<Rightarrow> midi_parser \<times> midi_action list" where
  "parse_all [] p = (p, [])"
| "parse_all (b # bs) p =
     (let (p1, a) = parse_byte b p; (p2, as) = parse_all bs p1 in (p2, a # as))"

fun perform :: "'a midi_in_scheme handler \<Rightarrow> midi_action \<Rightarrow> 'a midi_in_scheme \<Rightarrow> 'a midi_in_scheme option" where
  "perform h Quiet s = Some s"
| "perform h (Call st ch m) s = map_option snd (h st ch m s)"
| "perform h (Native c xs) s = Some (s\<lparr>nativeSysEx := nativeSysEx s @ [(c, xs)]\<rparr>)"

definition outcome ::
    "'a midi_in_scheme handler \<Rightarrow> midi_parser \<times> midi_action \<Rightarrow> 'a midi_in_scheme \<Rightarrow> 'a midi_in_scheme option" where
  "outcome h pa s = perform h (snd pa) (s\<lparr>parser := fst pa\<rparr>)"

text \<open>The well-formed parser states.\<close>

definition parser_inv :: "midi_parser \<Rightarrow> bool" where
  "parser_inv p \<longleftrightarrow> length (sMessage p) = 2 \<and> length (sysex p) = nat kMaxSysex \<and>
     0 \<le> sysexCount p \<and> sysexCount p \<le> kMaxSysex \<and>
     (pstate p = kWantSysex \<longrightarrow> 1 \<le> sysexCount p)"

lemma parser_inv_intros [inv_intros]:
  "parser_inv p \<Longrightarrow> parser_inv (idle p)"
  "parser_inv p \<Longrightarrow> parser_inv (latch_status b p)"
  "parser_inv p \<Longrightarrow> parser_inv (put_message i b p)"
  "parser_inv p \<Longrightarrow> parser_inv (select_state b p)"
  "parser_inv p \<Longrightarrow> parser_inv (store_sysex kMaxSysex b p)"
  "parser_inv p \<Longrightarrow> parser_inv (p\<lparr>pstate := kWantByte2\<rparr>)"
  by (auto simp: parser_inv_def idle_def latch_status_def put_message_def select_state_def
      start_sysex_def store_sysex_def kMaxSysex_def)

lemma parse_byte_inv [inv_intros]: "parser_inv p \<Longrightarrow> parser_inv (fst (parse_byte b p))"
proof -
  assume "parser_inv p"
  then have "parser_inv (fst (parse_data b q))" if "q = p \<or> q = select_state b p" for q
    using that by (auto simp: parse_data_def complete_def split: parse_state.split intro: inv_intros)
  with \<open>parser_inv p\<close> show ?thesis
    by (auto simp: parse_byte_def Let_def split: parse_state.split intro: inv_intros)
qed

lemma parse_all_inv: "parser_inv p \<Longrightarrow> parser_inv (fst (parse_all bs p))"
proof (induction bs arbitrary: p)
  case (Cons b bs)
  from Cons.IH [OF parse_byte_inv [OF Cons.prems]] show ?case by (simp add: case_prod_unfold Let_def)
qed simp

lemma parse_all_append:
  "parse_all (xs @ ys) p =
     (let (p1, as) = parse_all xs p; (p2, bs) = parse_all ys p1 in (p2, as @ bs))"
  by (induction xs arbitrary: p) (simp_all add: case_prod_unfold Let_def)

section \<open>The code computes it\<close>

lemma with_parser_const: "with_parser f s = s\<lparr>parser := f (parser s)\<rparr>"
  by (simp add: with_parser_def)

lemma end_of_sysex_accept:
  assumes "parser_inv (parser s)"
  shows "Some (end_of_sysex s) = perform h (accept_native (sysex_bytes (parser s))) s"
proof -
  define n where "n = nat (sysexCount (parser s))"
  have n: "sysexCount (parser s) = int n" "n \<le> length (sysex (parser s))"
    using assms by (auto simp: parser_inv_def n_def)
  have "take 4 (take n xs) = take 4 xs" if "4 \<le> n" for xs :: "u8 list"
    using that by (simp add: min_def)
  then show ?thesis
    using n
    by (auto simp: end_of_sysex_def accept_native_def sysExIDES_def sysex_bytes_def ProcessNativeSysEx_def
        ProcessNonRealTimeSystemExclusive_def Let_def)
qed

context message_handler
begin

lemma call_parser: "h st ch m (with_parser f s) =
    map_option (\<lambda>(r, t). (r, t\<lparr>parser := f (parser s)\<rparr>)) (h st ch m s)"
  by (simp add: with_parser_def frame)

lemma perform_parser: "perform h a (s\<lparr>parser := p\<rparr>) = map_option (\<lambda>t. t\<lparr>parser := p\<rparr>) (perform h a s)"
  by (cases a) (simp_all add: frame option.map_comp o_def case_prod_unfold)

lemma perform_returns:
  assumes "\<And>st ch m. a = Call st ch m \<Longrightarrow> st = 0xF0 \<or> (\<exists>m0 m1. m = Some [m0, m1])"
  shows "\<exists>t. perform h a s = Some t"
proof (cases a)
  case (Call st ch m)
  obtain r where "h st ch m s = Some r" using returns [OF assms [OF Call]] by blast
  then show ?thesis by (simp add: Call)
qed simp_all

text \<open>One byte: the code's two functions do what the automaton says.\<close>

lemma dispatch_complete:
  "i < length (sMessage (parser s)) \<Longrightarrow>
   map_option snd (Option.bind (set_message i b s) (dispatch h)) = outcome h (complete (put_message i b (parser s))) s"
  by (simp add: dispatch_def set_message_def outcome_def complete_def put_message_def frame
      with_parser_def idle_def option.map_comp o_def case_prod_unfold)

lemma ProcessMIDI_data:
  assumes "b < 0x80" and "pstate (parser s) \<noteq> kIdle" and "length (sMessage (parser s)) = 2"
  shows "map_option snd (ProcessMIDI h b s) = outcome h (parse_data b (parser s)) s"
proof -
  have nb: "\<not> b \<ge> 0xF8" "\<not> (b AND 0x80 \<noteq> 0)"
    using assms(1) by (auto simp: and_80_iff word_less_nat_alt word_le_nat_alt)
  show ?thesis
    using assms(2,3) dispatch_complete [of 0 s b] dispatch_complete [of 1 s b] nb
    by (cases "pstate (parser s)")
      (simp_all add: ProcessMIDI.simps [of h b s] parse_data_def outcome_def set_message_def
        put_message_def with_parser_def Let_def)
qed

lemma ProcessStatus_status:
  "0x80 \<le> b \<Longrightarrow> ProcessStatus h b s = Some (0, with_parser (\<lambda>p. select_state b (latch_status b p)) s)"
  using and_80_iff [of b] by (simp add: ProcessStatus.simps Let_def)

lemma latch_data: "b < 0x80 \<Longrightarrow> latch_status b p = p"
  using and_80_iff [of b] by (simp add: latch_status_def)

lemma ProcessStatus_data:
  assumes "b < 0x80" and "pstate (parser s) = kIdle" and "length (sMessage (parser s)) = 2"
  shows "map_option snd (ProcessStatus h b s) = outcome h (parse_data b (select_state b (parser s))) s"
proof -
  let ?s = "with_parser (select_state b) s"
  have "\<not> (b AND 0x80 \<noteq> 0)" using assms(1) by (auto simp: and_80_iff)
  then have st: "ProcessStatus h b s =
      (if pstate (parser ?s) \<noteq> kIdle then ProcessMIDI h b ?s else Some (0, ?s))"
    by (simp add: ProcessStatus.simps [of h b s] latch_data [OF assms(1)] with_parser_def Let_def)
  show ?thesis
  proof (cases "pstate (parser ?s) = kIdle")
    case True
    then show ?thesis using st by (simp add: parse_data_def outcome_def with_parser_def)
  next
    case False
    have "length (sMessage (parser ?s)) = 2"
      using assms(3) by (simp add: with_parser_def select_state_def start_sysex_def)
    from ProcessMIDI_data [OF assms(1) False this] False show ?thesis
      using st by (simp add: outcome_def with_parser_def)
  qed
qed

lemma ProcessMIDI_automaton:
  assumes "parser_inv (parser s)"
  shows "map_option snd (ProcessMIDI h b s) = outcome h (parse_byte b (parser s)) s"
proof -
  have len: "length (sMessage (parser s)) = 2" using assms by (simp add: parser_inv_def)
  consider "b \<ge> 0xF8" | "b < 0x80" | "0x80 \<le> b" "\<not> b \<ge> 0xF8"
    by (meson linorder_not_le)
  then show ?thesis
  proof cases
    case 1
    have "b AND 0xf0 = 0xF0"
    proof (rule word_unat_eq_iff [THEN iffD2])
      have "unat b div 16 = 15"
        using 1 unat_u8_bound [of b] by (auto simp: word_le_nat_alt intro!: div_nat_eqI)
      then show "unat (b AND 0xf0) = unat (0xF0 :: u8)" by (simp add: unat_high_nibble)
    qed
    then show ?thesis
      using 1 by (simp add: ProcessMIDI.simps [of h b s] parse_byte_def outcome_def)
  next
    case 2
    then have "\<not> b \<ge> 0xF8" by (simp add: word_less_nat_alt word_le_nat_alt)
    then show ?thesis
      using 2 ProcessMIDI_data [OF 2 _ len] ProcessStatus_data [OF 2 _ len]
      by (cases "pstate (parser s) = kIdle") (simp_all add: ProcessMIDI.simps [of h b s] parse_byte_def)
  next
    case 3
    then have b80: "b AND 0x80 \<noteq> 0" "\<not> b < 0x80" by (auto simp: and_80_iff)
    show ?thesis
    proof (cases "pstate (parser s)")
      case kIdle
      with 3 b80 show ?thesis
        by (simp add: ProcessMIDI.simps [of h b s] ProcessStatus_status parse_byte_def outcome_def with_parser_def)
    next
      case kWantSysex
      let ?s = "with_parser (\<lambda>p. idle (store_sysex kMaxSysex b p)) s"
      have inv: "parser_inv (parser ?s)" using assms by (auto simp: with_parser_def intro: inv_intros)
      have "map_option snd (ProcessMIDI h b s) =
          (if b \<noteq> 0xf7 then map_option snd (ProcessStatus h b ?s) else Some (end_of_sysex ?s))"
        using 3 b80 kWantSysex
        by (simp add: ProcessMIDI.simps [of h b s] with_parser_def idle_def Let_def)
      then show ?thesis
        using 3 b80 kWantSysex end_of_sysex_accept [OF inv]
        by (cases "b = 0xF7")
          (auto simp: ProcessStatus_status parse_byte_def outcome_def with_parser_def Let_def)
    qed (use 3 b80 len dispatch_complete [of 0 s b] dispatch_complete [of 1 s b] in
      \<open>simp_all add: ProcessMIDI.simps [of h b s] parse_byte_def parse_data_def outcome_def
         set_message_def put_message_def with_parser_def\<close>)
  qed
qed

lemma parse_byte_calls:
  assumes "parser_inv p" and "snd (parse_byte b p) = Call st ch m"
  shows "st = 0xF0 \<or> (\<exists>m0 m1. m = Some [m0, m1])"
proof -
  have two: "\<exists>m0 m1. xs = [m0, m1]" if "length xs = 2" for xs :: "u8 list"
    using that by (auto simp: numeral_2_eq_2 length_Suc_conv)
  have data: "\<exists>m0 m1. m = Some [m0, m1]"
    if call: "snd (parse_data b q) = Call st ch m" and inv: "parser_inv q" for q
  proof -
    obtain xs where "m = Some xs" "length xs = length (sMessage q)"
      using call by (cases "pstate q") (auto simp: parse_data_def complete_def put_message_def)
    with inv two show ?thesis by (auto simp: parser_inv_def)
  qed
  have "parser_inv (select_state b p)" using assms(1) by (rule inv_intros)
  then show ?thesis
    using assms data [of p] data [of "select_state b p"]
    by (auto simp: parse_byte_def accept_native_def Let_def split: if_splits parse_state.splits)
qed

lemma ProcessMIDI_returns:
  assumes "parser_inv (parser s)"
  shows "\<exists>r s'. ProcessMIDI h b s = Some (r, s') \<and> parser s' = fst (parse_byte b (parser s))"
proof -
  obtain t where "perform h (snd (parse_byte b (parser s))) s = Some t"
    using perform_returns parse_byte_calls [OF assms] by metis
  then have "outcome h (parse_byte b (parser s)) s = Some (t\<lparr>parser := fst (parse_byte b (parser s))\<rparr>)"
    by (simp add: outcome_def perform_parser)
  then have "map_option snd (ProcessMIDI h b s) = Some (t\<lparr>parser := fst (parse_byte b (parser s))\<rparr>)"
    by (simp add: ProcessMIDI_automaton [OF assms])
  then show ?thesis by (cases "ProcessMIDI h b s") auto
qed

text \<open>A sequence of bytes: the parser runs as the automaton, the actions happen in order.\<close>

lemma performs_parser:
  "fold_opt (perform h) as (s\<lparr>parser := p\<rparr>) =
     map_option (\<lambda>t. t\<lparr>parser := p\<rparr>) (fold_opt (perform h) as s)"
proof (induction as arbitrary: s)
  case (Cons a as)
  then show ?case by (cases "perform h a s") (simp_all add: perform_parser)
qed simp

lemma receive_automaton:
  assumes "parser_inv (parser s)"
  shows "receive h bs s = map_option (\<lambda>t. t\<lparr>parser := fst (parse_all bs (parser s))\<rparr>)
     (fold_opt (perform h) (snd (parse_all bs (parser s))) s)"
  using assms
proof (induction bs arbitrary: s)
  case Nil
  then show ?case by (simp add: receive_def)
next
  case (Cons b bs)
  let ?p = "fst (parse_byte b (parser s))" and ?a = "snd (parse_byte b (parser s))"
  have "receive h (b # bs) s = Option.bind (outcome h (parse_byte b (parser s)) s) (receive h bs)"
    using ProcessMIDI_automaton [OF Cons.prems, of b] by (simp add: receive_def)
  also have "\<dots> = Option.bind (perform h ?a s) (\<lambda>t. receive h bs (t\<lparr>parser := ?p\<rparr>))"
    by (cases "perform h ?a s") (simp_all add: outcome_def perform_parser)
  also have "\<dots> = Option.bind (perform h ?a s)
      (\<lambda>t. map_option (\<lambda>t. t\<lparr>parser := fst (parse_all bs ?p)\<rparr>) (fold_opt (perform h) (snd (parse_all bs ?p)) t))"
    using Cons.IH parse_byte_inv [OF Cons.prems, of b]
    by (simp add: performs_parser option.map_comp o_def)
  finally show ?case
    by (cases "perform h ?a s") (simp_all add: case_prod_unfold Let_def)
qed

end

section \<open>The parser implements the receiver\<close>

text \<open>
  How the receiver of \<open>Midi_Spec\<close> reads the variables of the code: the status byte is kept in two
  halves, what the receiver listens for is the parse state with the first message byte or the captured
  part of the system exclusive buffer.
\<close>

definition receiver_of :: "midi_parser \<Rightarrow> receiver" where
  "receiver_of p = \<lparr>running_status = unat (sStatus p) + unat (sChannel p), leftover = sMessage p ! 1,
     listening = (case pstate p of
         kIdle \<Rightarrow> Ready | kWantByte1of1 \<Rightarrow> Await | kWantByte1of2 \<Rightarrow> Await
       | kWantByte2 \<Rightarrow> Have (sMessage p ! 0)
       | kWantSysex \<Rightarrow> Capture (sysex_bytes p))\<rparr>"

text \<open>The two halves are proper, and the number of bytes awaited is that of the status.\<close>

definition parser_coherent :: "midi_parser \<Rightarrow> bool" where
  "parser_coherent p \<longleftrightarrow> unat (sStatus p) mod 16 = 0 \<and> unat (sChannel p) < 16 \<and>
     (pstate p = kWantByte1of1 \<longrightarrow> kind_of (unat (sStatus p) + unat (sChannel p)) = One_Byte) \<and>
     (pstate p = kWantByte1of2 \<longrightarrow> kind_of (unat (sStatus p) + unat (sChannel p)) = Two_Bytes)"

lemma u8_eq_iff: "(b :: u8) = c \<longleftrightarrow> unat b = unat c"
  by (rule word_unat_eq_iff)

lemma kind_of_halves:
  assumes "unat (st :: u8) mod 16 = 0" and "unat (ch :: u8) < 16"
  shows "st \<in> {0x80, 0x90, 0xa0, 0xb0, 0xe0} \<longleftrightarrow> kind_of (unat st + unat ch) = Two_Bytes"
    and "st \<in> {0xc0, 0xd0} \<longleftrightarrow> kind_of (unat st + unat ch) = One_Byte"
    and "st = 0xf0 \<and> ch = 0 \<longleftrightarrow> kind_of (unat st + unat ch) = Exclusive"
proof -
  obtain k where k: "unat st = 16 * k" using assms(1) by (auto elim: dvdE)
  have d: "(unat st + unat ch) div 16 = k" using k assms(2) by simp
  have e: "unat st + unat ch = 240 \<longleftrightarrow> k = 15 \<and> unat ch = 0" using k assms(2) by presburger
  show "st \<in> {0x80, 0x90, 0xa0, 0xb0, 0xe0} \<longleftrightarrow> kind_of (unat st + unat ch) = Two_Bytes"
    "st \<in> {0xc0, 0xd0} \<longleftrightarrow> kind_of (unat st + unat ch) = One_Byte"
    "st = 0xf0 \<and> ch = 0 \<longleftrightarrow> kind_of (unat st + unat ch) = Exclusive"
    unfolding kind_of_def d e by (auto simp: u8_eq_iff k)
qed

lemma message_of_halves:
  assumes "parser_coherent p"
  shows "message_of (receiver_of p) xs = Call (sStatus p) (sChannel p) (Some xs)"
proof -
  obtain k where k: "unat (sStatus p) = 16 * k"
    using assms by (auto simp: parser_coherent_def elim: dvdE)
  have c: "unat (sChannel p) < 16" using assms by (simp add: parser_coherent_def)
  have "16 * (running_status (receiver_of p) div 16) = unat (sStatus p)"
    "running_status (receiver_of p) mod 16 = unat (sChannel p)"
    using k c by (simp_all add: receiver_of_def)
  then show ?thesis by (simp add: message_of_def)
qed

text \<open>A status byte, and the first data byte after one or under running status.\<close>

lemma hear_status_latch:
  assumes "0x80 \<le> b" and "parser_inv p" and "pstate p = kIdle"
  shows "hear_status b (receiver_of p) = receiver_of (select_state b (latch_status b p)) \<and>
    parser_coherent (select_state b (latch_status b p))"
proof -
  let ?q = "p\<lparr>sStatus := b AND 0xf0, sChannel := b AND 0x0f\<rparr>"
  have q: "latch_status b p = ?q" using assms(1) by (simp add: latch_status_def and_80_iff)
  have n: "unat (sStatus ?q) + unat (sChannel ?q) = unat b"
    by (simp add: unat_high_nibble unat_low_nibble)
  have h: "unat (sStatus ?q) mod 16 = 0" "unat (sChannel ?q) < 16"
    by (simp_all add: unat_high_nibble unat_low_nibble)
  note kinds = kind_of_halves [OF h, unfolded n]
  have len: "0 < length (sysex p)" using assms(2) by (simp add: parser_inv_def kMaxSysex_def)
  have start: "sysex_bytes (start_sysex b ?q) = [b]"
    using len by (cases "sysex p") (simp_all add: sysex_bytes_def start_sysex_def)
  show ?thesis
    unfolding q
    by (cases "kind_of (unat b)")
      (use kinds n h start assms(3) in \<open>simp_all add: select_state_def hear_status_def receiver_of_def
        parser_coherent_def start_sysex_def\<close>)
qed

lemma first_data_select:
  assumes "b < 0x80" and "parser_inv p" and "parser_coherent p" and "pstate p = kIdle"
  shows "first_data b (receiver_of p) =
      (receiver_of (fst (parse_data b (select_state b p))), snd (parse_data b (select_state b p))) \<and>
    parser_coherent (fst (parse_data b (select_state b p)))"
proof -
  have h: "unat (sStatus p) mod 16 = 0" "unat (sChannel p) < 16"
    using assms(3) by (simp_all add: parser_coherent_def)
  note kinds = kind_of_halves [OF h]
  obtain x y where xy: "sMessage p = [x, y]"
    using assms(2) by (auto simp: parser_inv_def numeral_2_eq_2 length_Suc_conv)
  obtain u v us where us: "sysex p = u # v # us"
    using assms(2) by (cases "sysex p"; cases "tl (sysex p)") (auto simp: parser_inv_def kMaxSysex_def)
  note msg = message_of_halves [OF assms(3)]
  have r: "running_status (receiver_of p) = unat (sStatus p) + unat (sChannel p)" "leftover (receiver_of p) = y"
    by (simp_all add: receiver_of_def xy)
  show ?thesis
    by (cases "kind_of (unat (sStatus p) + unat (sChannel p))")
      (use kinds h xy us msg r assms(4) in \<open>simp_all add: select_state_def first_data_def parser_coherent_def
        parse_data_def complete_def idle_def put_message_def start_sysex_def store_sysex_def kMaxSysex_def\<close>,
       simp_all add: receiver_of_def sysex_bytes_def)
qed

lemma store_sysex_bytes:
  assumes "parser_inv p"
  shows "sysex_bytes (store_sysex kMaxSysex b p) = take 4096 (sysex_bytes p @ [b])"
proof -
  define n where "n = nat (sysexCount p)"
  have n: "sysexCount p = int n" "n \<le> 4096" and len: "length (sysex p) = 4096"
    using assms by (auto simp: parser_inv_def n_def kMaxSysex_def)
  show ?thesis
  proof (cases "n < 4096")
    case True
    have "take (Suc n) ((sysex p)[n := b]) = take n (sysex p) @ [b]"
      using True len by (simp add: take_Suc_conv_app_nth)
    with True n len show ?thesis
      by (simp add: store_sysex_def sysex_bytes_def kMaxSysex_def nat_add_distrib)
  next
    case False
    with n have "n = 4096" by simp
    with n len show ?thesis by (simp add: store_sysex_def sysex_bytes_def kMaxSysex_def)
  qed
qed

text \<open>Within a message every byte is taken as it comes.\<close>

lemma hear_within:
  assumes inv: "parser_inv p" and coh: "parser_coherent p" and "pstate p \<noteq> kIdle"
    and "unat b < 248" and "pstate p = kWantSysex \<longrightarrow> unat b < 128"
  shows "hear b (receiver_of p) = (receiver_of (fst (parse_data b p)), snd (parse_data b p)) \<and>
    parser_coherent (fst (parse_data b p))"
proof -
  obtain x y where xy: "sMessage p = [x, y]"
    using inv by (auto simp: parser_inv_def numeral_2_eq_2 length_Suc_conv)
  have r: "running_status (receiver_of p) = unat (sStatus p) + unat (sChannel p)" "leftover (receiver_of p) = y"
    by (simp_all add: receiver_of_def xy)
  note msg = message_of_halves [OF coh]
  show ?thesis
  proof (cases "pstate p")
    case kWantSysex
    have l: "listening (receiver_of p) = Capture (sysex_bytes p)"
      using kWantSysex by (simp add: receiver_of_def)
    let ?q = "store_sysex kMaxSysex b p"
    have q: "sStatus ?q = sStatus p" "sChannel ?q = sChannel p" "sMessage ?q = sMessage p" "pstate ?q = pstate p"
      by (simp_all add: store_sysex_def)
    have "receiver_of ?q = (receiver_of p)\<lparr>listening := Capture (take 4096 (sysex_bytes p @ [b]))\<rparr>"
      using kWantSysex store_sysex_bytes [OF inv, of b] by (simp add: receiver_of_def q)
    moreover have "parser_coherent ?q" using coh by (simp add: parser_coherent_def q)
    ultimately show ?thesis
      using l kWantSysex assms(4,5) by (simp add: hear_def parse_data_def Let_def)
  next
    case kWantByte1of1
    let ?q = "p\<lparr>sMessage := [b, y], pstate := kIdle\<rparr>"
    have "parse_data b p = (?q, message_of (receiver_of p) [b, y])"
      using kWantByte1of1 by (simp add: parse_data_def complete_def idle_def put_message_def xy msg)
    moreover have "receiver_of ?q = (receiver_of p)\<lparr>listening := Ready\<rparr>" "parser_coherent ?q"
      using coh by (simp_all add: receiver_of_def xy parser_coherent_def)
    moreover have "listening (receiver_of p) = Await" "kind_of (running_status (receiver_of p)) = One_Byte"
      using coh kWantByte1of1 by (simp_all add: receiver_of_def parser_coherent_def)
    ultimately show ?thesis using assms(4) r by (simp add: hear_def first_data_def)
  next
    case kWantByte1of2
    let ?q = "p\<lparr>sMessage := [b, y], pstate := kWantByte2\<rparr>"
    have "parse_data b p = (?q, Quiet)"
      using kWantByte1of2 by (simp add: parse_data_def put_message_def xy)
    moreover have "receiver_of ?q = (receiver_of p)\<lparr>listening := Have b\<rparr>" "parser_coherent ?q"
      using coh by (simp_all add: receiver_of_def xy parser_coherent_def)
    moreover have "listening (receiver_of p) = Await" "kind_of (running_status (receiver_of p)) = Two_Bytes"
      using coh kWantByte1of2 by (simp_all add: receiver_of_def parser_coherent_def)
    ultimately show ?thesis using assms(4) by (simp add: hear_def first_data_def)
  next
    case kWantByte2
    let ?q = "p\<lparr>sMessage := [x, b], pstate := kIdle\<rparr>"
    have "parse_data b p = (?q, message_of (receiver_of p) [x, b])"
      using kWantByte2 by (simp add: parse_data_def complete_def idle_def put_message_def xy msg)
    moreover have "receiver_of ?q = (receiver_of p)\<lparr>listening := Ready, leftover := b\<rparr>" "parser_coherent ?q"
      using coh by (simp_all add: receiver_of_def xy parser_coherent_def)
    moreover have "listening (receiver_of p) = Have x"
      using kWantByte2 by (simp add: receiver_of_def xy)
    ultimately show ?thesis using assms(4) by (simp add: hear_def)
  qed (use assms(3) in simp)
qed

lemma parse_byte_hear:
  assumes inv: "parser_inv p" and coh: "parser_coherent p"
  shows "hear b (receiver_of p) = (receiver_of (fst (parse_byte b p)), snd (parse_byte b p)) \<and>
    parser_coherent (fst (parse_byte b p))"
proof -
  consider (realtime) "b \<ge> 0xF8" | (data) "b < 0x80" | (status) "0x80 \<le> b" "\<not> b \<ge> 0xF8"
    by (meson linorder_not_le)
  then show ?thesis
  proof cases
    case realtime
    then have n: "248 \<le> unat b" by (simp add: word_le_nat_alt)
    have "unat (b AND 0x0f) = unat b mod 16" by (rule unat_low_nibble)
    also have "\<dots> = unat b - 240" using n unat_u8_bound [of b] by (simp add: mod_if)
    finally have "of_nat (unat (b AND 0x0f)) = (of_nat (unat b - 240) :: u8)" by simp
    then have "b AND 0x0f = of_nat (unat b - 240)" by simp
    then show ?thesis using realtime n coh by (simp add: parse_byte_def hear_def)
  next
    case data
    then have n: "unat b < 128" "\<not> b \<ge> 0xF8" by (auto simp: word_less_nat_alt word_le_nat_alt)
    show ?thesis
    proof (cases "pstate p = kIdle")
      case True
      then show ?thesis
        using first_data_select [OF data inv coh] n data
        by (simp add: parse_byte_def hear_def receiver_of_def)
    next
      case False
      then show ?thesis using n data hear_within [OF inv coh False] by (simp add: parse_byte_def)
    qed
  next
    case status
    then have n: "128 \<le> unat b" "unat b < 248" "\<not> b < 0x80" by (auto simp: word_less_nat_alt word_le_nat_alt)
    have f7: "b = 0xF7 \<longleftrightarrow> unat b = 247" by (simp add: u8_eq_iff)
    show ?thesis
    proof (cases "pstate p")
      case kIdle
      then show ?thesis using hear_status_latch [OF status(1) inv kIdle] n status
        by (simp add: parse_byte_def hear_def) (simp add: receiver_of_def)
    next
      case kWantSysex
      let ?q = "idle (store_sysex kMaxSysex b p)"
      have q: "parser_inv ?q" "pstate ?q = kIdle"
        using inv by (auto intro: inv_intros) (simp add: idle_def)
      have bytes: "sysex_bytes ?q = take 4096 (sysex_bytes p @ [b])"
        using store_sysex_bytes [OF inv, of b] by (simp add: idle_def sysex_bytes_def)
      have l: "listening (receiver_of p) = Capture (sysex_bytes p)"
        using kWantSysex by (simp add: receiver_of_def)
      have r: "receiver_of ?q = (receiver_of p)\<lparr>listening := Ready\<rparr>" "parser_coherent ?q"
        using coh by (simp_all add: receiver_of_def idle_def store_sysex_def parser_coherent_def)
      have "hear_status b (receiver_of ?q) = hear_status b (receiver_of p)"
        by (simp add: r(1) hear_status_def)
      then show ?thesis
        using n status f7 kWantSysex l bytes r hear_status_latch [OF status(1) q]
        by (simp add: parse_byte_def hear_def Let_def)
    qed (use n status hear_within [OF inv coh, of b] in \<open>simp_all add: parse_byte_def\<close>)
  qed
qed

text \<open>A stream of bytes, action by action.\<close>

lemma parse_all_hear:
  assumes "parser_inv p" and "parser_coherent p"
  shows "hear_all bs (receiver_of p) = (receiver_of (fst (parse_all bs p)), snd (parse_all bs p)) \<and>
    parser_coherent (fst (parse_all bs p))"
  using assms
proof (induction bs arbitrary: p)
  case (Cons b bs)
  from parse_byte_hear [OF Cons.prems, of b] Cons.IH [OF parse_byte_inv [OF Cons.prems(1)]]
  show ?case by (simp add: case_prod_unfold Let_def)
qed simp

section \<open>Correctness of the parser\<close>

text \<open>
  the parser is total and keeps its variables well formed on every byte stream: it never indexes
  outside \<open>sMessage\<close> or \<open>sysex\<close>, never makes the handler dereference NULL, and \<open>sysexCount\<close> stays within the
  buffer.
\<close>

theorem receive_total:
  fixes s :: "'a midi_in_scheme"
  assumes "message_handler h" and "parser_inv (parser s)"
  shows "\<exists>s'. receive h bs s = Some s' \<and> parser_inv (parser s')"
  unfolding receive_def
proof (rule fold_opt_total [where P = "\<lambda>s. parser_inv (parser s)"])
  fix b and s :: "'a midi_in_scheme"
  assume "parser_inv (parser s)"
  then show "\<exists>s'. map_option snd (ProcessMIDI h b s) = Some s' \<and> parser_inv (parser s')"
    using message_handler.ProcessMIDI_returns [OF assms(1), of s b] by (auto intro: inv_intros)
qed (rule assms(2))

text \<open>
  C3: the parser of \<open>midi.c\<close> implements the receiver of \<open>Midi_Spec\<close>, an automaton that is defined without the
  code's variables and helper functions: on every byte stream, from every well-formed state and for every
  handler that respects its contract, the parser returns, the handler calls and accepted native
  messages are those of the receiver, with the same arguments and in the same order, nothing else happens to the
  state, and the parser's variables end up standing for the receiver's final state. In
  particular a status byte is split into its upper and its lower half, notes, pressure, controllers and pitch bend
  take two data bytes, program change and channel pressure one, and \<open>0xF8\<close> and above go straight to the handler.
\<close>

theorem ProcessMIDI_refines_automaton:
  assumes "message_handler h" and "parser_inv (parser s)" and "parser_coherent (parser s)"
  shows "\<exists>p s'. fold_opt (perform h) (snd (hear_all bs (receiver_of (parser s)))) s = Some s' \<and>
     receive h bs s = Some (s'\<lparr>parser := p\<rparr>) \<and>
     receiver_of p = fst (hear_all bs (receiver_of (parser s))) \<and>
     parser_inv p \<and> parser_coherent p"
proof -
  let ?p = "fst (parse_all bs (parser s))" and ?as = "snd (parse_all bs (parser s))"
  have run: "receive h bs s = map_option (\<lambda>t. t\<lparr>parser := ?p\<rparr>) (fold_opt (perform h) ?as s)"
    by (rule message_handler.receive_automaton [OF assms(1,2)])
  obtain t where "receive h bs s = Some t" using receive_total [OF assms(1,2)] by blast
  with run obtain s' where "fold_opt (perform h) ?as s = Some s'"
    by (cases "fold_opt (perform h) ?as s") simp_all
  with run parse_all_hear [OF assms(2,3), of bs] parse_all_inv [OF assms(2), of bs] show ?thesis
    by (intro exI [of _ ?p] exI [of _ s']) simp
qed

definition demo_parser :: midi_parser where
  "demo_parser = \<lparr>pstate = kIdle, sStatus = 0, sChannel = 0, sMessage = [0, 0],
     sysex = replicate (nat kMaxSysex) 0, sysexCount = 0\<rparr>"

definition demo_in :: midi_in where
  "demo_in = midi_out.extend demo_midi (midi_in.fields demo_parser False 7 [])"

lemma demo_in_simps [simp]:
  "parser demo_in = demo_parser" "nativeSysEx demo_in = []" "firstMidiClock demo_in = False"
  "masterMIDIClockCounter demo_in = 7"
  by (simp_all add: demo_in_def midi_out.defs midi_in.defs)

lemma parser_inv_demo [simp]: "parser_inv demo_parser"
  by (simp add: parser_inv_def demo_parser_def kMaxSysex_def)

lemma demo_parser_simps [simp]:
  "pstate demo_parser = kIdle" "sStatus demo_parser = 0" "sChannel demo_parser = 0"
  "sMessage demo_parser = [0, 0]" "sysexCount demo_parser = 0"
  by (simp_all add: demo_parser_def)

lemma parser_coherent_demo [simp]: "parser_coherent demo_parser"
  by (simp add: parser_coherent_def)

lemma ProcessMIDI_refines_automaton_witness:
  "\<exists>p. receive DefaultMIDIMessageHandler [0x91, 0x3C, 0x40, 0xFA, 0xC5] demo_in =
       Some (demo_in\<lparr>firstMidiClock := True, parser := p\<rparr>) \<and>
     receiver_of p = \<lparr>running_status = 0xC5, leftover = 0x40, listening = Await\<rparr>"
  using ProcessMIDI_refines_automaton [OF default_handler.message_handler_axioms, of demo_in
      "[0x91, 0x3C, 0x40, 0xFA, 0xC5]"]
  by (auto simp: receiver_of_def [of demo_parser] hear_def hear_status_def first_data_def kind_of_def message_of_def
      DefaultMIDIMessageHandler_def DefaultProcessRealTime_def)

lemma receive_total_witness:
  "\<exists>s'. receive DefaultMIDIMessageHandler [0xB0, 0xFA, 7, 0xF0, 0xF7] demo_in = Some s' \<and> parser_inv (parser s')"
  using receive_total [OF default_handler.message_handler_axioms, of demo_in "[0xB0, 0xFA, 7, 0xF0, 0xF7]"] by simp


section \<open>Decoding channel messages\<close>

definition two_data :: "u8 \<Rightarrow> bool" where
  "two_data st \<longleftrightarrow> st AND 0xf0 \<in> {0x80, 0x90, 0xa0, 0xb0, 0xe0}"

definition one_data :: "u8 \<Rightarrow> bool" where
  "one_data st \<longleftrightarrow> st AND 0xf0 \<in> {0xc0, 0xd0}"

lemma two_data_kind: "two_data st \<longleftrightarrow> kind_of (unat st) = Two_Bytes"
  and one_data_kind: "one_data st \<longleftrightarrow> kind_of (unat st) = One_Byte"
proof -
  have h: "unat (st AND 0xf0) mod 16 = 0" "unat (st AND 0x0f) < 16"
    by (simp_all add: unat_high_nibble unat_low_nibble)
  have "unat (st AND 0xf0) + unat (st AND 0x0f) = unat st"
    by (simp add: unat_high_nibble unat_low_nibble)
  with kind_of_halves [OF h] show "two_data st \<longleftrightarrow> kind_of (unat st) = Two_Bytes"
    "one_data st \<longleftrightarrow> kind_of (unat st) = One_Byte"
    by (simp_all only: two_data_def one_data_def)
qed

lemma high_nibble_range:
  assumes "st AND 0xf0 = (n :: u8)" and "0x80 \<le> n" and "n < 0xF0"
  shows "0x80 \<le> st" and "st < 0xF0" and "\<not> 0xF8 \<le> st" and "\<not> st < 0x80"
proof -
  have n: "unat n = 16 * (unat st div 16)" using assms(1) unat_high_nibble [of st] by simp
  with assms(2) have "128 \<le> unat st" by (simp add: word_le_nat_alt)
  moreover from n assms(3) have "unat st < 240" by (simp add: word_less_nat_alt)
  ultimately show "0x80 \<le> st" "st < 0xF0" "\<not> 0xF8 \<le> st" "\<not> st < 0x80"
    by (simp_all add: word_le_nat_alt word_less_nat_alt)
qed

lemma select_two: "sStatus q \<in> {0x80, 0x90, 0xa0, 0xb0, 0xe0} \<Longrightarrow> select_state b q = q\<lparr>pstate := kWantByte1of2\<rparr>"
  by (simp add: select_state_def)

lemma select_one: "sStatus q \<in> {0xc0, 0xd0} \<Longrightarrow> select_state b q = q\<lparr>pstate := kWantByte1of1\<rparr>"
  by (auto simp: select_state_def)

lemma parse_channel_status:
  assumes "pstate p = kIdle"
  shows "two_data st \<Longrightarrow> parse_byte st p =
      (p\<lparr>sStatus := st AND 0xf0, sChannel := st AND 0x0f, pstate := kWantByte1of2\<rparr>, Quiet)"
    and "one_data st \<Longrightarrow> parse_byte st p =
      (p\<lparr>sStatus := st AND 0xf0, sChannel := st AND 0x0f, pstate := kWantByte1of1\<rparr>, Quiet)"
proof -
  let ?q = "p\<lparr>sStatus := st AND 0xf0, sChannel := st AND 0x0f\<rparr>"
  have q: "sStatus ?q = st AND 0xf0" by simp
  have gen: "parse_byte st p = (select_state st ?q, Quiet)" if "0x80 \<le> st" "\<not> 0xF8 \<le> st" "\<not> st < 0x80"
  proof -
    have "latch_status st p = ?q" unfolding latch_status_def and_80_iff using that by simp
    with that assms show ?thesis by (simp add: parse_byte_def)
  qed
  show "parse_byte st p = (p\<lparr>sStatus := st AND 0xf0, sChannel := st AND 0x0f, pstate := kWantByte1of2\<rparr>, Quiet)"
    if "two_data st"
  proof -
    have "select_state st ?q = ?q\<lparr>pstate := kWantByte1of2\<rparr>"
      by (rule select_two) (use that q in \<open>simp only: two_data_def\<close>)
    moreover have "0x80 \<le> st \<and> \<not> 0xF8 \<le> st \<and> \<not> st < 0x80"
      using that high_nibble_range [of st] unfolding two_data_def by (elim insertE emptyE) auto
    ultimately show ?thesis using gen by simp
  qed
  show "parse_byte st p = (p\<lparr>sStatus := st AND 0xf0, sChannel := st AND 0x0f, pstate := kWantByte1of1\<rparr>, Quiet)"
    if "one_data st"
  proof -
    have "select_state st ?q = ?q\<lparr>pstate := kWantByte1of1\<rparr>"
      by (rule select_one) (use that q in \<open>simp only: one_data_def\<close>)
    moreover have "0x80 \<le> st \<and> \<not> 0xF8 \<le> st \<and> \<not> st < 0x80"
      using that high_nibble_range [of st] unfolding one_data_def by (elim insertE emptyE) auto
    ultimately show ?thesis using gen by simp
  qed
qed

lemma data_not_realtime: "b < 0x80 \<Longrightarrow> \<not> (0xF8 :: u8) \<le> b"
  by (simp add: word_less_nat_alt word_le_nat_alt)

definition pair_bytes :: "(u8 \<times> u8) list \<Rightarrow> u8 list" where
  "pair_bytes ds = concat (map (\<lambda>(x, y). [x, y]) ds)"

text \<open>Pairs of data bytes under a latched two-byte status, from idle or after the status byte.\<close>

lemma parse_pairs:
  assumes "sStatus p \<in> {0x80, 0x90, 0xa0, 0xb0, 0xe0}" and "length (sMessage p) = 2"
    and "\<forall>(x, y)\<in>set ds. x < 0x80 \<and> y < 0x80" and "pstate p \<in> {kIdle, kWantByte1of2}"
  shows "\<exists>p'. parse_all (pair_bytes ds) p =
      (p', concat (map (\<lambda>(x, y). [Quiet, Call (sStatus p) (sChannel p) (Some [x, y])]) ds)) \<and>
      (ds \<noteq> [] \<longrightarrow> pstate p' = kIdle)"
  using assms
proof (induction ds arbitrary: p)
  case Nil
  then show ?case by (simp add: pair_bytes_def)
next
  case (Cons d ds)
  obtain x y where d: "d = (x, y)" by force
  with Cons.prems have xy: "x < 0x80" "y < 0x80" by auto
  note nr = data_not_realtime [OF xy(1)] data_not_realtime [OF xy(2)]
  obtain a b where ab: "sMessage p = [a, b]"
    using Cons.prems(2) by (auto simp: numeral_2_eq_2 length_Suc_conv)
  let ?p1 = "p\<lparr>sMessage := [x, b], pstate := kWantByte2\<rparr>" and ?p2 = "p\<lparr>sMessage := [x, y], pstate := kIdle\<rparr>"
  have 1: "parse_byte x p = (?p1, Quiet)"
    using Cons.prems(1,4) xy nr ab
    by (auto simp: parse_byte_def parse_data_def select_state_def put_message_def)
  have 2: "parse_byte y ?p1 = (?p2, Call (sStatus p) (sChannel p) (Some [x, y]))"
    using xy nr by (simp add: parse_byte_def parse_data_def put_message_def complete_def idle_def)
  obtain p' where p': "parse_all (pair_bytes ds) ?p2 =
      (p', concat (map (\<lambda>(x, y). [Quiet, Call (sStatus p) (sChannel p) (Some [x, y])]) ds))"
      "ds \<noteq> [] \<longrightarrow> pstate p' = kIdle"
    using Cons.IH [of ?p2] Cons.prems by auto
  have "pstate p' = kIdle" using p' by (cases "ds = []") (auto simp: pair_bytes_def)
  then show ?case using 1 2 p' by (simp add: pair_bytes_def d)
qed

lemma parse_singles:
  assumes "sStatus p \<in> {0xc0, 0xd0}" and "length (sMessage p) = 2"
    and "\<forall>x\<in>set ds. x < 0x80" and "pstate p \<in> {kIdle, kWantByte1of1}"
  shows "\<exists>p'. parse_all ds p =
      (p', map (\<lambda>x. Call (sStatus p) (sChannel p) (Some [x, sMessage p ! 1])) ds) \<and>
      (ds \<noteq> [] \<longrightarrow> pstate p' = kIdle)"
  using assms
proof (induction ds arbitrary: p)
  case Nil
  then show ?case by simp
next
  case (Cons x ds)
  then have x: "x < 0x80" by simp
  obtain a b where ab: "sMessage p = [a, b]"
    using Cons.prems(2) by (auto simp: numeral_2_eq_2 length_Suc_conv)
  let ?p1 = "p\<lparr>sMessage := [x, b], pstate := kIdle\<rparr>"
  have 1: "parse_byte x p = (?p1, Call (sStatus p) (sChannel p) (Some [x, b]))"
    using Cons.prems(1,4) x data_not_realtime [OF x] ab
    by (auto simp: parse_byte_def parse_data_def select_state_def put_message_def complete_def idle_def)
  obtain p' where p': "parse_all ds ?p1 =
      (p', map (\<lambda>x. Call (sStatus p) (sChannel p) (Some [x, b])) ds)" "ds \<noteq> [] \<longrightarrow> pstate p' = kIdle"
    using Cons.IH [of ?p1] Cons.prems by auto
  have "pstate p' = kIdle" using p' by (cases "ds = []") auto
  then show ?case using 1 p' ab by simp
qed

text \<open>Performing a list of handler calls with quiet bytes in between.\<close>

definition call_with :: "'a midi_in_scheme handler \<Rightarrow> u8 \<Rightarrow> u8 list \<Rightarrow> 'a midi_in_scheme \<Rightarrow> 'a midi_in_scheme option" where
  "call_with h st xs s = map_option snd (h (st AND 0xf0) (st AND 0x0f) (Some xs) s)"

lemma perform_pairs:
  "fold_opt (perform h) (concat (map (\<lambda>(x, y). [Quiet, Call (st AND 0xf0) (st AND 0x0f) (Some [x, y])]) ds)) s =
     fold_opt (\<lambda>(x, y). call_with h st [x, y]) ds s"
proof (induction ds arbitrary: s)
  case (Cons d ds)
  then show ?case
    by (cases "h (st AND 0xf0) (st AND 0x0f) (Some [fst d, snd d]) s")
      (simp_all add: call_with_def case_prod_unfold)
qed simp

lemma perform_singles:
  "fold_opt (perform h) (map (\<lambda>x. Call (st AND 0xf0) (st AND 0x0f) (Some [x, m])) ds) s =
     fold_opt (\<lambda>x. call_with h st [x, m]) ds s"
proof (induction ds arbitrary: s)
  case (Cons d ds)
  then show ?case
    by (cases "h (st AND 0xf0) (st AND 0x0f) (Some [d, m]) s") (simp_all add: call_with_def)
qed simp


text \<open>
  channel messages are decoded with running status: after one status byte, every complete group of
  data bytes (pairs for note, pressure, controller and pitch messages, single bytes for program change
  and channel pressure) makes exactly one handler call, in order, with that status, channel and data, and
  the parser is idle after each group. The second byte of a one-byte message is whatever the
  buffer held.
\<close>

theorem channel_messages_decoded:
  assumes "message_handler h" and "parser_inv (parser s)" and "pstate (parser s) = kIdle"
    and "\<forall>(x, y)\<in>set ds. x < 0x80 \<and> y < 0x80" and "\<forall>x\<in>set es. x < 0x80"
  shows "(two_data st \<longrightarrow> (\<exists>p. receive h (st # pair_bytes ds) s =
       map_option (\<lambda>t. t\<lparr>parser := p\<rparr>) (fold_opt (\<lambda>(x, y). call_with h st [x, y]) ds s) \<and>
       (ds \<noteq> [] \<longrightarrow> pstate p = kIdle))) \<and>
     (one_data st \<longrightarrow> (\<exists>p. receive h (st # es) s =
       map_option (\<lambda>t. t\<lparr>parser := p\<rparr>)
         (fold_opt (\<lambda>x. call_with h st [x, sMessage (parser s) ! 1]) es s) \<and>
       (es \<noteq> [] \<longrightarrow> pstate p = kIdle)))"
proof (intro conjI impI)
  note run = message_handler.receive_automaton [OF assms(1,2)]
  have len: "length (sMessage (parser s)) = 2" using assms(2) by (simp add: parser_inv_def)
  show "\<exists>p. receive h (st # pair_bytes ds) s =
       map_option (\<lambda>t. t\<lparr>parser := p\<rparr>) (fold_opt (\<lambda>(x, y). call_with h st [x, y]) ds s) \<and>
       (ds \<noteq> [] \<longrightarrow> pstate p = kIdle)" if "two_data st"
  proof -
    let ?p = "(parser s)\<lparr>sStatus := st AND 0xf0, sChannel := st AND 0x0f, pstate := kWantByte1of2\<rparr>"
    have "sStatus ?p \<in> {0x80, 0x90, 0xa0, 0xb0, 0xe0}"
      using that by (simp only: two_data_def midi_parser.simps) simp
    then obtain p' where "parse_all (pair_bytes ds) ?p = (p', concat (map (\<lambda>(x, y).
        [Quiet, Call (st AND 0xf0) (st AND 0x0f) (Some [x, y])]) ds))" "ds \<noteq> [] \<longrightarrow> pstate p' = kIdle"
      using parse_pairs [of ?p ds] len assms(4) by auto
    then show ?thesis
      using run [of "st # pair_bytes ds"] parse_channel_status(1) [OF assms(3) that]
      by (intro exI [of _ p']) (simp add: perform_pairs)
  qed
  show "\<exists>p. receive h (st # es) s = map_option (\<lambda>t. t\<lparr>parser := p\<rparr>)
         (fold_opt (\<lambda>x. call_with h st [x, sMessage (parser s) ! 1]) es s) \<and>
       (es \<noteq> [] \<longrightarrow> pstate p = kIdle)" if "one_data st"
  proof -
    let ?p = "(parser s)\<lparr>sStatus := st AND 0xf0, sChannel := st AND 0x0f, pstate := kWantByte1of1\<rparr>"
    have "sStatus ?p \<in> {0xc0, 0xd0}" using that by (simp only: one_data_def midi_parser.simps) simp
    then obtain p' where "parse_all es ?p = (p', map (\<lambda>x.
        Call (st AND 0xf0) (st AND 0x0f) (Some [x, sMessage (parser s) ! 1])) es)" "es \<noteq> [] \<longrightarrow> pstate p' = kIdle"
      using parse_singles [of ?p es] len assms(5) by auto
    then show ?thesis
      using run [of "st # es"] parse_channel_status(2) [OF assms(3) that]
      by (intro exI [of _ p']) (simp add: perform_singles)
  qed
qed

lemma channel_messages_decoded_witness:
  "\<exists>p. receive DefaultMIDIMessageHandler [0x93, 60, 100, 60, 0] demo_in =
     map_option (\<lambda>t. t\<lparr>parser := p\<rparr>)
       (fold_opt (\<lambda>(x, y). call_with DefaultMIDIMessageHandler 0x93 [x, y]) [(60, 100), (60, 0)] demo_in)"
  using channel_messages_decoded [OF default_handler.message_handler_axioms, of demo_in "[(60, 100), (60, 0)]" "[]" "0x93"]
  by (auto simp: pair_bytes_def two_data_def)

section \<open>Real-time messages\<close>

fun realtime_call :: "midi_action \<Rightarrow> bool" where
  "realtime_call (Call st ch None) = True"
| "realtime_call _ = False"

lemma parse_byte_realtime:
  "realtime_call (snd (parse_byte b p)) \<longleftrightarrow> 0xF8 \<le> b"
  "0xF8 \<le> b \<Longrightarrow> parse_byte b p = (p, Call 0xF0 (b AND 0x0f) None)"
proof -
  have d: "\<not> realtime_call (snd (parse_data b q))" for q
    by (simp add: parse_data_def complete_def split: parse_state.split)
  have n: "\<not> realtime_call (accept_native xs)" for xs
    by (simp add: accept_native_def)
  show "realtime_call (snd (parse_byte b p)) \<longleftrightarrow> 0xF8 \<le> b"
    using d n by (simp add: parse_byte_def Let_def split: parse_state.split)
qed (simp add: parse_byte_def)

lemma parse_all_realtime:
  "parse_all (filter (\<lambda>b. b < 0xF8) bs) p =
     (fst (parse_all bs p), filter (\<lambda>a. \<not> realtime_call a) (snd (parse_all bs p)))"
proof (induction bs arbitrary: p)
  case (Cons b bs)
  show ?case
  proof (cases "0xF8 \<le> b")
    case True
    moreover from True have "\<not> b < 0xF8" by (rule leD)
    ultimately show ?thesis
      using Cons.IH [of p] by (simp add: parse_byte_realtime(2) case_prod_unfold Let_def)
  next
    case False
    with Cons.IH [of "fst (parse_byte b p)"] parse_byte_realtime(1) [of b p] show ?thesis
      by (simp add: case_prod_unfold Let_def not_le)
  qed
qed simp

text \<open>
  system real-time bytes may occur anywhere, also inside another message or a system exclusive
  dump: each is passed to the handler at once, and the parser ends in the same state and takes the
  same other actions as if the real-time bytes had not been there.
\<close>

theorem realtime_transparent:
  assumes "message_handler h" and "parser_inv (parser s)"
  shows "(\<exists>s1 s2. receive h bs s = Some s1 \<and> receive h (filter (\<lambda>b. b < 0xF8) bs) s = Some s2 \<and>
            parser s1 = parser s2) \<and>
     snd (parse_all (filter (\<lambda>b. b < 0xF8) bs) (parser s)) =
       filter (\<lambda>a. \<not> realtime_call a) (snd (parse_all bs (parser s)))"
proof -
  have "\<exists>s'. receive h cs s = Some s' \<and> parser s' = fst (parse_all cs (parser s))" for cs
    using receive_total [OF assms, of cs] message_handler.receive_automaton [OF assms, of cs] by auto
  then obtain s1 s2 where "receive h bs s = Some s1" "parser s1 = fst (parse_all bs (parser s))"
      "receive h (filter (\<lambda>b. b < 0xF8) bs) s = Some s2"
      "parser s2 = fst (parse_all (filter (\<lambda>b. b < 0xF8) bs) (parser s))"
    by meson
  then show ?thesis by (simp add: parse_all_realtime)
qed

lemma realtime_transparent_witness:
  "\<exists>s1 s2. receive DefaultMIDIMessageHandler [0x93, 60, 0xF8, 100] demo_in = Some s1 \<and>
     receive DefaultMIDIMessageHandler [0x93, 60, 100] demo_in = Some s2 \<and> parser s1 = parser s2"
  using realtime_transparent [OF default_handler.message_handler_axioms, of demo_in "[0x93, 60, 0xF8, 100]"]
  by simp


section \<open>System exclusive framing\<close>

lemma parse_sysex_data:
  assumes "parser_inv p" and "pstate p = kWantSysex" and "\<forall>b\<in>set bs. b < 0x80"
    and "length (sysex_bytes p) \<le> 4096"
  shows "\<exists>q. parse_all bs p = (q, replicate (length bs) Quiet) \<and> parser_inv q \<and> pstate q = kWantSysex \<and>
    sysex_bytes q = take 4096 (sysex_bytes p @ bs) \<and> sStatus q = sStatus p \<and> sChannel q = sChannel p"
  using assms
proof (induction bs arbitrary: p)
  case Nil
  then show ?case by simp
next
  case (Cons b bs)
  then have b: "b < 0x80" by simp
  let ?p = "store_sysex kMaxSysex b p"
  have 1: "parse_byte b p = (?p, Quiet)"
    using b data_not_realtime [OF b] Cons.prems(2) by (simp add: parse_byte_def parse_data_def)
  have p: "parser_inv ?p" "pstate ?p = kWantSysex" "sysex_bytes ?p = take 4096 (sysex_bytes p @ [b])"
    using Cons.prems(1,2) by (auto simp: store_sysex_bytes intro: inv_intros) (simp add: store_sysex_def)
  have len: "length (sysex_bytes ?p) \<le> 4096" by (simp add: p(3))
  have "\<forall>b\<in>set bs. b < 0x80" using Cons.prems(3) by simp
  from Cons.IH [OF p(1,2) this len]
  obtain q where "parse_all bs ?p = (q, replicate (length bs) Quiet)" "parser_inv q"
      "pstate q = kWantSysex" "sysex_bytes q = take 4096 (sysex_bytes ?p @ bs)"
      "sStatus q = sStatus ?p" "sChannel q = sChannel ?p"
    by blast
  moreover have "sStatus ?p = sStatus p" "sChannel ?p = sChannel p" by (simp_all add: store_sysex_def)
  moreover have "take 4096 (take 4096 (sysex_bytes p @ [b]) @ bs) = take 4096 (sysex_bytes p @ b # bs)"
    using Cons.prems(4) by (cases "length (sysex_bytes p) = 4096") simp_all
  ultimately show ?case using 1 p(3) by simp
qed

lemma parse_sysex_start:
  assumes "parser_inv p" and "pstate p = kIdle"
  shows "\<exists>q. parse_byte 0xF0 p = (q, Quiet) \<and> parser_inv q \<and> pstate q = kWantSysex \<and>
    sysex_bytes q = [0xF0] \<and> sStatus q = 0xF0 \<and> sChannel q = 0"
proof -
  let ?q = "select_state 0xF0 (latch_status 0xF0 p)"
  have "?q = start_sysex 0xF0 (p\<lparr>sStatus := 0xF0, sChannel := 0\<rparr>)"
    by (simp add: latch_status_def select_state_def)
  moreover have "sysex p \<noteq> []" using assms(1) by (auto simp: parser_inv_def kMaxSysex_def)
  ultimately have "pstate ?q = kWantSysex" "sysex_bytes ?q = [0xF0]" "sStatus ?q = 0xF0" "sChannel ?q = 0"
    by (auto simp: start_sysex_def sysex_bytes_def neq_Nil_conv)
  moreover have "parser_inv ?q" using assms(1) by (intro inv_intros)
  ultimately show ?thesis using assms(2) by (simp add: parse_byte_def)
qed

lemma parse_sysex_end:
  assumes "parser_inv p" and "pstate p = kWantSysex"
  shows "parse_byte 0xF7 p = (idle (store_sysex kMaxSysex 0xF7 p),
     accept_native (take 4096 (sysex_bytes p @ [0xF7])))"
  using assms store_sysex_bytes [OF assms(1)]
  by (simp add: parse_byte_def Let_def idle_def sysex_bytes_def)

text \<open>A whole message from idle: its first 4096 bytes are captured.\<close>

lemma parse_sysex_message:
  assumes "parser_inv p" and "pstate p = kIdle" and "\<forall>b\<in>set bs. b < 0x80"
  shows "\<exists>q. parse_all (0xF0 # bs @ [0xF7]) p =
      (q, replicate (Suc (length bs)) Quiet @ [accept_native (take 4096 (0xF0 # bs @ [0xF7]))]) \<and>
      parser_inv q \<and> pstate q = kIdle \<and> sStatus q = 0xF0 \<and> sChannel q = 0"
proof -
  obtain q1 where q1: "parse_byte 0xF0 p = (q1, Quiet)" "parser_inv q1" "pstate q1 = kWantSysex"
      "sysex_bytes q1 = [0xF0]" "sStatus q1 = 0xF0" "sChannel q1 = 0"
    using parse_sysex_start [OF assms(1,2)] by blast
  obtain q2 where q2: "parse_all bs q1 = (q2, replicate (length bs) Quiet)" "parser_inv q2"
      "pstate q2 = kWantSysex" "sysex_bytes q2 = take 4096 (0xF0 # bs)" "sStatus q2 = 0xF0" "sChannel q2 = 0"
    using parse_sysex_data [OF q1(2,3) assms(3)] q1(4-6) by auto
  have t: "take 4096 (take 4096 (0xF0 # bs) @ [0xF7]) = take 4096 (0xF0 # bs @ [0xF7 :: u8])"
    by (simp add: min_def)
  have "parser_inv (idle (store_sysex kMaxSysex 0xF7 q2))" using q2(2) by (intro inv_intros)
  moreover have "pstate (idle (store_sysex kMaxSysex 0xF7 q2)) = kIdle" by (simp add: idle_def)
  moreover have "sStatus (idle (store_sysex kMaxSysex 0xF7 q2)) = 0xF0"
    "sChannel (idle (store_sysex kMaxSysex 0xF7 q2)) = 0"
    using q2(5,6) by (simp_all add: idle_def store_sysex_def)
  ultimately show ?thesis
    using q1(1) q2(1) parse_sysex_end [OF q2(2,3)] t
    by (simp add: parse_all_append q2(4))
qed

lemma performs_quiet: "fold_opt (perform h) (replicate n Quiet) s = Some s"
  by (induction n) simp_all

lemma and_7f_data: "(b :: u8) AND 0x7f < 0x80"
proof -
  have "b AND 0x7f \<le> 0x7f" by (rule word_and_le1)
  also have "(0x7f :: u8) < 0x80" by simp
  finally show ?thesis .
qed

text \<open>The parser accepts such a frame.\<close>

lemma receive_sysex_frame:
  assumes "message_handler h" and "parser_inv (parser s)" and "pstate (parser s) = kIdle"
    and "(ucast code :: u8) < 0x80"
  shows "\<exists>p. receive h (sysex_frame code bs) s =
     Some (s\<lparr>parser := p, nativeSysEx := nativeSysEx s @
       [(ucast code, take 4089 (map (\<lambda>b. b AND 0x7f) bs @ [0xF7]))]\<rparr>) \<and> pstate p = kIdle"
proof -
  let ?data = "[0x00, 0x21, 0x27, 0x5D, 0, ucast code] @ map (\<lambda>b. b AND 0x7f) bs :: u8 list"
  have frame: "sysex_frame code bs = 0xF0 # ?data @ [0xF7]" by (simp add: sysex_frame_def)
  have "\<forall>b\<in>set ?data. b < 0x80" using assms(4) and_7f_data by auto
  then obtain q where q: "parse_all (sysex_frame code bs) (parser s) =
      (q, replicate (Suc (length ?data)) Quiet @ [accept_native (take 4096 (sysex_frame code bs))])" "pstate q = kIdle"
    unfolding frame using parse_sysex_message [OF assms(2,3)] by blast
  have "accept_native (take 4096 (sysex_frame code bs)) =
      Native (ucast code) (take 4089 (map (\<lambda>b. b AND 0x7f) bs @ [0xF7]))"
    by (simp add: sysex_frame_def accept_native_def sysExIDES_def)
  with message_handler.receive_automaton [OF assms(1,2), of "sysex_frame code bs"] q
  show ?thesis by (intro exI [of _ q]) (simp add: fold_opt_append performs_quiet del: replicate.simps)
qed

text \<open>
  C16: what \<open>sendBytes\<close> sends, \<open>ProcessMIDI\<close> accepts. On a responsive device \<open>sendBytes\<close> returns, after the
  pending display transfer, and the bytes that have gone out on the MIDI port followed by the bytes left in
  the queue are what was queued before followed by one message. A parser that is idle and reads that
  message (with a seven-bit code) hands to \<open>ProcessNativeSysEx\<close> one message with that code and the data
  reduced to seven bits, followed by the closing \<open>0xF7\<close>, of which the 4096-byte buffer keeps the first 4089
  bytes; it changes nothing else and is idle again.
\<close>

theorem sysex_loopback:
  assumes "responsive dev" and "midi_ok t" and "displayBytesToSend t \<le> 512"
    and "message_handler h" and "parser_inv (parser s)" and "pstate (parser s) = kIdle"
    and "(ucast code :: u8) < 0x80"
  shows "\<exists>t1 t' sent frame p. flushDisplayWrite dev t = Some t1 \<and> sendBytes dev code bs t = Some t' \<and>
     trace t' = trace t1 @ uart4 sent \<and> sent @ midi_queued t' = midi_queued t1 @ frame \<and>
     receive h frame s = Some (s\<lparr>parser := p, nativeSysEx := nativeSysEx s @
       [(ucast code, take 4089 (map (\<lambda>b. b AND 0x7f) bs @ [0xF7]))]\<rparr>) \<and> pstate p = kIdle"
proof -
  obtain t1 t' where "flushDisplayWrite dev t = Some t1" "sendBytes dev code bs t = Some t'"
      "moved t1 t' (sysex_frame code bs)"
    using sendBytes_frame [OF assms(1-3)] by blast
  moreover from this obtain sent where "trace t' = trace t1 @ uart4 sent"
      "sent @ midi_queued t' = midi_queued t1 @ sysex_frame code bs"
    by (auto simp: moved_def)
  ultimately show ?thesis using receive_sysex_frame [OF assms(4-7), of bs] by blast
qed

lemma sysex_loopback_witness:
  "\<exists>t1 t' sent frame s'. flushDisplayWrite ready_device demo_midi = Some t1 \<and>
     sendBytes ready_device 0x32 [0x48, 0xE9] demo_midi = Some t' \<and>
     trace t' = trace t1 @ uart4 sent \<and> sent @ midi_queued t' = midi_queued t1 @ frame \<and>
     receive DefaultMIDIMessageHandler frame demo_in = Some s' \<and> nativeSysEx s' = [(0x32, [0x48, 0x69, 0xF7])]"
  using sysex_loopback [OF responsive_ready_device _ _ default_handler.message_handler_axioms, of demo_midi demo_in
      "0x32" "[0x48, 0xE9]"]
  by (simp, elim exE conjE) (intro exI conjI, assumption+, simp)

section \<open>The MIDI clock\<close>

lemma receive_Cons:
  "receive h (b # bs) s = Option.bind (map_option snd (ProcessMIDI h b s)) (receive h bs)"
  by (simp add: receive_def)

lemma receive_clock:
  "receive DefaultMIDIMessageHandler (replicate n 0xF8) s =
     (if n = 0 then Some s
      else if firstMidiClock s
      then receive DefaultMIDIMessageHandler (replicate (n - 1) 0xF8)
             (s\<lparr>firstMidiClock := False, masterMIDIClockCounter := 0\<rparr>)
      else receive DefaultMIDIMessageHandler (replicate (n - 1) 0xF8)
             (let c = masterMIDIClockCounter s + 1 in
              s\<lparr>masterMIDIClockCounter := if c \<ge> 384 then 0 else c\<rparr>))"
  by (cases n)
    (simp_all add: receive_def ProcessMIDI.simps DefaultMIDIMessageHandler_def DefaultProcessRealTime_def Let_def)

text \<open>
  after a Start message the \<open>n\<close>th MIDI clock leaves the master clock counter at \<open>n - 1\<close> modulo
  384 (four bars of 96 clocks), and clocks change nothing else.
\<close>

theorem MIDI_clock_counts:
  "receive DefaultMIDIMessageHandler (0xFA # replicate (Suc n) 0xF8) s =
     Some (s\<lparr>firstMidiClock := False, masterMIDIClockCounter := of_nat (n mod 384)\<rparr>)"
proof -
  have "receive DefaultMIDIMessageHandler (replicate n 0xF8)
      (s\<lparr>firstMidiClock := False, masterMIDIClockCounter := of_nat (k mod 384)\<rparr>) =
    Some (s\<lparr>firstMidiClock := False, masterMIDIClockCounter := of_nat ((k + n) mod 384)\<rparr>)" for k
  proof (induction n arbitrary: k)
    case 0
    then show ?case by (simp add: receive_def)
  next
    case (Suc n)
    have lt: "k mod 384 < 384" by simp
    then have u: "unat (of_nat (Suc (k mod 384)) :: u32) = Suc (k mod 384)"
      by (simp add: unat_of_nat del: of_nat_Suc)
    have "(if (384 :: u32) \<le> of_nat (Suc (k mod 384)) then 0 else of_nat (Suc (k mod 384)) :: u32) =
        of_nat (Suc k mod 384)"
      using u lt by (auto simp: word_le_nat_alt mod_Suc simp del: of_nat_Suc)
    then have "(if (of_nat (k mod 384) + 1 :: u32) \<ge> 384 then 0 else of_nat (k mod 384) + 1 :: u32) =
        of_nat (Suc k mod 384)"
      by (simp only: of_nat_Suc add.commute)
    then show ?case using Suc.IH [of "Suc k"] by (subst receive_clock) (simp add: Let_def)
  qed
  from this [of 0] show ?thesis
    by (simp add: receive_Cons ProcessMIDI.simps DefaultMIDIMessageHandler_def DefaultProcessRealTime_def)
qed

section \<open>Departures from the MIDI specification\<close>

text \<open>After a channel status the parser is the receiver that awaits its data, whatever the running status was.\<close>

lemma receive_after_status:
  assumes "message_handler h" and "parser_inv (parser s)" and "pstate (parser s) = kIdle"
    and "two_data st \<or> one_data st"
    and "hear_all bs ((receiver_of (parser s))\<lparr>running_status := unat st, listening := Await\<rparr>) = (r, as)"
  shows "\<exists>p. receive h (st # bs) s = map_option (\<lambda>t. t\<lparr>parser := p\<rparr>) (fold_opt (perform h) as s) \<and>
     receiver_of p = r"
proof -
  let ?q = "select_state st (latch_status st (parser s))"
  have st: "0x80 \<le> st \<and> st < 0xF0"
    using assms(4) high_nibble_range [of st] unfolding two_data_def one_data_def by (elim disjE insertE emptyE) auto
  then have ge: "0x80 \<le> st" "\<not> st < 0x80" "\<not> 0xF8 \<le> st"
    by (auto simp: word_le_nat_alt word_less_nat_alt)
  have pb: "parse_byte st (parser s) = (?q, Quiet)" using ge assms(3) by (simp add: parse_byte_def)
  have q: "receiver_of ?q = hear_status st (receiver_of (parser s))" "parser_coherent ?q"
    using hear_status_latch [OF ge(1) assms(2,3)] by auto
  have inv: "parser_inv ?q" using assms(2) by (intro inv_intros)
  have "kind_of (unat st) = Two_Bytes \<or> kind_of (unat st) = One_Byte"
    using assms(4) by (simp add: two_data_kind one_data_kind)
  then have "hear_status st (receiver_of (parser s)) =
      (receiver_of (parser s))\<lparr>running_status := unat st, listening := Await\<rparr>"
    by (auto simp: hear_status_def)
  with parse_all_hear [OF inv q(2), of bs] q(1) assms(5)
  have "parse_all bs ?q = (fst (parse_all bs ?q), as)" "receiver_of (fst (parse_all bs ?q)) = r"
    by (simp_all add: prod_eq_iff)
  then show ?thesis
    using message_handler.receive_automaton [OF assms(1,2), of "st # bs"] pb
    by (intro exI [of _ "fst (parse_all bs ?q)"]) (cases "parse_all bs ?q"; simp)
qed

lemma message_of_status: "running_status r = unat st \<Longrightarrow> message_of r xs = Call (st AND 0xf0) (st AND 0x0f) (Some xs)"
  by (simp add: message_of_def flip: unat_high_nibble unat_low_nibble)

text \<open>
  C27: a status byte that arrives in the middle of a message is taken as its data. After a status byte
  of a note, pressure, controller or pitch message the next two bytes below \<open>0xF8\<close> make one handler call
  with that status, whether they are data or status bytes, and after program change or channel pressure
  the next one does. So a message that interrupts an incomplete one is lost: its status byte becomes the second
  data byte of the first, and its own data bytes are decoded under the first one's status.
\<close>

theorem interrupting_status_is_data:
  assumes "message_handler h" and "parser_inv (parser s)" and "pstate (parser s) = kIdle"
    and "x < 0xF8" and "y < 0xF8" and "0x80 \<le> st'" and "st' < 0xF8" and "x' < 0x80" and "y' < 0x80"
  shows "(two_data st \<longrightarrow>
       (\<exists>p. receive h [st, x, y] s = map_option (\<lambda>t. t\<lparr>parser := p\<rparr>) (call_with h st [x, y] s) \<and>
            pstate p = kIdle) \<and>
       (\<exists>p. receive h [st, x, st', x', y'] s = map_option (\<lambda>t. t\<lparr>parser := p\<rparr>)
              (Option.bind (call_with h st [x, st'] s) (call_with h st [x', y'])) \<and> pstate p = kIdle)) \<and>
     (one_data st \<longrightarrow>
       (\<exists>p. receive h [st, x] s = map_option (\<lambda>t. t\<lparr>parser := p\<rparr>)
              (call_with h st [x, sMessage (parser s) ! 1] s) \<and> pstate p = kIdle))"
proof -
  let ?r = "(receiver_of (parser s))\<lparr>running_status := unat st, listening := Await\<rparr>"
  have n: "unat x < 248" "unat y < 248" "unat st' < 248" "unat x' < 128" "unat y' < 128"
    using assms(4-9) by (simp_all add: word_less_nat_alt)
  have idle: "listening (receiver_of p) = Ready \<Longrightarrow> pstate p = kIdle" for p
    by (simp add: receiver_of_def split: parse_state.splits)
  have left: "leftover (receiver_of (parser s)) = sMessage (parser s) ! 1" by (simp add: receiver_of_def)
  note run = receive_after_status [OF assms(1-3)]
  show ?thesis
  proof (intro conjI impI)
    assume two: "two_data st"
    then have k: "kind_of (unat st) = Two_Bytes" by (simp add: two_data_kind)
    have "hear_all [x, y] ?r = (?r\<lparr>listening := Ready, leftover := y\<rparr>, [Quiet, message_of ?r [x, y]])"
      using n k by (intro hear_two) simp_all
    from run [OF disjI1 [OF two] this] idle
    show "\<exists>p. receive h [st, x, y] s = map_option (\<lambda>t. t\<lparr>parser := p\<rparr>) (call_with h st [x, y] s) \<and> pstate p = kIdle"
      by (auto simp: message_of_status call_with_def fold_opt_Nil)
    let ?r1 = "?r\<lparr>listening := Ready, leftover := st'\<rparr>"
    have "hear_all [x, st'] ?r = (?r1, [Quiet, message_of ?r [x, st']])"
      using n k by (intro hear_two) simp_all
    moreover have "hear_all [x', y'] ?r1 =
        (?r1\<lparr>listening := Ready, leftover := y'\<rparr>, [Quiet, message_of ?r1 [x', y']])"
      using n k by (intro hear_two) simp_all
    ultimately have "hear_all ([x, st'] @ [x', y']) ?r =
        (?r1\<lparr>listening := Ready, leftover := y'\<rparr>,
         [Quiet, message_of ?r [x, st'], Quiet, message_of ?r1 [x', y']])"
      by (simp only: hear_all_append) simp
    from run [OF disjI1 [OF two] this] obtain p where
      "receive h [st, x, st', x', y'] s = map_option (\<lambda>t. t\<lparr>parser := p\<rparr>) (fold_opt (perform h)
         [Quiet, message_of ?r [x, st'], Quiet, message_of ?r1 [x', y']] s)" "pstate p = kIdle"
      using idle by auto
    then show "\<exists>p. receive h [st, x, st', x', y'] s = map_option (\<lambda>t. t\<lparr>parser := p\<rparr>)
              (Option.bind (call_with h st [x, st'] s) (call_with h st [x', y'])) \<and> pstate p = kIdle"
      by (intro exI [of _ p], cases "h (st AND 0xf0) (st AND 0x0f) (Some [x, st']) s")
        (simp_all add: message_of_status call_with_def fold_opt_Nil)
  next
    assume one: "one_data st"
    then have "hear x ?r = (?r\<lparr>listening := Ready\<rparr>, message_of ?r [x, leftover ?r])"
      using n by (intro hear_one) (simp_all add: one_data_kind)
    then have "hear_all [x] ?r = (?r\<lparr>listening := Ready\<rparr>, [message_of ?r [x, sMessage (parser s) ! 1]])"
      by (simp add: left)
    from run [OF disjI2 [OF one] this] idle
    show "\<exists>p. receive h [st, x] s = map_option (\<lambda>t. t\<lparr>parser := p\<rparr>)
              (call_with h st [x, sMessage (parser s) ! 1] s) \<and> pstate p = kIdle"
      by (auto simp: message_of_status call_with_def fold_opt_Nil)
  qed
qed

lemma interrupting_status_is_data_witness:
  "\<exists>p. receive DefaultMIDIMessageHandler [0x90, 0x3C, 0x80, 0x3C, 0x40] demo_in =
     Some (demo_in\<lparr>parser := p\<rparr>)"
  using interrupting_status_is_data [OF default_handler.message_handler_axioms, of demo_in "0x3C" "0x40" "0x80" "0x3C" "0x40" "0x90"]
  by (auto simp: call_with_def DefaultMIDIMessageHandler_def two_data_def)

text \<open>
  the end of a system exclusive message does not clear the running status, so a stray data byte
  that follows one starts a new capture, in which that byte is stored twice, and the
  following data bytes are swallowed until the next status byte.
\<close>

theorem stray_byte_starts_sysex:
  assumes "message_handler h" and "parser_inv (parser s)" and "pstate (parser s) = kIdle"
    and "\<forall>b\<in>set bs. b < 0x80" and "b < 0x80"
  shows "\<exists>s1 s2. receive h (0xF0 # bs @ [0xF7]) s = Some s1 \<and> pstate (parser s1) = kIdle \<and>
     receive h [b] s1 = Some s2 \<and> pstate (parser s2) = kWantSysex \<and> sysex_bytes (parser s2) = [b, b]"
proof -
  obtain q as where q: "parse_all (0xF0 # bs @ [0xF7]) (parser s) = (q, as)" "parser_inv q" "pstate q = kIdle"
      "sStatus q = 0xF0" "sChannel q = 0"
    using parse_sysex_message [OF assms(2-4)] by blast
  obtain s1 where s1: "receive h (0xF0 # bs @ [0xF7]) s = Some s1" "parser s1 = q"
    using receive_total [OF assms(1,2), of "0xF0 # bs @ [0xF7]"]
      message_handler.receive_automaton [OF assms(1,2), of "0xF0 # bs @ [0xF7]"] q(1) by auto
  let ?q2 = "store_sysex kMaxSysex b (start_sysex b q)"
  have p2: "parse_byte b q = (?q2, Quiet)"
    using assms(5) data_not_realtime [OF assms(5)] q(3-5)
    by (simp add: parse_byte_def parse_data_def select_state_def start_sysex_def)
  obtain s2 where s2: "receive h [b] s1 = Some s2" "parser s2 = ?q2"
    using receive_total [OF assms(1), of s1 "[b]"] message_handler.receive_automaton [OF assms(1), of s1 "[b]"]
      q(2) s1(2) p2 by auto
  obtain x y xs where "sysex q = x # y # xs"
    using q(2) by (cases "sysex q"; cases "tl (sysex q)") (auto simp: parser_inv_def kMaxSysex_def)
  then have "sysex_bytes ?q2 = [b, b]"
    by (simp add: sysex_bytes_def store_sysex_def start_sysex_def kMaxSysex_def)
  moreover have "pstate ?q2 = kWantSysex" by (simp add: store_sysex_def start_sysex_def)
  ultimately show ?thesis using s1 s2 q(3) by auto
qed

lemma stray_byte_starts_sysex_witness:
  "\<exists>s1 s2. receive DefaultMIDIMessageHandler [0xF0, 0x7E, 0xF7] demo_in = Some s1 \<and>
     receive DefaultMIDIMessageHandler [5] s1 = Some s2 \<and> sysex_bytes (parser s2) = [5, 5]"
  using stray_byte_starts_sysex [OF default_handler.message_handler_axioms, of demo_in "[0x7E]" 5] by auto

end
