(* ===== verification/Recall.thy ===== *)
theory Recall
  imports Midi_In
begin

text \<open>
  \<open>recall.c\<close>: the second byte parser, which serves the select bus. It shares its shape and its
  variables' types with the parser of \<open>midi.c\<close> but is separate code with its own static variables, a
  20-byte system exclusive buffer, a Save/Load interpretation of some messages, and no special
  treatment of real-time bytes.
\<close>

record recall = midi_in +
  recallParser :: midi_parser
  saveMode :: bool

definition kMaxRecallSysex :: int where "kMaxRecallSysex = 20"

definition with_recall :: "(midi_parser \<Rightarrow> midi_parser) \<Rightarrow> 'a recall_scheme \<Rightarrow> 'a recall_scheme" where
  "with_recall f s = s\<lparr>recallParser := f (recallParser s)\<rparr>"

definition call_handler :: "'a recall_scheme handler \<Rightarrow> 'a recall_scheme \<Rightarrow> (int \<times> 'a recall_scheme) option" where
  "call_handler h s =
     (let p = recallParser s in h (sStatus p) (sChannel p) (Some (sMessage p)) s)"

text \<open>The state selection of \<open>Recall_ProcessStatus\<close> for every status that does not call the handler.\<close>

definition select_recall :: "u8 \<Rightarrow> midi_parser \<Rightarrow> midi_parser" where
  "select_recall b p =
     (if sStatus p \<in> {0x80, 0x90, 0xa0, 0xb0, 0xe0} then p\<lparr>pstate := kWantByte1of2\<rparr>
      else if sStatus p \<in> {0xc0, 0xd0} then p\<lparr>pstate := kWantByte1of1\<rparr>
      else if sStatus p = 0xf0 then
        if sChannel p = 0x4 then p\<lparr>pstate := kWantByte1of1\<rparr>
        else if sChannel p = 0x0 then start_sysex b p
        else p
      else p)"

definition passed_on :: "midi_parser \<Rightarrow> bool" where
  "passed_on p \<longleftrightarrow> sStatus p = 0xf0 \<and> sChannel p \<noteq> 0x4 \<and> sChannel p \<noteq> 0x0"

definition Recall_Save :: "u8 \<Rightarrow> int" where "Recall_Save slot = 1"
definition Recall_Load :: "u8 \<Rightarrow> int" where "Recall_Load slot = 0"

definition Recall_ProcessMessage :: "'a recall_scheme handler \<Rightarrow> 'a recall_scheme \<Rightarrow> (int \<times> 'a recall_scheme) option" where
  "Recall_ProcessMessage h s =
     (let p = recallParser s; m0 = sMessage p ! 0; m1 = sMessage p ! 1 in
      if sChannel p = 0 then
        if sStatus p = 0xb0 \<and> m0 = 16 then Some (0, s\<lparr>saveMode := (m1 = 127)\<rparr>)
        else if sStatus p = 0xc0 then Some (if saveMode s then Recall_Save m0 else Recall_Load m0, s)
        else call_handler h s
      else if sStatus p OR sChannel p = 0xF4 then Some (if m0 < 0x40 then Recall_Save m0 else 0, s)
      else call_handler h s)"

definition set_recall :: "nat \<Rightarrow> u8 \<Rightarrow> 'a recall_scheme \<Rightarrow> 'a recall_scheme option" where
  "set_recall i b s =
     (if i < length (sMessage (recallParser s))
      then Some (with_recall (\<lambda>p. p\<lparr>sMessage := (sMessage p)[i := b]\<rparr>) s) else None)"

definition finish_message :: "'a recall_scheme handler \<Rightarrow> nat \<Rightarrow> u8 \<Rightarrow> 'a recall_scheme \<Rightarrow> (int \<times> 'a recall_scheme) option" where
  "finish_message h i b s =
     map_option (\<lambda>(ret, s). (ret, with_recall (pstate_update (\<lambda>_. kIdle)) s))
       (Option.bind (set_recall i b s) (Recall_ProcessMessage h))"

definition end_of_recall_sysex :: "'a recall_scheme \<Rightarrow> 'a recall_scheme" where
  "end_of_recall_sysex s =
     (let p = recallParser s in
      if sysexCount p > 4 \<and> take 4 (sysex p) = sysExIDES
      then ProcessNativeSysEx (sysex p) (sysexCount p) s else s)"

function Recall_ProcessStatus :: "'a recall_scheme handler \<Rightarrow> u8 \<Rightarrow> 'a recall_scheme \<Rightarrow> (int \<times> 'a recall_scheme) option"
  and Recall_ProcessMIDI :: "'a recall_scheme handler \<Rightarrow> u8 \<Rightarrow> 'a recall_scheme \<Rightarrow> (int \<times> 'a recall_scheme) option"
where
  "Recall_ProcessStatus h b s =
     (let s = with_recall (latch_status b) s in
      if passed_on (recallParser s) then call_handler h s
      else let s = with_recall (select_recall b) s in
        if \<not> (b AND 0x80 \<noteq> 0) \<and> pstate (recallParser s) \<noteq> kIdle then Recall_ProcessMIDI h b s
        else Some (0, s))"
| "Recall_ProcessMIDI h b s =
     (case pstate (recallParser s) of
        kIdle \<Rightarrow> Recall_ProcessStatus h b s
      | kWantByte1of1 \<Rightarrow> finish_message h 0 b s
      | kWantByte1of2 \<Rightarrow>
          map_option (\<lambda>s. (0, with_recall (pstate_update (\<lambda>_. kWantByte2)) s)) (set_recall 0 b s)
      | kWantByte2 \<Rightarrow> finish_message h 1 b s
      | kWantSysex \<Rightarrow>
          let s = with_recall (store_sysex kMaxRecallSysex b) s in
          if b AND 0x80 \<noteq> 0
          then let s = with_recall (pstate_update (\<lambda>_. kIdle)) s in
            if b \<noteq> 0xf7 then Recall_ProcessStatus h b s else Some (0, end_of_recall_sysex s)
          else Some (0, s))"
  by pat_completeness auto

termination
  by (relation "measure (\<lambda>x. case x of Inl (h, b, s) \<Rightarrow> 2
        | Inr (h, b, s) \<Rightarrow> if pstate (recallParser s) = kIdle \<or> b AND 0x80 \<noteq> 0 then 3 else (1 :: nat))")
    (auto split: if_splits)

declare Recall_ProcessStatus.simps [simp del] Recall_ProcessMIDI.simps [simp del]

definition recall_all :: "'a recall_scheme handler \<Rightarrow> u8 list \<Rightarrow> 'a recall_scheme \<Rightarrow> 'a recall_scheme option" where
  "recall_all h = fold_opt (\<lambda>b s. map_option snd (Recall_ProcessMIDI h b s))"

section \<open>Invariant\<close>

text \<open>A handler that serves this parser too must leave these variables alone as well.\<close>

locale recall_handler = message_handler h for h :: "'a recall_scheme handler" +
  assumes recall_frame: "h st ch m (s\<lparr>recallParser := p\<rparr>) =
          map_option (\<lambda>(r, s). (r, s\<lparr>recallParser := p\<rparr>)) (h st ch m s)"

interpretation default_recall: recall_handler DefaultMIDIMessageHandler
  by unfold_locales
    (auto simp: DefaultMIDIMessageHandler_def DefaultProcessRealTime_def message_byte_def Let_def
      split: bind_splits)

definition recall_inv :: "midi_parser \<Rightarrow> bool" where
  "recall_inv p \<longleftrightarrow> length (sMessage p) = 2 \<and> length (sysex p) = nat kMaxRecallSysex \<and>
     0 \<le> sysexCount p \<and> sysexCount p \<le> kMaxRecallSysex \<and>
     (pstate p = kWantSysex \<longrightarrow> 1 \<le> sysexCount p)"

lemma recall_inv_intros [inv_intros]:
  "recall_inv p \<Longrightarrow> recall_inv (p\<lparr>pstate := kIdle\<rparr>)"
  "recall_inv p \<Longrightarrow> recall_inv (latch_status b p)"
  "recall_inv p \<Longrightarrow> recall_inv (p\<lparr>sMessage := (sMessage p)[i := b]\<rparr>)"
  "recall_inv p \<Longrightarrow> recall_inv (p\<lparr>sMessage := (sMessage p)[i := b], pstate := kWantByte2\<rparr>)"
  "recall_inv p \<Longrightarrow> recall_inv (select_recall b p)"
  "recall_inv p \<Longrightarrow> recall_inv (store_sysex kMaxRecallSysex b p)"
  by (auto simp: recall_inv_def latch_status_def select_recall_def
      start_sysex_def store_sysex_def kMaxRecallSysex_def)

lemma ProcessNativeSysEx_recall [simp]:
  "recallParser (ProcessNativeSysEx xs n s) = recallParser s"
  by (simp add: ProcessNativeSysEx_def Let_def)

context recall_handler
begin

text \<open>What a step has to do: return, and keep the parser variables well formed.\<close>

definition fine :: "(int \<times> 'a recall_scheme) option \<Rightarrow> bool" where
  "fine r \<longleftrightarrow> (\<exists>ret s'. r = Some (ret, s') \<and> recall_inv (recallParser s'))"

lemma fine_Some [simp]: "fine (Some (r, s)) \<longleftrightarrow> recall_inv (recallParser s)"
  by (auto simp: fine_def)

lemma fine_call:
  assumes "recall_inv (recallParser s)" shows "fine (call_handler h s)"
proof -
  let ?p = "recallParser s"
  have "\<exists>m0 m1. Some (sMessage ?p) = Some [m0, m1]"
    using assms by (auto simp: recall_inv_def numeral_2_eq_2 length_Suc_conv)
  then obtain r s' where "h (sStatus ?p) (sChannel ?p) (Some (sMessage ?p)) s = Some (r, s')"
    using returns [of "sStatus ?p" "Some (sMessage ?p)" "sChannel ?p" s] by auto
  moreover have "recallParser s' = ?p"
    using recall_frame [of "sStatus ?p" "sChannel ?p" "Some (sMessage ?p)" ?p s] calculation
    by simp (metis recall.select_convs(1) recall.surjective recall.update_convs(1))
  ultimately show ?thesis using assms by (simp add: call_handler_def fine_def Let_def)
qed

lemma fine_message:
  assumes "recall_inv (recallParser s)" shows "fine (Recall_ProcessMessage h s)"
  using assms fine_call [OF assms] by (simp add: Recall_ProcessMessage_def Let_def)

lemma set_recall_1:
  "recall_inv (recallParser s) \<Longrightarrow>
   set_recall 0 b s = Some (with_recall (\<lambda>p. p\<lparr>sMessage := (sMessage p)[0 := b]\<rparr>) s)"
  by (simp add: set_recall_def recall_inv_def)

lemma fine_finish:
  assumes "recall_inv (recallParser s)" and "i < 2" shows "fine (finish_message h i b s)"
proof -
  have "set_recall i b s = Some (with_recall (\<lambda>p. p\<lparr>sMessage := (sMessage p)[i := b]\<rparr>) s)"
    using assms by (simp add: set_recall_def recall_inv_def)
  moreover
  have "fine (Recall_ProcessMessage h (with_recall (\<lambda>p. p\<lparr>sMessage := (sMessage p)[i := b]\<rparr>) s))"
    by (rule fine_message) (use assms in \<open>auto simp: with_recall_def intro: inv_intros\<close>)
  ultimately show ?thesis by (auto simp: finish_message_def fine_def with_recall_def intro: inv_intros)
qed

lemma fine_step:
  assumes "recall_inv (recallParser s)"
  shows "fine (Recall_ProcessMIDI h b s)"
proof -
  have busy: "fine (Recall_ProcessMIDI h b s)"
    if "recall_inv (recallParser s)" "pstate (recallParser s) \<noteq> kIdle" "b AND 0x80 = 0" for s
    using that fine_finish
    by (cases "pstate (recallParser s)")
      (auto simp: Recall_ProcessMIDI.simps [of h b s] set_recall_1 with_recall_def Let_def intro: inv_intros)
  have status: "fine (Recall_ProcessStatus h b s)" if inv: "recall_inv (recallParser s)" for s
  proof -
    have l: "recall_inv (latch_status b (recallParser s))" using inv by (intro inv_intros)
    moreover have "recall_inv (select_recall b (latch_status b (recallParser s)))"
      using inv by (intro inv_intros)
    ultimately show ?thesis
      using busy fine_call inv
      by (auto simp: Recall_ProcessStatus.simps [of h b s] with_recall_def Let_def)
  qed
  have stored: "recall_inv ((store_sysex kMaxRecallSysex b (recallParser s))\<lparr>pstate := kIdle\<rparr>)"
    using assms by (intro inv_intros)
  show ?thesis
    using assms fine_finish [OF assms, of 0 b] fine_finish [OF assms, of 1 b] status stored
    by (cases "pstate (recallParser s)")
      (auto simp: Recall_ProcessMIDI.simps [of h b s] set_recall_1 with_recall_def end_of_recall_sysex_def Let_def
        intro: inv_intros)
qed

end


text \<open>
  C23: the select-bus parser is total and keeps its variables well formed on every byte stream, with its
  own 20-byte system exclusive buffer.
\<close>

theorem recall_total:
  fixes s :: "'a recall_scheme"
  assumes "recall_handler h" and "recall_inv (recallParser s)"
  shows "\<exists>s'. recall_all h bs s = Some s' \<and> recall_inv (recallParser s')"
  unfolding recall_all_def
proof (rule fold_opt_total [where P = "\<lambda>s. recall_inv (recallParser s)"])
  fix b and s :: "'a recall_scheme"
  assume "recall_inv (recallParser s)"
  then have "recall_handler.fine (Recall_ProcessMIDI h b s)"
    by (rule recall_handler.fine_step [OF assms(1)])
  then show "\<exists>s'. map_option snd (Recall_ProcessMIDI h b s) = Some s' \<and> recall_inv (recallParser s')"
    by (auto simp: recall_handler.fine_def [OF assms(1)])
qed (rule assms(2))

definition demo_recall :: recall where
  "demo_recall = midi_in.extend demo_in
     (recall.fields (demo_parser\<lparr>sysex := replicate 20 0\<rparr>) False)"

lemma demo_recall_simps [simp]:
  "recallParser demo_recall = demo_parser\<lparr>sysex := replicate 20 0\<rparr>" "saveMode demo_recall = False"
  "masterMIDIClockCounter demo_recall = 7" "firstMidiClock demo_recall = False"
  by (simp_all add: demo_recall_def midi_in.defs recall.defs demo_in_def midi_out.defs)

lemma demo_recall_inv [simp]: "recall_inv (recallParser demo_recall)"
  by (simp add: recall_inv_def kMaxRecallSysex_def)

lemma recall_total_witness:
  "\<exists>s'. recall_all DefaultMIDIMessageHandler [0xB0, 16, 127, 0xC0, 3] demo_recall = Some s'"
  using recall_total [OF default_recall.recall_handler_axioms demo_recall_inv] by blast

section \<open>The select bus commands\<close>

text \<open>
  C24: from idle the commands of the bus are recognised without calling the message handler: controller
  16 on channel 1 turns save mode on exactly for the value 127; a program change on channel 1 returns
  the save result exactly in save mode; and \<open>0xF4 n\<close> saves exactly for \<open>n\<close> below \<open>0x40\<close>.
  Save mode changes in no other of these cases, and the parser is idle after each.
\<close>

theorem recall_commands:
  assumes "pstate (recallParser s) = kIdle" and "length (sMessage (recallParser s)) = 2"
  shows "(\<exists>p. recall_all h [0xB0, 16, v] s = Some (s\<lparr>recallParser := p, saveMode := (v = 127)\<rparr>) \<and> pstate p = kIdle) \<and>
     (\<exists>p s1. recall_all h [0xC0] s = Some s1 \<and> Recall_ProcessMIDI h n s1 =
        Some (if saveMode s then 1 else 0, s\<lparr>recallParser := p\<rparr>) \<and> pstate p = kIdle) \<and>
     (\<exists>p s1. recall_all h [0xF4] s = Some s1 \<and> Recall_ProcessMIDI h n s1 =
        Some (if n < 0x40 then 1 else 0, s\<lparr>recallParser := p\<rparr>) \<and> pstate p = kIdle)"
proof -
  obtain a b where ab: "sMessage (recallParser s) = [a, b]"
    using assms(2) by (auto simp: numeral_2_eq_2 length_Suc_conv)
  note simps = recall_all_def Recall_ProcessMIDI.simps Recall_ProcessStatus.simps Recall_ProcessMessage_def
    finish_message_def set_recall_def with_recall_def latch_status_def select_recall_def passed_on_def
    Recall_Save_def Recall_Load_def Let_def assms(1) ab
  show ?thesis
  proof (intro conjI)
    show "\<exists>p. recall_all h [0xB0, 16, v] s = Some (s\<lparr>recallParser := p, saveMode := (v = 127)\<rparr>) \<and> pstate p = kIdle"
      by (simp add: simps)
        (intro exI [of _ "(recallParser s)\<lparr>sStatus := 0xB0, sChannel := 0, sMessage := [16, v], pstate := kIdle\<rparr>"], simp)
    show "\<exists>p s1. recall_all h [0xC0] s = Some s1 \<and> Recall_ProcessMIDI h n s1 =
        Some (if saveMode s then 1 else 0, s\<lparr>recallParser := p\<rparr>) \<and> pstate p = kIdle"
      by (simp add: simps)
        (intro exI [of _ "(recallParser s)\<lparr>sStatus := 0xC0, sChannel := 0, sMessage := [n, b], pstate := kIdle\<rparr>"], simp)
    show "\<exists>p s1. recall_all h [0xF4] s = Some s1 \<and> Recall_ProcessMIDI h n s1 =
        Some (if n < 0x40 then 1 else 0, s\<lparr>recallParser := p\<rparr>) \<and> pstate p = kIdle"
      by (simp add: simps)
        (intro exI [of _ "(recallParser s)\<lparr>sStatus := 0xF0, sChannel := 4, sMessage := [n, b], pstate := kIdle\<rparr>"], simp)
  qed
qed

lemma recall_commands_witness:
  "\<exists>p. recall_all DefaultMIDIMessageHandler [0xB0, 16, 127] demo_recall =
     Some (demo_recall\<lparr>recallParser := p, saveMode := True\<rparr>)"
  using recall_commands [of demo_recall DefaultMIDIMessageHandler 127 0] by auto

text \<open>
  unlike \<open>ProcessMIDI\<close>, this parser does not treat real-time bytes apart. A clock byte inside a
  controller message is taken as its first data byte, so that message is lost; and data bytes
  after a clock byte repeat the handler call of the clock: each advances the MIDI clock counter again.
\<close>

theorem recall_realtime_mishandled:
  assumes "pstate (recallParser s) = kIdle" and "length (sMessage (recallParser s)) = 2"
    and "masterMIDIClockCounter s < 300" and "\<not> firstMidiClock s"
  shows "(\<exists>p. recall_all DefaultMIDIMessageHandler [0xB0, 0xF8, 16, 127] s = Some (s\<lparr>recallParser := p\<rparr>) \<and>
        pstate p = kWantByte2) \<and>
     (\<exists>p. recall_all DefaultMIDIMessageHandler [0xF8, 5] s =
        Some (s\<lparr>recallParser := p, masterMIDIClockCounter := masterMIDIClockCounter s + 2\<rparr>))"
proof -
  obtain a b where ab: "sMessage (recallParser s) = [a, b]"
    using assms(2) by (auto simp: numeral_2_eq_2 length_Suc_conv)
  have u: "unat (masterMIDIClockCounter s) < 300" using assms(3) by (simp add: word_less_nat_alt)
  have "unat (masterMIDIClockCounter s + 1) = unat (masterMIDIClockCounter s) + 1"
    "unat (masterMIDIClockCounter s + 2) = unat (masterMIDIClockCounter s) + 2"
    using u by (simp_all add: unat_word_ariths)
  then have c: "\<not> 384 \<le> masterMIDIClockCounter s + 1" "\<not> 384 \<le> masterMIDIClockCounter s + 2"
    using u by (simp_all add: word_le_nat_alt)
  from c(2) have c2: "\<not> 384 \<le> 2 + masterMIDIClockCounter s" by (simp only: add.commute not_False_eq_True)
  note simps = recall_all_def Recall_ProcessMIDI.simps Recall_ProcessStatus.simps Recall_ProcessMessage_def
    finish_message_def set_recall_def with_recall_def latch_status_def select_recall_def passed_on_def call_handler_def
    DefaultMIDIMessageHandler_def DefaultProcessRealTime_def DefaultProcessCC_def message_byte_def Let_def assms(1,4) ab
  show ?thesis
  proof
    show "\<exists>p. recall_all DefaultMIDIMessageHandler [0xB0, 0xF8, 16, 127] s = Some (s\<lparr>recallParser := p\<rparr>) \<and>
        pstate p = kWantByte2"
      by (simp add: simps)
        (intro exI [of _ "(recallParser s)\<lparr>sStatus := 0xB0, sChannel := 0, sMessage := [127, 16], pstate := kWantByte2\<rparr>"], simp)
    show "\<exists>p. recall_all DefaultMIDIMessageHandler [0xF8, 5] s =
        Some (s\<lparr>recallParser := p, masterMIDIClockCounter := masterMIDIClockCounter s + 2\<rparr>)"
    proof -
      have "recall_all DefaultMIDIMessageHandler [0xF8, 5] s =
          Some (s\<lparr>recallParser := (recallParser s)\<lparr>sStatus := 0xF0, sChannel := 8\<rparr>,
                  masterMIDIClockCounter := 2 + masterMIDIClockCounter s\<rparr>)"
        using c c2 by (simp add: simps)
      then show ?thesis unfolding add.commute [of 2 "masterMIDIClockCounter s"] by blast
    qed
  qed
qed

lemma recall_realtime_mishandled_witness:
  "\<exists>p. recall_all DefaultMIDIMessageHandler [0xF8, 5] demo_recall =
     Some (demo_recall\<lparr>recallParser := p, masterMIDIClockCounter := 9\<rparr>)"
  using recall_realtime_mishandled [of demo_recall] by simp

end
