(* ===== verification/I2C_Slave.thy ===== *)
theory I2C_Slave
  imports Recall
begin

text \<open>
  The I2C slave of \<open>i2c.c\<close>: the interrupt handler, which queues received bytes and addresses and
  answers reads from a 4-byte response buffer, and the command protocol, a state machine fed with the
  queued values by the main loop: an address (a negative value) starts a command, whose length
  depends on its first byte and, for the two MIDI pass-through commands, on the MIDI status byte.
\<close>

section \<open>The command codes\<close>

text \<open>The enumeration of \<open>i2c.h\<close>.\<close>

abbreviation (input) kI2C_set_controller :: int where "kI2C_set_controller \<equiv> 0x11"
abbreviation (input) kI2C_load_preset :: int where "kI2C_load_preset \<equiv> 0x40"
abbreviation (input) kI2C_save_preset :: int where "kI2C_save_preset \<equiv> 0x41"
abbreviation (input) kI2C_reset_preset :: int where "kI2C_reset_preset \<equiv> 0x42"
abbreviation (input) kI2C_get_current_preset :: int where "kI2C_get_current_preset \<equiv> 0x43"
abbreviation (input) kI2C_load_algorithm :: int where "kI2C_load_algorithm \<equiv> 0x44"
abbreviation (input) kI2C_get_current_algorithm :: int where "kI2C_get_current_algorithm \<equiv> 0x45"
abbreviation (input) kI2C_set_parameter_abs :: int where "kI2C_set_parameter_abs \<equiv> 0x46"
abbreviation (input) kI2C_set_parameter_cont :: int where "kI2C_set_parameter_cont \<equiv> 0x47"
abbreviation (input) kI2C_get_parameter_value :: int where "kI2C_get_parameter_value \<equiv> 0x48"
abbreviation (input) kI2C_get_parameter_min :: int where "kI2C_get_parameter_min \<equiv> 0x49"
abbreviation (input) kI2C_get_parameter_max :: int where "kI2C_get_parameter_max \<equiv> 0x4A"
abbreviation (input) kI2C_WAV_Recorder_record :: int where "kI2C_WAV_Recorder_record \<equiv> 0x4B"
abbreviation (input) kI2C_WAV_Recorder_play :: int where "kI2C_WAV_Recorder_play \<equiv> 0x4C"
abbreviation (input) kI2C_Augustus_Loop_set_pitch :: int where "kI2C_Augustus_Loop_set_pitch \<equiv> 0x4D"
abbreviation (input) kI2C_Augustus_Loop_send_clock :: int where "kI2C_Augustus_Loop_send_clock \<equiv> 0x4E"
abbreviation (input) kI2C_send_MIDI_message :: int where "kI2C_send_MIDI_message \<equiv> 0x4F"
abbreviation (input) kI2C_send_Select_Bus_message :: int where "kI2C_send_Select_Bus_message \<equiv> 0x50"
abbreviation (input) kI2C_voice_pitch :: int where "kI2C_voice_pitch \<equiv> 0x51"
abbreviation (input) kI2C_voice_note_on :: int where "kI2C_voice_note_on \<equiv> 0x52"
abbreviation (input) kI2C_voice_note_off :: int where "kI2C_voice_note_off \<equiv> 0x53"
abbreviation (input) kI2C_note_pitch :: int where "kI2C_note_pitch \<equiv> 0x54"
abbreviation (input) kI2C_note_on :: int where "kI2C_note_on \<equiv> 0x55"
abbreviation (input) kI2C_note_off :: int where "kI2C_note_off \<equiv> 0x56"
abbreviation (input) kI2C_all_notes_off :: int where "kI2C_all_notes_off \<equiv> 0x57"
abbreviation (input) kI2C_Looper_clear :: int where "kI2C_Looper_clear \<equiv> 0x58"
abbreviation (input) kI2C_Looper_get_state :: int where "kI2C_Looper_get_state \<equiv> 0x59"
abbreviation (input) kI2C_dual_get_parameter_value :: int where "kI2C_dual_get_parameter_value \<equiv> 0x5A"
abbreviation (input) kI2C_dual_get_parameter_min :: int where "kI2C_dual_get_parameter_min \<equiv> 0x5B"
abbreviation (input) kI2C_dual_get_parameter_max :: int where "kI2C_dual_get_parameter_max \<equiv> 0x5C"
abbreviation (input) kI2C_dual_set_parameter_abs :: int where "kI2C_dual_set_parameter_abs \<equiv> 0x5D"
abbreviation (input) kI2C_dual_set_parameter_cont :: int where "kI2C_dual_set_parameter_cont \<equiv> 0x5E"
abbreviation (input) kI2C_dual_get_current_algorithm :: int where "kI2C_dual_get_current_algorithm \<equiv> 0x5F"
abbreviation (input) kI2C_dual_load_algorithm :: int where "kI2C_dual_load_algorithm \<equiv> 0x60"
abbreviation (input) kI2C_dual_get_current_algorithms :: int where "kI2C_dual_get_current_algorithms \<equiv> 0x61"
abbreviation (input) kI2C_dual_load_algorithms :: int where "kI2C_dual_load_algorithms \<equiv> 0x62"
abbreviation (input) kI2C_dual_load_preset :: int where "kI2C_dual_load_preset \<equiv> 0x63"
abbreviation (input) kI2C_dual_save_preset :: int where "kI2C_dual_save_preset \<equiv> 0x64"
abbreviation (input) kI2C_dual_takeover_z :: int where "kI2C_dual_takeover_z \<equiv> 0x65"
abbreviation (input) kI2C_dual_get_z :: int where "kI2C_dual_get_z \<equiv> 0x66"
abbreviation (input) kI2C_set_ES5 :: int where "kI2C_set_ES5 \<equiv> 0x67"

definition i2c_commands :: "int list" where
  "i2c_commands = [
     kI2C_set_controller, kI2C_load_preset, kI2C_save_preset, kI2C_reset_preset, kI2C_get_current_preset,
     kI2C_load_algorithm, kI2C_get_current_algorithm, kI2C_set_parameter_abs, kI2C_set_parameter_cont,
     kI2C_get_parameter_value, kI2C_get_parameter_min, kI2C_get_parameter_max, kI2C_WAV_Recorder_record,
     kI2C_WAV_Recorder_play, kI2C_Augustus_Loop_set_pitch, kI2C_Augustus_Loop_send_clock, kI2C_send_MIDI_message,
     kI2C_send_Select_Bus_message, kI2C_voice_pitch, kI2C_voice_note_on, kI2C_voice_note_off, kI2C_note_pitch,
     kI2C_note_on, kI2C_note_off, kI2C_all_notes_off, kI2C_Looper_clear, kI2C_Looper_get_state,
     kI2C_dual_get_parameter_value, kI2C_dual_get_parameter_min, kI2C_dual_get_parameter_max,
     kI2C_dual_set_parameter_abs, kI2C_dual_set_parameter_cont, kI2C_dual_get_current_algorithm,
     kI2C_dual_load_algorithm, kI2C_dual_get_current_algorithms, kI2C_dual_load_algorithms,
     kI2C_dual_load_preset, kI2C_dual_save_preset, kI2C_dual_takeover_z, kI2C_dual_get_z, kI2C_set_ES5]"

section \<open>State\<close>

datatype i2c_state =
    kI2CIdle | kWantByte1 | kWantByte2of4 | kWantByte3of4 | kWantByte4of4
  | kWantByte2of2 | kWantByte2of3 | kWantByte3of3 | kWantByte2ofN

record i2c = recall +
  i2cState :: i2c_state
  i2cMsg :: "u8 list"
  i2cResponse :: "u8 list"
  i2cResponseIndex :: u8
  i2cResponseSize :: u8
  recallIgnoreBytes :: u8
  i2cRxQueue :: "int ring"

definition i2c_wrap :: "int \<Rightarrow> int" where "i2c_wrap i = (i + 1) AND 255"

interpretation iq: ring_index 256 i2c_wrap
  by unfold_locales (simp_all add: i2c_wrap_def idx_simps)

section \<open>The interrupt handler\<close>

definition i2c_enqueue :: "int \<Rightarrow> 'a i2c_scheme \<Rightarrow> 'a i2c_scheme" where
  "i2c_enqueue x s =
     (let q = i2cRxQueue s in
      if ring_read q = ring_write q then s
      else s\<lparr>i2cRxQueue := q\<lparr>ring_slots := (ring_slots q)[nat (ring_write q) := x],
                              ring_write := i2c_wrap (ring_write q)\<rparr>\<rparr>)"

text \<open>
  The interrupt flag, the status bits \<open>R_W\<close>, \<open>D_A\<close> and \<open>I2COV\<close> and the received byte are arguments. The slave's clock is
  released after a byte is written; a read beyond the response switches the module off and on.
\<close>

definition answer_read :: "'a i2c_scheme \<Rightarrow> 'a i2c_scheme" where
  "answer_read s =
     (if i2cResponseIndex s < i2cResponseSize s
      then wr I2C4CONSET (BIT 12)
             (wr I2C4TRN (byte_value (i2cResponse s ! unat (i2cResponseIndex s)))
               (s\<lparr>i2cResponseIndex := i2cResponseIndex s + 1\<rparr>))
      else wr I2C4CONSET (BIT 15) (wr I2C4CONCLR (BIT 15) s))"

definition I2C4SlaveInterruptHandler ::
    "bool \<Rightarrow> bool \<Rightarrow> bool \<Rightarrow> bool \<Rightarrow> u8 \<Rightarrow> 'a i2c_scheme \<Rightarrow> 'a i2c_scheme" where
  "I2C4SlaveInterruptHandler flagged r_w d_a i2cov rcv s =
     (if flagged then
        let s = (if r_w then i2c_enqueue (-0x100) (answer_read s)
                 else if \<not> d_a then i2c_enqueue (- uint rcv) s
                 else i2c_enqueue (uint rcv) s);
            s = (if i2cov then wr I2C4STAT_I2COV 0 s else s)
        in wr IFS_I2C_4_SLAVE 0 s
      else s)"

section \<open>The commands\<close>

text \<open>The number of bytes of the MIDI message with status \<open>st\<close>; \<open>None\<close> for system exclusive.\<close>

definition midi_numBytes :: "u8 \<Rightarrow> nat option" where
  "midi_numBytes st =
     (let hi = st AND 0xf0; lo = st AND 0x0f in
      if hi \<in> {0x80, 0x90, 0xa0, 0xb0, 0xe0} then Some 3
      else if hi \<in> {0xc0, 0xd0} then Some 2
      else if hi = 0xf0 then
        (if lo = 0x0 then None
         else if lo \<in> {0x1, 0x3} then Some 2
         else if lo = 0x2 then Some 3
         else Some 1)
      else Some 1)"

definition select_send :: "device \<Rightarrow> u8 \<Rightarrow> 'a i2c_scheme \<Rightarrow> 'a i2c_scheme option" where
  "select_send dev b s = do { s \<leftarrow> wait_while dev U2_UTXBF s; Some (wr U2TXREG (byte_value b) s) }"

text \<open>The reads of \<open>i2cMsg[ 1 + i ]\<close>; one outside the buffer has no defined outcome.\<close>

definition message_slice :: "nat \<Rightarrow> 'a i2c_scheme \<Rightarrow> u8 list option" where
  "message_slice n s =
     (if n < length (i2cMsg s) then Some (map (\<lambda>i. i2cMsg s ! (1 + i)) [0..<n]) else None)"

definition ProcessI2CMIDICommand :: "device \<Rightarrow> 'a i2c_scheme \<Rightarrow> 'a i2c_scheme option" where
  "ProcessI2CMIDICommand dev s =
     (let cmd = uint (i2cMsg s ! 0) in
      case midi_numBytes (i2cMsg s ! 1) of
        None \<Rightarrow> Some s
      | Some numBytes \<Rightarrow> do {
          bytes \<leftarrow> message_slice numBytes s;
          if cmd = kI2C_send_MIDI_message then fold_opt (BlockingQueueMIDI1 dev) bytes s
          else if cmd = kI2C_send_Select_Bus_message then do {
            s \<leftarrow> fold_opt (select_send dev) bytes s;
            Some (s\<lparr>recallIgnoreBytes := recallIgnoreBytes s + of_nat numBytes\<rparr>) }
          else Some s })"

text \<open>In the following dispatches the branches that are empty in the source return the state.\<close>

definition ProcessI2C4byteCommand :: "device \<Rightarrow> 'a i2c_scheme \<Rightarrow> 'a i2c_scheme option" where
  "ProcessI2C4byteCommand dev s =
     (let cmd = uint (i2cMsg s ! 0) in
      if cmd = kI2C_set_controller then Some s
      else if cmd \<ge> kI2C_set_parameter_abs \<and> cmd \<le> kI2C_set_parameter_cont then Some s
      else if (cmd \<ge> kI2C_voice_pitch \<and> cmd \<le> kI2C_voice_note_on) \<or>
              (cmd \<ge> kI2C_note_pitch \<and> cmd \<le> kI2C_note_on) then Some s
      else if cmd \<ge> kI2C_send_MIDI_message \<and> cmd \<le> kI2C_send_Select_Bus_message
      then ProcessI2CMIDICommand dev s
      else Some s)"

definition ProcessI2C3byteCommand :: "device \<Rightarrow> 'a i2c_scheme \<Rightarrow> 'a i2c_scheme option" where
  "ProcessI2C3byteCommand dev s =
     (let cmd = uint (i2cMsg s ! 0) in
      if cmd = kI2C_Augustus_Loop_set_pitch then Some s
      else if cmd = kI2C_load_preset then Some s
      else if cmd = kI2C_save_preset then Some s
      else if cmd \<ge> kI2C_send_MIDI_message \<and> cmd \<le> kI2C_send_Select_Bus_message
      then ProcessI2CMIDICommand dev s
      else Some s)"

definition respond :: "u8 list \<Rightarrow> 'a i2c_scheme \<Rightarrow> 'a i2c_scheme" where
  "respond bs s = s\<lparr>i2cResponse := bs @ drop (length bs) (i2cResponse s),
     i2cResponseIndex := 0, i2cResponseSize := of_nat (length bs)\<rparr>"

definition ProcessI2C2byteCommand :: "'a i2c_scheme \<Rightarrow> 'a i2c_scheme" where
  "ProcessI2C2byteCommand s =
     (let cmd = uint (i2cMsg s ! 0) in
      if cmd = kI2C_voice_note_off \<or> cmd = kI2C_note_off \<or>
         (cmd \<ge> kI2C_WAV_Recorder_record \<and> cmd \<le> kI2C_WAV_Recorder_play) \<or>
         cmd = kI2C_Looper_get_state then s
      else if cmd = kI2C_load_algorithm then s
      else if cmd \<ge> kI2C_get_parameter_value \<and> cmd \<le> kI2C_get_parameter_max then respond [0, 0] s
      else s)"

definition ProcessI2C1byteCommand :: "'a i2c_scheme \<Rightarrow> 'a i2c_scheme" where
  "ProcessI2C1byteCommand s =
     (let cmd = uint (i2cMsg s ! 0) in
      if cmd = kI2C_all_notes_off \<or> cmd = kI2C_Augustus_Loop_send_clock \<or> cmd = kI2C_Looper_clear then s
      else if cmd = kI2C_reset_preset then s
      else if cmd = kI2C_get_current_preset then respond [0, 0] s
      else if cmd = kI2C_get_current_algorithm then respond [1] s
      else if cmd = kI2C_dual_get_current_algorithms then respond [0, 0] s
      else s)"

section \<open>The protocol\<close>

text \<open>The state that the first byte of a command selects; \<open>None\<close> for a complete command.\<close>

definition first_state :: "int \<Rightarrow> i2c_state option" where
  "first_state b =
     (if b \<in> {kI2C_set_controller, kI2C_set_parameter_abs, kI2C_set_parameter_cont, kI2C_voice_pitch,
             kI2C_voice_note_on, kI2C_note_pitch, kI2C_note_on, kI2C_dual_set_parameter_cont}
      then Some kWantByte2of4
      else if b \<in> {kI2C_send_MIDI_message, kI2C_send_Select_Bus_message} then Some kWantByte2ofN
      else if b \<in> {kI2C_load_preset, kI2C_save_preset, kI2C_Augustus_Loop_set_pitch,
             kI2C_dual_set_parameter_abs, kI2C_dual_load_algorithm, kI2C_dual_load_algorithms,
             kI2C_dual_load_preset, kI2C_dual_save_preset, kI2C_dual_takeover_z, kI2C_set_ES5}
      then Some kWantByte2of3
      else if b \<in> {kI2C_load_algorithm, kI2C_get_parameter_value, kI2C_get_parameter_min,
             kI2C_get_parameter_max, kI2C_WAV_Recorder_record, kI2C_WAV_Recorder_play,
             kI2C_voice_note_off, kI2C_note_off, kI2C_Looper_get_state, kI2C_dual_get_parameter_value,
             kI2C_dual_get_parameter_min, kI2C_dual_get_parameter_max, kI2C_dual_get_current_algorithm}
      then Some kWantByte2of2
      else if b \<in> {kI2C_reset_preset, kI2C_get_current_preset, kI2C_get_current_algorithm,
             kI2C_Augustus_Loop_send_clock, kI2C_all_notes_off, kI2C_Looper_clear,
             kI2C_dual_get_current_algorithms, kI2C_dual_get_z}
      then None
      else Some kI2CIdle)"

text \<open>The protocol knows the commands of the enumeration, which are distinct bytes, and no others.\<close>

lemma first_state_commands:
  "first_state b \<noteq> Some kI2CIdle \<longleftrightarrow> b \<in> set i2c_commands"
  "distinct i2c_commands" "\<forall>c\<in>set i2c_commands. 0 < c \<and> c < 128"
  by (simp_all add: first_state_def i2c_commands_def)

text \<open>A store into the message buffer with the next state; a store outside the buffer has no defined outcome.\<close>

definition i2c_byte :: "nat \<Rightarrow> int \<Rightarrow> i2c_state \<Rightarrow> 'a i2c_scheme \<Rightarrow> 'a i2c_scheme option" where
  "i2c_byte i b st s =
     (if i < length (i2cMsg s)
      then Some (s\<lparr>i2cMsg := (i2cMsg s)[i := word_of_int b], i2cState := st\<rparr>) else None)"

text \<open>The state \<open>kWantByte2ofN\<close>, after the MIDI status byte has been stored.\<close>

definition second_of_N :: "device \<Rightarrow> 'a i2c_scheme \<Rightarrow> 'a i2c_scheme option" where
  "second_of_N dev s =
     (let cmd = uint (i2cMsg s ! 0); st = i2cMsg s ! 1; hi = st AND 0xf0; lo = st AND 0x0f in
      if cmd \<ge> kI2C_send_MIDI_message \<and> cmd \<le> kI2C_send_Select_Bus_message then
        if hi \<in> {0x80, 0x90, 0xa0, 0xb0, 0xe0} then Some (s\<lparr>i2cState := kWantByte3of4\<rparr>)
        else if hi \<in> {0xc0, 0xd0} then Some (s\<lparr>i2cState := kWantByte3of3\<rparr>)
        else if hi = 0xf0 then
          (if lo = 0x0 then Some (s\<lparr>i2cState := kI2CIdle\<rparr>)
           else if lo \<in> {0x1, 0x3} then Some (s\<lparr>i2cState := kWantByte3of3\<rparr>)
           else if lo = 0x2 then Some (s\<lparr>i2cState := kWantByte3of4\<rparr>)
           else ProcessI2CMIDICommand dev (s\<lparr>i2cState := kI2CIdle\<rparr>))
        else Some (s\<lparr>i2cState := kI2CIdle\<rparr>)
      else Some (s\<lparr>i2cState := kI2CIdle\<rparr>))"

definition ProcessI2CIn :: "device \<Rightarrow> int \<Rightarrow> 'a i2c_scheme \<Rightarrow> 'a i2c_scheme option" where
  "ProcessI2CIn dev b s =
     (let s = s\<lparr>displayBlankCountdown := kTimeToBlank\<rparr> in
      if b < 0 then Some (s\<lparr>i2cState := kWantByte1\<rparr>)
      else case i2cState s of
        kI2CIdle \<Rightarrow> Some s
      | kWantByte1 \<Rightarrow>
          (case first_state b of
             Some st \<Rightarrow> i2c_byte 0 b st s
           | None \<Rightarrow> map_option ProcessI2C1byteCommand (i2c_byte 0 b kI2CIdle s))
      | kWantByte2of4 \<Rightarrow> i2c_byte 1 b kWantByte3of4 s
      | kWantByte3of4 \<Rightarrow> i2c_byte 2 b kWantByte4of4 s
      | kWantByte4of4 \<Rightarrow> Option.bind (i2c_byte 3 b kI2CIdle s) (ProcessI2C4byteCommand dev)
      | kWantByte2ofN \<Rightarrow> Option.bind (i2c_byte 1 b kWantByte2ofN s) (second_of_N dev)
      | kWantByte2of2 \<Rightarrow> map_option ProcessI2C2byteCommand (i2c_byte 1 b kI2CIdle s)
      | kWantByte2of3 \<Rightarrow> i2c_byte 1 b kWantByte3of3 s
      | kWantByte3of3 \<Rightarrow> Option.bind (i2c_byte 2 b kWantByte3of3 s) (ProcessI2C3byteCommand dev))"

definition i2c_all :: "device \<Rightarrow> int list \<Rightarrow> 'a i2c_scheme \<Rightarrow> 'a i2c_scheme option" where
  "i2c_all dev = fold_opt (ProcessI2CIn dev)"


section \<open>Well-formed states\<close>

text \<open>What a store inside the buffer does.\<close>

definition put_byte :: "nat \<Rightarrow> int \<Rightarrow> i2c_state \<Rightarrow> 'a i2c_scheme \<Rightarrow> 'a i2c_scheme" where
  "put_byte i b st s = s\<lparr>i2cMsg := (i2cMsg s)[i := word_of_int b], i2cState := st\<rparr>"

lemma i2c_byte_stores: "i < length (i2cMsg s) \<Longrightarrow> i2c_byte i b st s = Some (put_byte i b st s)"
  by (simp add: i2c_byte_def put_byte_def)

lemma midi_numBytes_le: "midi_numBytes st = Some n \<Longrightarrow> n \<le> 3"
  by (auto simp: midi_numBytes_def Let_def split: if_splits)

definition i2c_inv :: "'a i2c_scheme \<Rightarrow> bool" where
  "i2c_inv s \<longleftrightarrow> length (i2cMsg s) = 4 \<and> length (i2cResponse s) = 4 \<and>
     i2cResponseIndex s \<le> i2cResponseSize s \<and> i2cResponseSize s \<le> 2 \<and>
     ring_inv 256 (i2cRxQueue s)"

lemma i2c_inv_wr [simp]: "i2c_inv (wr r v s) = i2c_inv s"
  by (simp add: i2c_inv_def wr_def emit_def)

lemma i2c_enqueue_put: "i2c_enqueue x s = s\<lparr>i2cRxQueue := ring_put i2c_wrap x (i2cRxQueue s)\<rparr>"
  by (simp add: i2c_enqueue_def ring_put_def Let_def)

lemma answer_read_inv:
  assumes "i2c_inv s" shows "i2c_inv (answer_read s)"
proof (cases "i2cResponseIndex s < i2cResponseSize s")
  case True
  then have "i2cResponseIndex s + 1 \<le> i2cResponseSize s" by (rule inc_le)
  with True assms show ?thesis by (simp add: answer_read_def i2c_inv_def wr_def emit_def)
next
  case False
  with assms show ?thesis by (simp add: answer_read_def i2c_inv_def wr_def emit_def)
qed

lemma i2c_enqueue_inv: "i2c_inv s \<Longrightarrow> i2c_inv (i2c_enqueue x s)"
  by (simp add: i2c_enqueue_put i2c_inv_def iq.put_ring_inv)

text \<open>
  the slave's interrupt handler keeps the state well formed on every bus event, so its read of the
  response buffer is always inside the buffer; it never touches the command being
  assembled; and while the receive queue has room a flagged event appends exactly one value: the byte, the negated
  address byte, or -256 for a read.
\<close>

theorem I2C_interrupt_safe:
  assumes "i2c_inv s"
  shows "i2c_inv (I2C4SlaveInterruptHandler flagged r_w d_a i2cov rcv s) \<and>
     (i2cResponseIndex s < i2cResponseSize s \<longrightarrow> unat (i2cResponseIndex s) < length (i2cResponse s)) \<and>
     i2cMsg (I2C4SlaveInterruptHandler flagged r_w d_a i2cov rcv s) = i2cMsg s \<and>
     i2cState (I2C4SlaveInterruptHandler flagged r_w d_a i2cov rcv s) = i2cState s \<and>
     (length (ring_contents 256 (i2cRxQueue s)) < 255 \<longrightarrow>
        ring_contents 256 (i2cRxQueue (I2C4SlaveInterruptHandler flagged r_w d_a i2cov rcv s)) =
        ring_contents 256 (i2cRxQueue s) @
          (if flagged then [if r_w then - 256 else if d_a then uint rcv else - uint rcv] else []))"
proof -
  have inv: "i2c_inv (I2C4SlaveInterruptHandler flagged r_w d_a i2cov rcv s)"
    using answer_read_inv [OF assms] assms
    by (simp add: I2C4SlaveInterruptHandler_def Let_def i2c_enqueue_inv)
  have q: "i2cRxQueue (I2C4SlaveInterruptHandler flagged r_w d_a i2cov rcv s) =
      (if flagged then ring_put i2c_wrap (if r_w then - 256 else if d_a then uint rcv else - uint rcv) (i2cRxQueue s)
       else i2cRxQueue s)"
    by (simp add: I2C4SlaveInterruptHandler_def i2c_enqueue_put answer_read_def Let_def wr_def emit_def)
  have "ring_inv 256 (i2cRxQueue s)" using assms by (simp add: i2c_inv_def)
  note put = iq.put_contents [OF this]
  have small: "unat (i2cResponseSize s) \<le> 2" using assms by (simp add: i2c_inv_def word_le_nat_alt)
  have len: "length (i2cResponse s) = 4" using assms by (simp add: i2c_inv_def)
  show ?thesis
    using inv small len put
    by (simp add: q)
      (simp add: I2C4SlaveInterruptHandler_def i2c_enqueue_put answer_read_def Let_def wr_def emit_def word_less_nat_alt)
qed

definition demo_i2c :: i2c where
  "demo_i2c = recall.extend demo_recall
     (i2c.fields kI2CIdle [0, 0, 0, 0] [0, 0, 0, 0] 0 0 0 (ring_empty 256 0))"

lemma demo_i2c_simps [simp]:
  "i2cState demo_i2c = kI2CIdle" "i2cMsg demo_i2c = [0, 0, 0, 0]" "i2cResponse demo_i2c = [0, 0, 0, 0]"
  "i2cResponseIndex demo_i2c = 0" "i2cResponseSize demo_i2c = 0" "recallIgnoreBytes demo_i2c = 0"
  "i2cRxQueue demo_i2c = ring_empty 256 0" "midi_queued demo_i2c = [7, 7]" "midi_ok demo_i2c"
  using demo_midi_simps(2,3)
  by (simp_all add: demo_i2c_def recall.defs i2c.defs demo_recall_def midi_in.defs demo_in_def midi_out.defs
      midi_ok_def midi_queued_def)

lemma i2c_inv_demo [simp]: "i2c_inv demo_i2c"
  using ring_empty_contents [of 256 "0 :: int"] by (simp add: i2c_inv_def)

lemma I2C_interrupt_safe_witness:
  "i2c_inv (I2C4SlaveInterruptHandler True True False False 0 demo_i2c)"
  using I2C_interrupt_safe [OF i2c_inv_demo, of True True False False 0] by blast


section \<open>The MIDI pass-through\<close>

definition i2c_ok :: "'a i2c_scheme \<Rightarrow> bool" where
  "i2c_ok s \<longleftrightarrow> i2c_inv s \<and> midi_ok s"

lemma i2c_okI: "i2c_ok s \<Longrightarrow> moved s s' bs \<Longrightarrow> i2c_ok s'"
  by (auto simp: moved_def i2c_ok_def i2c_inv_def)

lemma i2c_ok_updates [simp]:
  "i2c_ok (s\<lparr>displayBlankCountdown := n\<rparr>) = i2c_ok s"
  "i2c_ok (s\<lparr>i2cState := st\<rparr>) = i2c_ok s"
  "i2c_ok (put_byte i b st s) = i2c_ok s"
  by (simp_all add: i2c_ok_def i2c_inv_def midi_ok_def put_byte_def)

lemma emits_select:
  assumes "responsive dev" shows "emits (select_send dev b) [Wr U2TXREG (byte_value b)]"
  unfolding select_send_def [abs_def]
  by (rule emits_cong) (rule emits_intros assms | simp)+

lemma select_sends:
  assumes "responsive dev"
  shows "\<exists>t\<ge>clock s. fold_opt (select_send dev) bs s =
    Some (s\<lparr>clock := t, trace := trace s @ map (\<lambda>b. Wr U2TXREG (byte_value b)) bs\<rparr>)"
proof -
  have "emits (fold_opt (select_send dev) bs) (concat (map (\<lambda>b. [Wr U2TXREG (byte_value b)]) bs))"
    by (rule emits_fold) (rule emits_select [OF assms])
  from emits_update [OF this, of s] show ?thesis by simp
qed

text \<open>The command's effect, for both destinations.\<close>

definition i2c_message :: "nat \<Rightarrow> 'a i2c_scheme \<Rightarrow> u8 list" where
  "i2c_message n s = map (\<lambda>i. i2cMsg s ! (1 + i)) [0..<n]"

lemma message_slice_sends:
  assumes "length (i2cMsg s) = 4" and "midi_numBytes st = Some n"
  shows "message_slice n s = Some (i2c_message n s)"
  using assms midi_numBytes_le [OF assms(2)] by (simp add: message_slice_def i2c_message_def)

lemma MIDICommand_effect:
  assumes "responsive dev" and "midi_ok s" and "length (i2cMsg s) = 4"
  shows "uint (i2cMsg s ! 0) = kI2C_send_MIDI_message \<Longrightarrow> midi_numBytes (i2cMsg s ! 1) = Some n \<Longrightarrow>
      \<exists>s'. ProcessI2CMIDICommand dev s = Some s' \<and> moved s s' (i2c_message n s)"
    and "uint (i2cMsg s ! 0) = kI2C_send_Select_Bus_message \<Longrightarrow> midi_numBytes (i2cMsg s ! 1) = Some n \<Longrightarrow>
      \<exists>t. ProcessI2CMIDICommand dev s = Some (s\<lparr>clock := t,
        trace := trace s @ map (\<lambda>b. Wr U2TXREG (byte_value b)) (i2c_message n s),
        recallIgnoreBytes := recallIgnoreBytes s + of_nat n\<rparr>)"
proof -
  show "\<exists>s'. ProcessI2CMIDICommand dev s = Some s' \<and> moved s s' (i2c_message n s)"
    if "uint (i2cMsg s ! 0) = kI2C_send_MIDI_message" "midi_numBytes (i2cMsg s ! 1) = Some n"
    using fold_blocking [OF assms(1,2), of "\<lambda>b. b" "i2c_message n s"] that message_slice_sends [OF assms(3) that(2)]
    by (simp add: ProcessI2CMIDICommand_def)
  show "\<exists>t. ProcessI2CMIDICommand dev s = Some (s\<lparr>clock := t,
        trace := trace s @ map (\<lambda>b. Wr U2TXREG (byte_value b)) (i2c_message n s),
        recallIgnoreBytes := recallIgnoreBytes s + of_nat n\<rparr>)"
    if "uint (i2cMsg s ! 0) = kI2C_send_Select_Bus_message" "midi_numBytes (i2cMsg s ! 1) = Some n"
  proof -
    obtain t where "fold_opt (select_send dev) (i2c_message n s) s =
        Some (s\<lparr>clock := t, trace := trace s @ map (\<lambda>b. Wr U2TXREG (byte_value b)) (i2c_message n s)\<rparr>)"
      using select_sends [OF assms(1)] by blast
    with that message_slice_sends [OF assms(3) that(2)] show ?thesis
      by (intro exI [of _ t]) (simp add: ProcessI2CMIDICommand_def)
  qed
qed

lemma moved_i2c: "moved s s' bs \<Longrightarrow> i2cState s' = i2cState s \<and> i2cMsg s' = i2cMsg s"
  by (auto simp: moved_def)

lemma MIDICommand_returns:
  assumes "responsive dev" and "i2c_ok s"
  shows "\<exists>s'. ProcessI2CMIDICommand dev s = Some s' \<and> i2c_ok s' \<and> i2cState s' = i2cState s \<and> i2cMsg s' = i2cMsg s"
proof -
  have ok: "midi_ok s" and len: "length (i2cMsg s) = 4" using assms(2) by (simp_all add: i2c_ok_def i2c_inv_def)
  show ?thesis
  proof (cases "midi_numBytes (i2cMsg s ! 1)")
    case None
    then show ?thesis using assms(2) by (simp add: ProcessI2CMIDICommand_def)
  next
    case (Some n)
    consider (midi) "uint (i2cMsg s ! 0) = kI2C_send_MIDI_message"
      | (select) "uint (i2cMsg s ! 0) = kI2C_send_Select_Bus_message"
      | (other) "uint (i2cMsg s ! 0) \<noteq> kI2C_send_MIDI_message" "uint (i2cMsg s ! 0) \<noteq> kI2C_send_Select_Bus_message"
      by blast
    then show ?thesis
    proof cases
      case midi
      then show ?thesis
        using MIDICommand_effect(1) [OF assms(1) ok len midi Some] i2c_okI [OF assms(2)] moved_i2c by metis
    next
      case select
      from MIDICommand_effect(2) [OF assms(1) ok len select Some] show ?thesis
        using assms(2) by (auto simp: i2c_ok_def i2c_inv_def midi_ok_def)
    next
      case other
      with Some assms(2) message_slice_sends [OF len Some] show ?thesis by (simp add: ProcessI2CMIDICommand_def)
    qed
  qed
qed

lemma respond_ok: "i2c_ok s \<Longrightarrow> length bs \<le> 2 \<Longrightarrow> i2c_ok (respond bs s)"
proof -
  assume "i2c_ok s" "length bs \<le> 2"
  moreover from \<open>length bs \<le> 2\<close> have "(of_nat (length bs) :: u8) \<le> 2"
    by (auto simp: le_Suc_eq numeral_2_eq_2)
  ultimately show ?thesis by (simp add: i2c_ok_def i2c_inv_def respond_def midi_ok_def)
qed

lemma short_commands_ok:
  "i2c_ok s \<Longrightarrow> i2c_ok (ProcessI2C1byteCommand s)" "i2c_ok s \<Longrightarrow> i2c_ok (ProcessI2C2byteCommand s)"
  by (simp_all add: ProcessI2C1byteCommand_def ProcessI2C2byteCommand_def respond_ok Let_def)

text \<open>The tests on the status byte, named so that proofs can treat them as atoms.\<close>

definition three_byte :: "u8 \<Rightarrow> bool" where
  "three_byte st \<longleftrightarrow> st AND 0xf0 \<in> {0x80, 0x90, 0xa0, 0xb0, 0xe0}"

definition two_byte :: "u8 \<Rightarrow> bool" where
  "two_byte st \<longleftrightarrow> st AND 0xf0 \<in> {0xc0, 0xd0}"

definition system_byte :: "u8 \<Rightarrow> bool" where
  "system_byte st \<longleftrightarrow> st AND 0xf0 = 0xf0"

definition low_in :: "u8 \<Rightarrow> u8 set \<Rightarrow> bool" where
  "low_in st S \<longleftrightarrow> st AND 0x0f \<in> S"

lemma midi_numBytes_flat:
  "midi_numBytes st =
     (if three_byte st then Some 3 else if two_byte st then Some 2
      else if system_byte st then
        (if low_in st {0} then None else if low_in st {1, 3} then Some 2
         else if low_in st {2} then Some 3 else Some 1)
      else Some 1)"
  by (simp only: midi_numBytes_def Let_def three_byte_def two_byte_def system_byte_def low_in_def singleton_iff)

lemma second_of_N_flat:
  "second_of_N dev s =
     (let cmd = uint (i2cMsg s ! 0); st = i2cMsg s ! 1 in
      if cmd \<ge> kI2C_send_MIDI_message \<and> cmd \<le> kI2C_send_Select_Bus_message then
        if three_byte st then Some (s\<lparr>i2cState := kWantByte3of4\<rparr>)
        else if two_byte st then Some (s\<lparr>i2cState := kWantByte3of3\<rparr>)
        else if system_byte st then
          (if low_in st {0} then Some (s\<lparr>i2cState := kI2CIdle\<rparr>)
           else if low_in st {1, 3} then Some (s\<lparr>i2cState := kWantByte3of3\<rparr>)
           else if low_in st {2} then Some (s\<lparr>i2cState := kWantByte3of4\<rparr>)
           else ProcessI2CMIDICommand dev (s\<lparr>i2cState := kI2CIdle\<rparr>))
        else Some (s\<lparr>i2cState := kI2CIdle\<rparr>)
      else Some (s\<lparr>i2cState := kI2CIdle\<rparr>))"
  by (simp only: second_of_N_def Let_def three_byte_def two_byte_def system_byte_def low_in_def singleton_iff)

lemma second_of_N_cases:
  "(\<exists>st. second_of_N dev s = Some (s\<lparr>i2cState := st\<rparr>)) \<or>
   second_of_N dev s = ProcessI2CMIDICommand dev (s\<lparr>i2cState := kI2CIdle\<rparr>)"
  unfolding second_of_N_flat Let_def by (auto split: if_split)

text \<open>
  C10: on a responsive device \<open>ProcessI2CIn\<close> returns on every queued value in every well-formed state, and
  keeps the state well formed. No store into the message buffer, and no read of the bytes passed on, is outside its four
  bytes (such an access is \<open>None\<close> in the model); the response is never longer than two bytes, and the MIDI
  output queue stays consistent.
\<close>

theorem I2C_protocol_total:
  fixes s :: "'a i2c_scheme"
  assumes "responsive dev" and "i2c_ok s"
  shows "\<exists>s'. i2c_all dev bs s = Some s' \<and> i2c_ok s'"
  unfolding i2c_all_def
proof (rule fold_opt_total [where P = i2c_ok])
  fix b and s :: "'a i2c_scheme"
  assume ok: "i2c_ok s"
  note cmd = MIDICommand_returns [OF assms(1)]
  have c4: "\<exists>s'. ProcessI2C4byteCommand dev r = Some s' \<and> i2c_ok s'" if "i2c_ok r" for r :: "'a i2c_scheme"
    using cmd [OF that] that by (auto simp: ProcessI2C4byteCommand_def Let_def)
  have c3: "\<exists>s'. ProcessI2C3byteCommand dev r = Some s' \<and> i2c_ok s'" if "i2c_ok r" for r :: "'a i2c_scheme"
    using cmd [OF that] that by (auto simp: ProcessI2C3byteCommand_def Let_def)
  have cN: "\<exists>s'. second_of_N dev r = Some s' \<and> i2c_ok s'" if "i2c_ok r" for r :: "'a i2c_scheme"
  proof -
    have "i2c_ok (r\<lparr>i2cState := st\<rparr>)" for st using that by simp
    then show ?thesis using second_of_N_cases [of dev r] cmd [of "r\<lparr>i2cState := kI2CIdle\<rparr>"] by metis
  qed
  let ?s = "s\<lparr>displayBlankCountdown := kTimeToBlank\<rparr>"
  have s: "i2c_ok ?s" using ok by simp
  then have byte: "i2c_ok (put_byte i b st ?s)" for i st by simp
  have len: "length (i2cMsg ?s) = 4" using s by (simp add: i2c_ok_def i2c_inv_def)
  have stores: "i2c_byte i b st ?s = Some (put_byte i b st ?s)" if "i < 4" for i st
    using that len by (simp only: i2c_byte_stores)
  show "\<exists>s'. ProcessI2CIn dev b s = Some s' \<and> i2c_ok s'"
    using s byte c4 [OF byte] c3 [OF byte] cN [OF byte] short_commands_ok [OF byte]
    by (cases "i2cState s")
      (auto simp: ProcessI2CIn_def stores Let_def split: option.split)
qed (rule assms(2))

lemma I2C_protocol_total_witness:
  "\<exists>s'. i2c_all ready_device [-98, 0x4F, 0x90, 60, 100] demo_i2c = Some s' \<and> i2c_ok s'"
  using I2C_protocol_total [OF responsive_ready_device, of demo_i2c "[-98, 0x4F, 0x90, 60, 100]"]
  by (simp add: i2c_ok_def)


text \<open>How the status byte steers the parser, in terms of the message length.\<close>

lemma high_nibble_cases:
  assumes "0x80 \<le> (st :: u8)"
  shows "st AND 0xf0 \<in> {0x80, 0x90, 0xa0, 0xb0, 0xe0} \<union> {0xc0, 0xd0} \<union> {0xf0}"
proof -
  have "128 \<le> unat st" using assms by (simp add: word_le_nat_alt)
  then have "8 \<le> unat st div 16" "unat st div 16 \<le> 15" using unat_u8_bound [of st] by auto
  then have "unat st div 16 \<in> {8, 9, 10, 11, 12, 13, 14, 15}" by auto
  then have "unat (st AND 0xf0) \<in> {128, 144, 160, 176, 192, 208, 224, 240}"
    by (auto simp: unat_high_nibble)
  then have "(of_nat (unat (st AND 0xf0)) :: u8) \<in> {0x80, 0x90, 0xa0, 0xb0, 0xc0, 0xd0, 0xe0, 0xf0}"
    by (elim insertE emptyE) (simp_all only: insert_iff of_nat_numeral simp_thms)
  then have "st AND 0xf0 \<in> {0x80, 0x90, 0xa0, 0xb0, 0xc0, 0xd0, 0xe0, 0xf0}" by (simp only: of_nat_unat ucast_id)
  then show ?thesis by blast
qed

lemma second_of_N_steers:
  assumes "uint (i2cMsg s ! 0) \<in> {kI2C_send_MIDI_message, kI2C_send_Select_Bus_message}"
  shows "midi_numBytes (i2cMsg s ! 1) = Some 3 \<Longrightarrow> second_of_N dev s = Some (s\<lparr>i2cState := kWantByte3of4\<rparr>)"
    and "midi_numBytes (i2cMsg s ! 1) = Some 2 \<Longrightarrow> second_of_N dev s = Some (s\<lparr>i2cState := kWantByte3of3\<rparr>)"
    and "midi_numBytes (i2cMsg s ! 1) \<in> {None, Some 1} \<Longrightarrow>
      second_of_N dev s \<in> {Some (s\<lparr>i2cState := kI2CIdle\<rparr>), ProcessI2CMIDICommand dev (s\<lparr>i2cState := kI2CIdle\<rparr>)}"
proof -
  have cmd: "kI2C_send_MIDI_message \<le> uint (i2cMsg s ! 0) \<and> uint (i2cMsg s ! 0) \<le> kI2C_send_Select_Bus_message"
    using assms by auto
  define st where "st = i2cMsg s ! 1"
  define idle where "idle = Some (s\<lparr>i2cState := kI2CIdle\<rparr>)"
  define send where "send = ProcessI2CMIDICommand dev (s\<lparr>i2cState := kI2CIdle\<rparr>)"
  have e: "second_of_N dev s =
      (if three_byte st then Some (s\<lparr>i2cState := kWantByte3of4\<rparr>)
       else if two_byte st then Some (s\<lparr>i2cState := kWantByte3of3\<rparr>)
       else if system_byte st then
         (if low_in st {0} then idle else if low_in st {1, 3} then Some (s\<lparr>i2cState := kWantByte3of3\<rparr>)
          else if low_in st {2} then Some (s\<lparr>i2cState := kWantByte3of4\<rparr>) else send)
       else idle)"
    unfolding second_of_N_flat Let_def if_P [OF cmd] st_def idle_def send_def ..
  note n = midi_numBytes_flat [of st]
  show "midi_numBytes (i2cMsg s ! 1) = Some 3 \<Longrightarrow> second_of_N dev s = Some (s\<lparr>i2cState := kWantByte3of4\<rparr>)"
    and "midi_numBytes (i2cMsg s ! 1) = Some 2 \<Longrightarrow> second_of_N dev s = Some (s\<lparr>i2cState := kWantByte3of3\<rparr>)"
    unfolding st_def [symmetric] n e
    by (cases "three_byte st"; cases "two_byte st"; cases "system_byte st"; cases "low_in st {0}";
      cases "low_in st {1, 3}"; cases "low_in st {2}"; simp)+
  have "second_of_N dev s = idle \<or> second_of_N dev s = send" if "midi_numBytes st = None \<or> midi_numBytes st = Some 1"
    using that unfolding n e
    by (cases "three_byte st"; cases "two_byte st"; cases "system_byte st"; cases "low_in st {0}";
      cases "low_in st {1, 3}"; cases "low_in st {2}"; simp)
  then show "midi_numBytes (i2cMsg s ! 1) \<in> {None, Some 1} \<Longrightarrow>
      second_of_N dev s \<in> {Some (s\<lparr>i2cState := kI2CIdle\<rparr>), ProcessI2CMIDICommand dev (s\<lparr>i2cState := kI2CIdle\<rparr>)}"
    unfolding st_def [symmetric] idle_def [symmetric] send_def [symmetric] by blast
qed

lemma second_of_N_length:
  assumes "uint (i2cMsg s ! 0) \<in> {kI2C_send_MIDI_message, kI2C_send_Select_Bus_message}"
    and "0x80 \<le> i2cMsg s ! 1"
  shows "midi_numBytes (i2cMsg s ! 1) = Some 1 \<Longrightarrow>
      second_of_N dev s = ProcessI2CMIDICommand dev (s\<lparr>i2cState := kI2CIdle\<rparr>)"
    and "midi_numBytes (i2cMsg s ! 1) \<in> {None, Some 1, Some 2, Some 3}"
proof -
  have cls: "three_byte (i2cMsg s ! 1) \<or> two_byte (i2cMsg s ! 1) \<or> system_byte (i2cMsg s ! 1)"
    using high_nibble_cases [OF assms(2)] by (simp only: three_byte_def two_byte_def system_byte_def Un_iff singleton_iff simp_thms disj_assoc)
  have cmd: "kI2C_send_MIDI_message \<le> uint (i2cMsg s ! 0) \<and> uint (i2cMsg s ! 0) \<le> kI2C_send_Select_Bus_message"
    using assms(1) by auto
  show "midi_numBytes (i2cMsg s ! 1) \<in> {None, Some 1, Some 2, Some 3}"
    by (simp add: midi_numBytes_flat)
  define st where "st = i2cMsg s ! 1"
  have e: "second_of_N dev s =
      (if three_byte st then Some (s\<lparr>i2cState := kWantByte3of4\<rparr>)
       else if two_byte st then Some (s\<lparr>i2cState := kWantByte3of3\<rparr>)
       else if low_in st {0} then Some (s\<lparr>i2cState := kI2CIdle\<rparr>)
       else if low_in st {1, 3} then Some (s\<lparr>i2cState := kWantByte3of3\<rparr>)
       else if low_in st {2} then Some (s\<lparr>i2cState := kWantByte3of4\<rparr>)
       else ProcessI2CMIDICommand dev (s\<lparr>i2cState := kI2CIdle\<rparr>))"
    using cls unfolding second_of_N_flat Let_def if_P [OF cmd] st_def [symmetric]
    by (cases "three_byte st"; cases "two_byte st") simp_all
  have n: "midi_numBytes st =
      (if three_byte st then Some 3 else if two_byte st then Some 2
       else if low_in st {0} then None else if low_in st {1, 3} then Some 2
       else if low_in st {2} then Some 3 else Some 1)"
    using cls unfolding midi_numBytes_flat st_def [symmetric]
    by (cases "three_byte st"; cases "two_byte st") simp_all
  show "midi_numBytes (i2cMsg s ! 1) = Some 1 \<Longrightarrow>
      second_of_N dev s = ProcessI2CMIDICommand dev (s\<lparr>i2cState := kI2CIdle\<rparr>)"
    unfolding st_def [symmetric] n e
    by (cases "three_byte st"; cases "two_byte st"; cases "low_in st {0}"; cases "low_in st {1, 3}";
      cases "low_in st {2}"; simp)
qed


definition receiving :: "i2c_state \<Rightarrow> u8 list \<Rightarrow> 'a i2c_scheme \<Rightarrow> 'a i2c_scheme" where
  "receiving st msg s = s\<lparr>displayBlankCountdown := kTimeToBlank, i2cMsg := msg, i2cState := st\<rparr>"

lemma i2c_all_simps [simp]:
  "i2c_all dev [] = Some"
  "i2c_all dev (b # bs) s = Option.bind (ProcessI2CIn dev b s) (i2c_all dev bs)"
  by (simp_all add: i2c_all_def fold_opt_Nil)

lemma address_starts: "b < 0 \<Longrightarrow> ProcessI2CIn dev b s = Some (receiving kWantByte1 (i2cMsg s) s)"
  by (simp add: ProcessI2CIn_def receiving_def)

lemma receiving_twice [simp]: "receiving st msg (receiving st' msg' s) = receiving st msg s"
  by (simp add: receiving_def)

lemma receiving_sel [simp]:
  "i2cMsg (receiving st msg s) = msg" "i2cState (receiving st msg s) = st"
  "midi_ok (receiving st msg s) = midi_ok s"
  by (simp_all add: receiving_def midi_ok_def)

lemma ProcessI2CIn_receiving:
  assumes "length msg = 4"
  shows "0 \<le> b \<Longrightarrow> ProcessI2CIn dev b (receiving kWantByte2of4 msg s) =
     Some (receiving kWantByte3of4 (msg[1 := word_of_int b]) s)"
    and "0 \<le> b \<Longrightarrow> ProcessI2CIn dev b (receiving kWantByte3of4 msg s) =
     Some (receiving kWantByte4of4 (msg[2 := word_of_int b]) s)"
    and "0 \<le> b \<Longrightarrow> ProcessI2CIn dev b (receiving kWantByte4of4 msg s) =
     ProcessI2C4byteCommand dev (receiving kI2CIdle (msg[3 := word_of_int b]) s)"
    and "0 \<le> b \<Longrightarrow> ProcessI2CIn dev b (receiving kWantByte3of3 msg s) =
     ProcessI2C3byteCommand dev (receiving kWantByte3of3 (msg[2 := word_of_int b]) s)"
    and "0 \<le> b \<Longrightarrow> ProcessI2CIn dev b (receiving kWantByte2ofN msg s) =
     second_of_N dev (receiving kWantByte2ofN (msg[1 := word_of_int b]) s)"
    and "0 \<le> b \<Longrightarrow> first_state b = Some st \<Longrightarrow> ProcessI2CIn dev b (receiving kWantByte1 msg s) =
     Some (receiving st (msg[0 := word_of_int b]) s)"
  using assms by (simp_all add: ProcessI2CIn_def receiving_def i2c_byte_def Let_def)

lemma long_command_is_MIDI:
  assumes "uint (i2cMsg s ! 0) \<in> {kI2C_send_MIDI_message, kI2C_send_Select_Bus_message}"
  shows "ProcessI2C4byteCommand dev s = ProcessI2CMIDICommand dev s"
    and "ProcessI2C3byteCommand dev s = ProcessI2CMIDICommand dev s"
  using assms by (auto simp: ProcessI2C4byteCommand_def ProcessI2C3byteCommand_def)

text \<open>A complete pass-through command reaches \<open>ProcessI2CMIDICommand\<close> with the message stored.\<close>

lemma pass_through_command:
  assumes "cmd \<in> {kI2C_send_MIDI_message, kI2C_send_Select_Bus_message}"
    and "0x80 \<le> st" and "midi_numBytes st = Some n" and "length ds = n - 1"
    and "length (i2cMsg s) = 4" and "a < 0"
  shows "\<exists>msg fin. i2c_all dev (a # cmd # map uint (st # ds)) s = ProcessI2CMIDICommand dev (receiving fin msg s) \<and>
     uint (msg ! 0) = cmd \<and> msg ! 1 = st \<and> length msg = 4 \<and>
     map (\<lambda>i. msg ! (1 + i)) [0..<n] = st # ds \<and> fin = (if n = 2 then kWantByte3of3 else kI2CIdle)"
proof -
  obtain m0 m1 m2 m3 where m: "i2cMsg s = [m0, m1, m2, m3]"
    using assms(5) by (auto simp: numeral_eq_Suc length_Suc_conv)
  let ?c = "word_of_int cmd :: u8"
  have c: "uint ?c = cmd" "first_state cmd = Some kWantByte2ofN" "0 \<le> cmd"
    using assms(1) by (auto simp: first_state_def)
  let ?r = "receiving kWantByte2ofN [?c, st, m2, m3] s"
  have start: "i2c_all dev (a # cmd # map uint (st # ds)) s =
      Option.bind (second_of_N dev ?r) (i2c_all dev (map uint ds))"
    using c by (simp add: address_starts [OF assms(6)] ProcessI2CIn_receiving m)
  have r: "uint (i2cMsg ?r ! 0) \<in> {kI2C_send_MIDI_message, kI2C_send_Select_Bus_message}" "0x80 \<le> i2cMsg ?r ! 1"
    using c(1) assms(1,2) by simp_all
  have upd: "?r\<lparr>i2cState := x\<rparr> = receiving x [?c, st, m2, m3] s" for x by (simp add: receiving_def)
  have up3: "[0..<3] = [0, 1, 2 :: nat]" by (simp add: upt_rec)
  have up2: "[0..<2] = [0, 1 :: nat]" by (simp add: upt_rec)
  have "n \<in> {1, 2, 3}" using second_of_N_length(2) [OF r] assms(3) by simp
  then consider (one) "n = 1" | (two) "n = 2" | (three) "n = 3" by auto
  then show ?thesis
  proof cases
    case one
    with assms(3,4) second_of_N_length(1) [OF r] have "second_of_N dev ?r =
        ProcessI2CMIDICommand dev (receiving kI2CIdle [?c, st, m2, m3] s)" "ds = []" by (simp_all add: upd)
    then show ?thesis
      using one c(1) start by (intro exI [of _ "[?c, st, m2, m3]"] exI [of _ kI2CIdle]) simp
  next
    case two
    with assms(4) obtain d where d: "ds = [d]" by (auto simp: length_Suc_conv)
    from two assms(3) second_of_N_steers(2) [OF r(1)] have "second_of_N dev ?r =
        Some (receiving kWantByte3of3 [?c, st, m2, m3] s)" by (simp add: upd)
    then have "i2c_all dev (a # cmd # map uint (st # ds)) s =
        ProcessI2CMIDICommand dev (receiving kWantByte3of3 [?c, st, d, m3] s)"
      using start d c(1) assms(1) by (simp add: ProcessI2CIn_receiving long_command_is_MIDI)
    then show ?thesis
      using two c(1) d by (intro exI [of _ "[?c, st, d, m3]"] exI [of _ kWantByte3of3]) (simp add: up2)
  next
    case three
    with assms(4) obtain d e where d: "ds = [d, e]" by (auto simp: numeral_eq_Suc length_Suc_conv)
    from three assms(3) second_of_N_steers(1) [OF r(1)] have "second_of_N dev ?r =
        Some (receiving kWantByte3of4 [?c, st, m2, m3] s)" by (simp add: upd)
    then have "i2c_all dev (a # cmd # map uint (st # ds)) s =
        ProcessI2CMIDICommand dev (receiving kI2CIdle [?c, st, d, e] s)"
      using start d c(1) assms(1) by (simp add: ProcessI2CIn_receiving long_command_is_MIDI)
    then show ?thesis
      using three c(1) d by (intro exI [of _ "[?c, st, d, e]"] exI [of _ kI2CIdle]) (simp add: up3)
  qed
qed


text \<open>
  C8: an I2C master that sends the pass-through command and a complete MIDI message of any kind (one,
  two or three bytes, every status but system exclusive) gets exactly that message queued on the MIDI
  output, in order and without loss; sent to the select bus instead, exactly that
  message goes out on UART 2 and \<open>recallIgnoreBytes\<close>, the number of
  bytes of echo still to be ignored, grows by its length.
\<close>

theorem I2C_pass_through:
  assumes "responsive dev" and "i2c_ok s" and "a < 0"
    and "0x80 \<le> st" and "midi_numBytes st = Some n" and "length ds = n - 1"
  shows "(\<exists>fin msg s'. i2c_all dev (a # kI2C_send_MIDI_message # map uint (st # ds)) s = Some s' \<and>
       moved (receiving fin msg s) s' (st # ds)) \<and>
     (\<exists>fin msg t. i2c_all dev (a # kI2C_send_Select_Bus_message # map uint (st # ds)) s =
       Some ((receiving fin msg s)\<lparr>clock := t,
         trace := trace s @ map (\<lambda>b. Wr U2TXREG (byte_value b)) (st # ds),
         recallIgnoreBytes := recallIgnoreBytes s + of_nat n\<rparr>))"
proof
  have len: "length (i2cMsg s) = 4" and ok: "midi_ok s"
    using assms(2) by (simp_all add: i2c_ok_def i2c_inv_def)
  show "\<exists>fin msg s'. i2c_all dev (a # kI2C_send_MIDI_message # map uint (st # ds)) s = Some s' \<and>
       moved (receiving fin msg s) s' (st # ds)"
  proof -
    obtain msg fin where m: "i2c_all dev (a # kI2C_send_MIDI_message # map uint (st # ds)) s =
        ProcessI2CMIDICommand dev (receiving fin msg s)" "uint (msg ! 0) = kI2C_send_MIDI_message"
        "msg ! 1 = st" "map (\<lambda>i. msg ! (1 + i)) [0..<n] = st # ds" "length msg = 4"
      using pass_through_command [OF _ assms(4-6) len assms(3), of kI2C_send_MIDI_message dev] by auto
    have e: "i2c_message n (receiving fin msg s) = st # ds" using m(4) by (simp add: i2c_message_def)
    have "midi_ok (receiving fin msg s)" "length (i2cMsg (receiving fin msg s)) = 4"
      "uint (i2cMsg (receiving fin msg s) ! 0) = kI2C_send_MIDI_message"
      "midi_numBytes (i2cMsg (receiving fin msg s) ! 1) = Some n"
      using ok m assms(5) by simp_all
    from MIDICommand_effect(1) [OF assms(1) this] m(1) show ?thesis unfolding e by metis
  qed
  show "\<exists>fin msg t. i2c_all dev (a # kI2C_send_Select_Bus_message # map uint (st # ds)) s =
       Some ((receiving fin msg s)\<lparr>clock := t,
         trace := trace s @ map (\<lambda>b. Wr U2TXREG (byte_value b)) (st # ds),
         recallIgnoreBytes := recallIgnoreBytes s + of_nat n\<rparr>)"
  proof -
    obtain msg fin where m: "i2c_all dev (a # kI2C_send_Select_Bus_message # map uint (st # ds)) s =
        ProcessI2CMIDICommand dev (receiving fin msg s)" "uint (msg ! 0) = kI2C_send_Select_Bus_message"
        "msg ! 1 = st" "map (\<lambda>i. msg ! (1 + i)) [0..<n] = st # ds" "length msg = 4"
      using pass_through_command [OF _ assms(4-6) len assms(3), of kI2C_send_Select_Bus_message dev] by auto
    have r: "trace (receiving fin msg s) = trace s" "recallIgnoreBytes (receiving fin msg s) = recallIgnoreBytes s"
      by (simp_all add: receiving_def)
    have e: "i2c_message n (receiving fin msg s) = st # ds" using m(4) by (simp add: i2c_message_def)
    have "midi_ok (receiving fin msg s)" "length (i2cMsg (receiving fin msg s)) = 4"
      "uint (i2cMsg (receiving fin msg s) ! 0) = kI2C_send_Select_Bus_message"
      "midi_numBytes (i2cMsg (receiving fin msg s) ! 1) = Some n"
      using ok m assms(5) by simp_all
    from MIDICommand_effect(2) [OF assms(1) this] m(1) show ?thesis unfolding e r by metis
  qed
qed

lemma I2C_pass_through_witness:
  "\<exists>fin msg s'. i2c_all ready_device [-98, 0x4F, 0x90, 60, 100] demo_i2c = Some s' \<and>
     moved (receiving fin msg demo_i2c) s' [0x90, 60, 100]"
proof -
  have "midi_numBytes 0x90 = Some 3" by (simp add: midi_numBytes_def)
  moreover have "i2c_ok demo_i2c" by (simp add: i2c_ok_def)
  ultimately show ?thesis
    using I2C_pass_through [OF responsive_ready_device, of demo_i2c "-98" "0x90" 3 "[60, 100]"] by simp
qed

section \<open>Repeated commands\<close>


text \<open>Executing a command returns and leaves the state machine and the message buffer as they are.\<close>

definition settles :: "'a i2c_scheme \<Rightarrow> 'a i2c_scheme option \<Rightarrow> bool" where
  "settles s r \<longleftrightarrow> (\<exists>s'. r = Some s' \<and> i2c_ok s' \<and> i2cState s' = i2cState s \<and> i2cMsg s' = i2cMsg s)"

lemma settles_Some [simp]: "settles s (Some s) = i2c_ok s"
  by (simp add: settles_def)





section \<open>Queries\<close>

text \<open>A master that reads \<open>n\<close> bytes causes \<open>n\<close> interrupts with \<open>R_W\<close> set.\<close>

definition read_bytes :: "nat \<Rightarrow> 'a i2c_scheme \<Rightarrow> 'a i2c_scheme" where
  "read_bytes n = (I2C4SlaveInterruptHandler True True False False 0 ^^ n)"

lemma read_step:
  assumes "i2c_inv s"
  shows "sent_on I2C4TRN (trace (I2C4SlaveInterruptHandler True True False False 0 s)) =
     sent_on I2C4TRN (trace s) @ map byte_value (take 1 (drop (unat (i2cResponseIndex s))
       (take (unat (i2cResponseSize s)) (i2cResponse s))))"
    and "drop (unat (i2cResponseIndex (I2C4SlaveInterruptHandler True True False False 0 s)))
       (take (unat (i2cResponseSize s)) (i2cResponse s)) =
     drop 1 (drop (unat (i2cResponseIndex s)) (take (unat (i2cResponseSize s)) (i2cResponse s)))"
    and "i2cResponse (I2C4SlaveInterruptHandler True True False False 0 s) = i2cResponse s"
    and "i2cResponseSize (I2C4SlaveInterruptHandler True True False False 0 s) = i2cResponseSize s"
proof -
  have small: "unat (i2cResponseSize s) \<le> 2" "length (i2cResponse s) = 4" "i2cResponseIndex s \<le> i2cResponseSize s"
    using assms by (simp_all add: i2c_inv_def word_le_nat_alt)
  have suc: "unat (i2cResponseIndex s + 1) = Suc (unat (i2cResponseIndex s))"
    if "i2cResponseIndex s < i2cResponseSize s"
    using that small(1) by (simp add: unat_word_ariths word_less_nat_alt)
  note defs = I2C4SlaveInterruptHandler_def i2c_enqueue_put answer_read_def Let_def wr_def emit_def
  show "sent_on I2C4TRN (trace (I2C4SlaveInterruptHandler True True False False 0 s)) =
     sent_on I2C4TRN (trace s) @ map byte_value (take 1 (drop (unat (i2cResponseIndex s))
       (take (unat (i2cResponseSize s)) (i2cResponse s))))"
    using small by (auto simp: defs word_less_nat_alt word_le_nat_alt take_Suc hd_drop_conv_nth)
  show "drop (unat (i2cResponseIndex (I2C4SlaveInterruptHandler True True False False 0 s)))
       (take (unat (i2cResponseSize s)) (i2cResponse s)) =
     drop 1 (drop (unat (i2cResponseIndex s)) (take (unat (i2cResponseSize s)) (i2cResponse s)))"
    using small suc by (auto simp: defs word_less_nat_alt word_le_nat_alt)
qed (simp_all add: I2C4SlaveInterruptHandler_def i2c_enqueue_put answer_read_def Let_def wr_def emit_def)

lemma read_bytes_response:
  assumes "i2c_inv s"
  shows "sent_on I2C4TRN (trace (read_bytes n s)) = sent_on I2C4TRN (trace s) @
     map byte_value (take n (drop (unat (i2cResponseIndex s)) (take (unat (i2cResponseSize s)) (i2cResponse s))))"
  using assms
proof (induction n arbitrary: s)
  case 0
  then show ?case by (simp add: read_bytes_def)
next
  case (Suc n)
  let ?s = "I2C4SlaveInterruptHandler True True False False 0 s"
  have inv: "i2c_inv ?s"
    using answer_read_inv [OF Suc.prems] by (simp add: I2C4SlaveInterruptHandler_def i2c_enqueue_inv)
  have take_split: "take (Suc n) xs = take 1 xs @ take n (drop 1 xs)" for xs :: "u8 list"
    by (cases xs) simp_all
  have "read_bytes (Suc n) s = read_bytes n ?s" by (simp add: read_bytes_def funpow_swap1)
  then show ?case
    using Suc.IH [OF inv] read_step [OF Suc.prems] by (simp add: take_split)
qed

text \<open>
  C22: the queries of the protocol are answered: after the command for the current preset, the current
  algorithm or the current algorithms, or for a parameter's value, minimum or maximum, a master that
  reads \<open>n\<close> bytes gets the first \<open>n\<close> bytes of the answer (\<open>0 0\<close>, \<open>1\<close>, \<open>0 0\<close> and \<open>0 0\<close>), never more.
\<close>

theorem I2C_queries_answered:
  assumes "i2c_inv s" and "a < 0"
    and "(cmd, answer) \<in> {([kI2C_get_current_preset], [0, 0]), ([kI2C_get_current_algorithm], [1]),
       ([kI2C_dual_get_current_algorithms], [0, 0]), ([kI2C_get_parameter_value, uint p], [0, 0]),
       ([kI2C_get_parameter_min, uint p], [0, 0]), ([kI2C_get_parameter_max, uint p], [0, 0])}"
  shows "\<exists>s'. i2c_all dev (a # cmd) s = Some s' \<and>
     sent_on I2C4TRN (trace (read_bytes n s')) = sent_on I2C4TRN (trace s) @ map byte_value (take n answer)"
proof -
  obtain m0 m1 m2 m3 r0 r1 r2 r3 where m: "i2cMsg s = [m0, m1, m2, m3]" "i2cResponse s = [r0, r1, r2, r3]"
    using assms(1) by (auto simp: i2c_inv_def numeral_eq_Suc length_Suc_conv)
  have "\<exists>r. i2c_all dev (a # cmd) s = Some (respond answer r) \<and> i2c_inv r \<and> trace r = trace s \<and> length answer \<le> 2"
    using assms m
    by (elim insertE emptyE)
      (simp_all add: address_starts, simp_all add: ProcessI2CIn_def receiving_def first_state_def i2c_byte_def
        ProcessI2C1byteCommand_def ProcessI2C2byteCommand_def Let_def, auto simp: i2c_inv_def)
  then obtain r where r: "i2c_all dev (a # cmd) s = Some (respond answer r)" "i2c_inv r" "trace r = trace s"
      "length answer \<le> 2" by blast
  have sz: "unat (of_nat (length answer) :: u8) = length answer" using r(4) by (auto simp: unat_of_nat)
  have inv: "i2c_inv (respond answer r)"
    using r(2,4) by (simp add: i2c_inv_def respond_def word_le_nat_alt sz)
  have "sent_on I2C4TRN (trace (read_bytes n (respond answer r))) =
      sent_on I2C4TRN (trace s) @ map byte_value (take n answer)"
    unfolding read_bytes_response [OF inv] by (simp add: respond_def sz r(3))
  with r(1) show ?thesis by blast
qed

lemma I2C_queries_answered_witness:
  "\<exists>s'. i2c_all ready_device [-98, 0x45] demo_i2c = Some s' \<and>
     sent_on I2C4TRN (trace (read_bytes 3 s')) = sent_on I2C4TRN (trace demo_i2c) @ [1]"
  using I2C_queries_answered [OF i2c_inv_demo, of "-98" "[0x45]" "[1]" 0 ready_device 3]
  by (simp add: byte_value_def)

end
