(* ===== verification/Receive.thy ===== *)
theory Receive
  imports I2C_Slave
begin

text \<open>
  The receive side of \<open>app.c\<close>: the interrupt handlers of UART 2 (the select bus) and UART 4 (MIDI),
  which fill two byte queues, and \<open>FlushMIDIRx\<close>, which empties those two and the I2C queue into
  the three parsers. A handler's status bits and received byte are arguments.
\<close>

record receive = i2c +
  selectRxQueue :: "u8 ring"
  midiRxQueue :: "u8 ring"

section \<open>The interrupt handlers\<close>

definition select_rx_wrap :: "int \<Rightarrow> int" where "select_rx_wrap i = (i + 1) AND 15"
definition midi_rx_wrap :: "int \<Rightarrow> int" where "midi_rx_wrap i = (i + 1) AND 1023"

interpretation sq: ring_index 16 select_rx_wrap
  by unfold_locales (simp_all add: select_rx_wrap_def idx_simps)

interpretation rq: ring_index 1024 midi_rx_wrap
  by unfold_locales (simp_all add: midi_rx_wrap_def idx_simps)

definition select_enqueue :: "u8 \<Rightarrow> 'a receive_scheme \<Rightarrow> 'a receive_scheme" where
  "select_enqueue b s =
     (let q = selectRxQueue s in
      if ring_read q = ring_write q then s
      else s\<lparr>selectRxQueue := q\<lparr>ring_slots := (ring_slots q)[nat (ring_write q) := b],
                                 ring_write := select_rx_wrap (ring_write q)\<rparr>\<rparr>)"

definition UART2RXInterruptHandler :: "bool \<Rightarrow> bool \<Rightarrow> u8 \<Rightarrow> 'a receive_scheme \<Rightarrow> 'a receive_scheme" where
  "UART2RXInterruptHandler flagged urxda byte s =
     (if flagged then
        wr IFS_USART_2_RECEIVE 0
          (if urxda then
             if recallIgnoreBytes s > 0 then s\<lparr>recallIgnoreBytes := recallIgnoreBytes s - 1\<rparr>
             else select_enqueue byte s
           else s)
      else s)"

text \<open>The two \<open>if ( 0 )\<close> blocks of the MIDI handler, the thru settings, are not compiled.\<close>

definition midi_enqueue :: "u8 \<Rightarrow> 'a receive_scheme \<Rightarrow> 'a receive_scheme" where
  "midi_enqueue b s =
     (let q = midiRxQueue s in
      if ring_read q = ring_write q then s
      else s\<lparr>midiRxQueue := q\<lparr>ring_slots := (ring_slots q)[nat (ring_write q) := b],
                               ring_write := midi_rx_wrap (ring_write q)\<rparr>\<rparr>)"

definition UART4RXInterruptHandler :: "bool \<Rightarrow> bool \<Rightarrow> u8 \<Rightarrow> 'a receive_scheme \<Rightarrow> 'a receive_scheme" where
  "UART4RXInterruptHandler flagged urxda byte s =
     (if flagged then wr IFS_USART_4_RECEIVE 0 (if urxda then midi_enqueue byte s else s) else s)"

section \<open>Emptying the queues\<close>

text \<open>
  \<open>FlushMIDIRx\<close> is three loops of the same form; \<open>None\<close> of \<open>ring_take\<close> is the \<open>break\<close>. The returned values
  of the parsers are ignored.
\<close>

partial_function (option) flush_i2c :: "device \<Rightarrow> 'a receive_scheme \<Rightarrow> 'a receive_scheme option" where
  "flush_i2c dev s =
     (case ring_take i2c_wrap (i2cRxQueue s) of
        None \<Rightarrow> Some s
      | Some (d, q) \<Rightarrow> Option.bind (ProcessI2CIn dev d (s\<lparr>i2cRxQueue := q\<rparr>)) (flush_i2c dev))"

partial_function (option) flush_select ::
    "'a receive_scheme handler \<Rightarrow> 'a receive_scheme \<Rightarrow> 'a receive_scheme option" where
  "flush_select h s =
     (case ring_take select_rx_wrap (selectRxQueue s) of
        None \<Rightarrow> Some s
      | Some (d, q) \<Rightarrow>
          Option.bind (map_option snd (Recall_ProcessMIDI h d (s\<lparr>selectRxQueue := q\<rparr>))) (flush_select h))"

partial_function (option) flush_midi ::
    "'a receive_scheme handler \<Rightarrow> 'a receive_scheme \<Rightarrow> 'a receive_scheme option" where
  "flush_midi h s =
     (case ring_take midi_rx_wrap (midiRxQueue s) of
        None \<Rightarrow> Some s
      | Some (d, q) \<Rightarrow>
          Option.bind (map_option snd (ProcessMIDIIn h d (s\<lparr>midiRxQueue := q\<rparr>))) (flush_midi h))"

definition FlushMIDIRx ::
    "device \<Rightarrow> 'a receive_scheme handler \<Rightarrow> 'a receive_scheme \<Rightarrow> 'a receive_scheme option" where
  "FlushMIDIRx dev h s = do { s \<leftarrow> flush_i2c dev s; s \<leftarrow> flush_select h s; flush_midi h s }"

section \<open>What the parsers leave alone\<close>

text \<open>
  What lies outside the receive side: the display buffers and the pending display transfer, the
  converters' readings and the clock, and all components that extend the state further (controls, flash controller and the
  rest of the program). Not part of it are \<open>displayBlankCountdown\<close>, which the parsers reset, and the MIDI
  output queue with its pending flag, into which a pass-through command of the I2C master writes.
\<close>

definition rx_frame :: "'a receive_scheme \<Rightarrow> _" where
  "rx_frame s = (time s, halfState s, screen s, screen2 s, screen2ptr s, displayMode s, displayIsOn s,
     message4x16 s, displayBytesToSend s, receive.more s)"

definition rx_queues :: "'a receive_scheme \<Rightarrow> _" where
  "rx_queues s = (i2cRxQueue s, selectRxQueue s, midiRxQueue s)"

definition rx_inv :: "'a receive_scheme \<Rightarrow> bool" where
  "rx_inv s \<longleftrightarrow> i2c_inv s \<and> ring_inv 736 (midiQueue s) \<and> parser_inv (parser s) \<and>
     recall_inv (recallParser s) \<and> ring_inv 16 (selectRxQueue s) \<and> ring_inv 1024 (midiRxQueue s)"

definition kept :: "'a receive_scheme \<Rightarrow> 'a receive_scheme \<Rightarrow> bool" where
  "kept s s' \<longleftrightarrow> rx_inv s' \<and> rx_frame s' = rx_frame s \<and> rx_queues s' = rx_queues s \<and> proceeds s s'"

lemma kept_trans: "kept s s' \<Longrightarrow> kept s' s'' \<Longrightarrow> kept s s''"
  by (auto simp: kept_def intro: proceeds_trans)

lemma kept_refl: "rx_inv s \<Longrightarrow> kept s s"
  by (simp add: kept_def proceeds_still)

lemma keptD: "kept s s' \<Longrightarrow> rx_inv s'"
  by (simp add: kept_def)

lemmas kept_defs = kept_def proceeds_def rx_inv_def i2c_inv_def rx_frame_def rx_queues_def

text \<open>A queueing call on the MIDI output returns, also before the first byte has ever been sent.\<close>

lemma BlockingQueueMIDI1_kept:
  assumes "responsive dev" and "rx_inv s"
  shows "\<exists>s'. BlockingQueueMIDI1 dev b s = Some s' \<and> kept s s'"
proof (cases "ring_live (midiQueue s)")
  case True
  then have ok: "midi_ok s" using assms(2) by (simp add: midi_ok_def rx_inv_def)
  from fold_blocking [OF assms(1) ok, of "\<lambda>b. b" "[b]"]
  obtain s' where "BlockingQueueMIDI1 dev b s = Some s'" "moved s s' [b]"
    by (auto split: bind_splits)
  moreover have "list_all quiet (uart4 bs)" for bs
    by (simp add: uart4_def list_all_iff quiet_def)
  ultimately show ?thesis using assms(2) by (auto simp: moved_def midi_ok_def kept_defs)
next
  case False
  then have "ring_read (midiQueue s) \<noteq> ring_write (midiQueue s)"
    using assms(2) by (auto simp: ring_live_def ring_inv_def rx_inv_def)
  then have "BlockingQueueMIDI1 dev b s =
      Some (s\<lparr>midiQueue := ring_put midi_wrap b (midiQueue s), midiOutPending := True\<rparr>)"
    unfolding BlockingQueueMIDI1_def by (subst blocking_queue.simps) (simp add: QueueMIDI1_ring)
  then show ?thesis using assms(2) by (simp add: kept_defs mq.put_ring_inv)
qed

lemma HandleMIDIOut_kept:
  assumes "rx_inv s" shows "kept s (snd (HandleMIDIOut dev s))"
proof -
  have q: "ring_inv 736 (midiQueue s)" using assms by (simp add: rx_inv_def)
  show ?thesis
  proof (cases "ring_take midi_wrap (midiQueue s)")
    case None
    with assms show ?thesis by (simp add: HandleMIDIOut_ring Let_def kept_defs tick_def)
  next
    case (Some r)
    with mq.take_SomeD(2) [OF q] assms show ?thesis
      by (cases r) (auto simp: HandleMIDIOut_ring Let_def kept_defs tick_def wr_def emit_def quiet_def)
  qed
qed

lemma ProcessI2CMIDICommand_kept:
  assumes "responsive dev" and "rx_inv s"
  shows "\<exists>s'. ProcessI2CMIDICommand dev s = Some s' \<and> kept s s'"
proof -
  have blocking: "\<exists>s'. fold_opt (BlockingQueueMIDI1 dev) bs s = Some s' \<and> kept s s'" for bs
  proof (rule fold_opt_total)
    fix b and r :: "'a receive_scheme"
    assume "kept s r"
    then show "\<exists>s'. BlockingQueueMIDI1 dev b r = Some s' \<and> kept s s'"
      using BlockingQueueMIDI1_kept [OF assms(1) keptD] kept_trans by blast
  qed (rule kept_refl [OF assms(2)])
  have len: "length (i2cMsg s) = 4" using assms(2) by (simp add: rx_inv_def i2c_inv_def)
  have upd: "kept s (s\<lparr>clock := t, trace := trace s @ map (\<lambda>b. Wr U2TXREG (byte_value b)) bs, recallIgnoreBytes := n\<rparr>)"
    if "clock s \<le> t" for t bs n
    using assms(2) that by (simp add: kept_defs list_all_iff quiet_def)
  have select: "\<exists>s'. (do { s \<leftarrow> fold_opt (select_send dev) bs s;
      Some (s\<lparr>recallIgnoreBytes := recallIgnoreBytes s + n\<rparr>) }) = Some s' \<and> kept s s'" for bs n
    using select_sends [OF assms(1), of s bs] upd by fastforce
  show ?thesis
    using blocking select kept_refl [OF assms(2)] message_slice_sends [OF len]
    by (auto simp: ProcessI2CMIDICommand_def Let_def split: option.split)
qed

text \<open>The updates that precede or replace a command.\<close>

lemma kept_byte: "rx_inv s \<Longrightarrow> kept s (put_byte i b st (s\<lparr>displayBlankCountdown := n\<rparr>))"
  by (simp add: kept_defs put_byte_def)

lemma kept_state: "rx_inv s \<Longrightarrow> kept s (s\<lparr>i2cState := st\<rparr>)"
  by (simp add: kept_defs)

lemma kept_short:
  assumes "rx_inv s" shows "kept s (ProcessI2C1byteCommand s)" and "kept s (ProcessI2C2byteCommand s)"
proof -
  have "kept s (respond bs s)" if "length bs \<le> 2" for bs
  proof -
    from that have "(of_nat (length bs) :: u8) \<le> 2"
      by (auto simp: le_Suc_eq numeral_2_eq_2)
    with that assms show ?thesis by (simp add: kept_defs respond_def)
  qed
  then show "kept s (ProcessI2C1byteCommand s)" "kept s (ProcessI2C2byteCommand s)"
    using kept_refl [OF assms] by (simp_all add: ProcessI2C1byteCommand_def ProcessI2C2byteCommand_def Let_def)
qed

lemma ProcessI2CIn_kept:
  assumes "responsive dev" and "rx_inv s"
  shows "\<exists>s'. ProcessI2CIn dev b s = Some s' \<and> kept s s'"
proof -
  let ?r = "\<lambda>i st. put_byte i b st (s\<lparr>displayBlankCountdown := kTimeToBlank\<rparr>)"
  have byte: "kept s (?r i st)" for i st by (rule kept_byte [OF assms(2)])
  have stores: "i2c_byte i b st (s\<lparr>displayBlankCountdown := kTimeToBlank\<rparr>) = Some (?r i st)" if "i < 4" for i st
    using assms(2) that by (intro i2c_byte_stores) (simp add: rx_inv_def i2c_inv_def)
  have cmd: "\<exists>s'. ProcessI2CMIDICommand dev r = Some s' \<and> kept s s'" if "kept s r" for r
    using ProcessI2CMIDICommand_kept [OF assms(1) keptD [OF that]] kept_trans [OF that] by blast
  have c4: "\<exists>s'. ProcessI2C4byteCommand dev r = Some s' \<and> kept s s'" if "kept s r" for r
    using cmd [OF that] that by (auto simp: ProcessI2C4byteCommand_def Let_def)
  have c3: "\<exists>s'. ProcessI2C3byteCommand dev r = Some s' \<and> kept s s'" if "kept s r" for r
    using cmd [OF that] that by (auto simp: ProcessI2C3byteCommand_def Let_def)
  have cN: "\<exists>s'. second_of_N dev r = Some s' \<and> kept s s'" if r: "kept s r" for r
  proof -
    have "kept s (r\<lparr>i2cState := st\<rparr>)" for st
      by (rule kept_trans [OF r kept_state [OF keptD [OF r]]])
    then show ?thesis using second_of_N_cases [of dev r] cmd [of "r\<lparr>i2cState := kI2CIdle\<rparr>"] by metis
  qed
  have short: "kept s (ProcessI2C1byteCommand r)" "kept s (ProcessI2C2byteCommand r)" if r: "kept s r" for r
    using kept_trans [OF r kept_short(1) [OF keptD [OF r]]] kept_trans [OF r kept_short(2) [OF keptD [OF r]]]
    by simp_all
  have start: "kept s (s\<lparr>displayBlankCountdown := n, i2cState := st\<rparr>)"
    "kept s (s\<lparr>displayBlankCountdown := n\<rparr>)" for n st
    using assms(2) by (simp_all add: kept_defs)
  show ?thesis
    by (cases "i2cState s")
      (simp_all add: ProcessI2CIn_def Let_def stores byte c4 [OF byte] c3 [OF byte] cN [OF byte] short [OF byte] start
        split: option.split)
qed


section \<open>The message handler's part\<close>

text \<open>What a message handler must not touch for the receive side to work on.\<close>

definition rx_fixed :: "'a receive_scheme \<Rightarrow> _" where
  "rx_fixed s = (clock s, trace s, rx_frame s, rx_queues s, midiQueue s, i2cMsg s, i2cResponse s, i2cResponseIndex s,
     i2cResponseSize s)"

lemma kept_fixed:
  assumes "rx_inv s" and "rx_fixed s' = rx_fixed s" and "parser_inv (parser s')" and "recall_inv (recallParser s')"
  shows "kept s s'"
  using assms by (simp add: kept_defs rx_fixed_def)

locale rx_handler = recall_handler h for h :: "'a receive_scheme handler" +
  assumes keeps: "h st ch m s = Some (r, s') \<Longrightarrow> rx_fixed s' = rx_fixed s"
begin

lemma keeps_parser: "h st ch m s = Some (r, s') \<Longrightarrow> parser s' = parser s"
  using frame [of st ch m "parser s" s] by simp (metis midi_in.select_convs(1) midi_in.surjective midi_in.update_convs(1))

lemma keeps_recall: "h st ch m s = Some (r, s') \<Longrightarrow> recallParser s' = recallParser s"
  using recall_frame [of st ch m "recallParser s" s]
  by simp (metis recall.select_convs(1) recall.surjective recall.update_convs(1))

lemma ProcessMIDI_kept:
  assumes "rx_inv s"
  shows "\<exists>s'. map_option snd (ProcessMIDI h b s) = Some s' \<and> kept s s'"
proof -
  have p: "parser_inv (parser s)" "recall_inv (recallParser s)" using assms by (simp_all add: rx_inv_def)
  obtain r s' where s': "ProcessMIDI h b s = Some (r, s')" "parser s' = fst (parse_byte b (parser s))"
    using ProcessMIDI_returns [OF p(1)] by blast
  let ?a = "snd (parse_byte b (parser s))" and ?t = "s\<lparr>parser := fst (parse_byte b (parser s))\<rparr>"
  have act: "perform h ?a ?t = Some s'"
    using ProcessMIDI_automaton [OF p(1), of b] s'(1) by (simp add: outcome_def)
  have t: "rx_fixed ?t = rx_fixed s" "recallParser ?t = recallParser s"
    by (simp_all add: rx_fixed_def rx_frame_def rx_queues_def)
  have "rx_fixed s' = rx_fixed s \<and> recallParser s' = recallParser s"
  proof (cases ?a)
    case (Call st ch m)
    with act obtain r where "h st ch m ?t = Some (r, s')" by auto
    from keeps [OF this] keeps_recall [OF this] t show ?thesis by simp
  qed (use act t in \<open>auto simp: rx_fixed_def rx_frame_def rx_queues_def\<close>)
  then show ?thesis
    using s' p parse_byte_inv [OF p(1)] by (intro exI [of _ s']) (simp add: kept_fixed [OF assms])
qed

lemma ProcessMIDIIn_kept:
  assumes "rx_inv s"
  shows "\<exists>s'. map_option snd (ProcessMIDIIn h b s) = Some s' \<and> kept s s'"
proof -
  have "kept s (s\<lparr>displayBlankCountdown := kTimeToBlank\<rparr>)" using assms by (simp add: kept_defs)
  then show ?thesis
    using ProcessMIDI_kept [of "s\<lparr>displayBlankCountdown := kTimeToBlank\<rparr>" b]
    by (auto simp: ProcessMIDIIn_def dest: keptD kept_trans)
qed

text \<open>The select-bus parser: everything but its own variables stays as the handler leaves it.\<close>

definition same_fixed :: "'a receive_scheme \<Rightarrow> (int \<times> 'a receive_scheme) option \<Rightarrow> bool" where
  "same_fixed s r \<longleftrightarrow> (\<forall>x s'. r = Some (x, s') \<longrightarrow> rx_fixed s' = rx_fixed s \<and> parser s' = parser s)"

lemma with_recall_fixed [simp]: "rx_fixed (with_recall f s) = rx_fixed s" "parser (with_recall f s) = parser s"
  by (simp_all add: with_recall_def rx_fixed_def rx_frame_def rx_queues_def)

lemma same_fixed_call: "same_fixed s (call_handler h s)"
  by (auto simp: same_fixed_def call_handler_def Let_def dest: keeps keeps_parser)

lemma same_fixed_finish: "same_fixed s (finish_message h i b s)"
proof -
  have "same_fixed r (Recall_ProcessMessage h r)" for r
  proof -
    have "rx_fixed (r\<lparr>saveMode := m\<rparr>) = rx_fixed r" for m
      by (simp add: rx_fixed_def rx_frame_def rx_queues_def)
    then have "same_fixed r (Some (x, r\<lparr>saveMode := m\<rparr>))" "same_fixed r (Some (x, r))" for x m
      by (simp_all add: same_fixed_def)
    then show ?thesis using same_fixed_call [of r] by (simp add: Recall_ProcessMessage_def Let_def)
  qed
  from this [of "with_recall (\<lambda>p. p\<lparr>sMessage := (sMessage p)[i := b]\<rparr>) s"] show ?thesis
    by (auto simp: finish_message_def set_recall_def same_fixed_def)
qed

lemma same_fixed_recall: "same_fixed (with_recall f s) r \<Longrightarrow> same_fixed s r"
  by (simp add: same_fixed_def)

lemma same_fixed_Some: "rx_fixed s' = rx_fixed s \<Longrightarrow> parser s' = parser s \<Longrightarrow> same_fixed s (Some (x, s'))"
  by (simp add: same_fixed_def)

lemma same_fixed_None: "same_fixed s None"
  by (simp add: same_fixed_def)

lemma same_fixed_step: "same_fixed s (Recall_ProcessMIDI h b s)"
proof -
  have busy: "same_fixed s (Recall_ProcessMIDI h b s)"
    if "pstate (recallParser s) \<noteq> kIdle" "b AND 0x80 = 0" for s
    using that same_fixed_finish
    by (cases "pstate (recallParser s)")
      (simp_all add: Recall_ProcessMIDI.simps [of h b s] set_recall_def same_fixed_None Let_def same_fixed_Some)
  have status: "same_fixed s (Recall_ProcessStatus h b s)" for s
  proof -
    let ?l = "with_recall (latch_status b) s"
    have "same_fixed s (Recall_ProcessMIDI h b (with_recall (select_recall b) ?l))"
      if "pstate (recallParser (with_recall (select_recall b) ?l)) \<noteq> kIdle" "b AND 0x80 = 0"
      by (rule same_fixed_recall [OF same_fixed_recall [OF busy [OF that]]])
    moreover have "same_fixed s (call_handler h ?l)"
      by (rule same_fixed_recall [OF same_fixed_call])
    moreover have "same_fixed s (Some (0, with_recall (select_recall b) ?l))"
      by (simp add: same_fixed_Some)
    ultimately show ?thesis
      unfolding Recall_ProcessStatus.simps [of h b s] Let_def
      by (cases "passed_on (recallParser ?l)";
          cases "b AND 0x80 = 0 \<and> pstate (recallParser (with_recall (select_recall b) ?l)) \<noteq> kIdle")
        auto
  qed
  have stop: "same_fixed s (Recall_ProcessStatus h b (with_recall f (with_recall g s)))" for f g
    by (rule same_fixed_recall [of g, OF same_fixed_recall [OF status]])
  have sysex: "rx_fixed (end_of_recall_sysex r) = rx_fixed r \<and> parser (end_of_recall_sysex r) = parser r" for r
    by (simp add: end_of_recall_sysex_def ProcessNativeSysEx_def Let_def rx_fixed_def rx_frame_def rx_queues_def)
  show ?thesis
    using same_fixed_finish status stop
    by (cases "pstate (recallParser s)")
      (simp_all add: Recall_ProcessMIDI.simps [of h b s] set_recall_def same_fixed_None Let_def same_fixed_Some sysex)
qed

lemma Recall_ProcessMIDI_kept:
  assumes "rx_inv s"
  shows "\<exists>s'. map_option snd (Recall_ProcessMIDI h b s) = Some s' \<and> kept s s'"
proof -
  have p: "parser_inv (parser s)" "recall_inv (recallParser s)" using assms by (simp_all add: rx_inv_def)
  obtain r s' where s': "Recall_ProcessMIDI h b s = Some (r, s')" "recall_inv (recallParser s')"
    using fine_step [OF p(2), of b] by (auto simp: fine_def)
  with same_fixed_step [of s b] p show ?thesis
    by (intro exI [of _ s']) (simp add: same_fixed_def kept_fixed [OF assms])
qed

end

interpretation default_rx: rx_handler DefaultMIDIMessageHandler
  by unfold_locales
    (auto simp: DefaultMIDIMessageHandler_def DefaultProcessRealTime_def message_byte_def Let_def
      rx_fixed_def rx_frame_def rx_queues_def split: bind_splits if_splits)


section \<open>Draining\<close>

text \<open>
  The specification of \<open>FlushMIDIRx\<close>: each queue's elements are taken off and handed to its parser one by
  one, oldest first; the I2C queue comes first, then the select bus, then MIDI.
\<close>

definition deliver_i2c :: "device \<Rightarrow> int list \<Rightarrow> 'a receive_scheme \<Rightarrow> 'a receive_scheme option" where
  "deliver_i2c dev = fold_opt (consume (ring_take i2c_wrap) i2cRxQueue (\<lambda>q. i2cRxQueue_update (\<lambda>_. q))
     (ProcessI2CIn dev))"

definition deliver_select ::
    "'a receive_scheme handler \<Rightarrow> u8 list \<Rightarrow> 'a receive_scheme \<Rightarrow> 'a receive_scheme option" where
  "deliver_select h = fold_opt (consume (ring_take select_rx_wrap) selectRxQueue (\<lambda>q. selectRxQueue_update (\<lambda>_. q))
     (\<lambda>d s. map_option snd (Recall_ProcessMIDI h d s)))"

definition deliver_midi ::
    "'a receive_scheme handler \<Rightarrow> u8 list \<Rightarrow> 'a receive_scheme \<Rightarrow> 'a receive_scheme option" where
  "deliver_midi h = fold_opt (consume (ring_take midi_rx_wrap) midiRxQueue (\<lambda>q. midiRxQueue_update (\<lambda>_. q))
     (\<lambda>d s. map_option snd (ProcessMIDIIn h d s)))"

text \<open>One turn of each loop, from a state that satisfies the invariant.\<close>

lemma turn_i2c:
  assumes "responsive dev" and "rx_inv s" and "ring_take i2c_wrap (i2cRxQueue s) = Some (x, q)"
  shows "\<exists>s'. ProcessI2CIn dev x (s\<lparr>i2cRxQueue := q\<rparr>) = Some s' \<and> i2cRxQueue s' = q \<and> rx_inv s' \<and>
    proceeds s s' \<and> rx_frame s' = rx_frame s \<and> selectRxQueue s' = selectRxQueue s \<and> midiRxQueue s' = midiRxQueue s"
proof -
  have "ring_inv 256 q"
    by (rule iq.take_SomeD(2) [OF _ assms(3)]) (use assms(2) in \<open>simp add: kept_defs\<close>)
  then have "rx_inv (s\<lparr>i2cRxQueue := q\<rparr>)" using assms(2) by (simp add: kept_defs)
  from ProcessI2CIn_kept [OF assms(1) this, of x] show ?thesis
    by (auto simp: kept_def rx_frame_def rx_queues_def proceeds_def)
qed

lemma flush_i2c_drains:
  assumes "responsive dev" and "rx_inv s"
  shows "\<exists>s'. flush_i2c dev s = Some s' \<and> rx_inv s' \<and> proceeds s s' \<and> rx_frame s' = rx_frame s \<and>
    selectRxQueue s' = selectRxQueue s \<and> midiRxQueue s' = midiRxQueue s \<and>
    ring_contents 256 (i2cRxQueue s') = [] \<and>
    deliver_i2c dev (ring_contents 256 (i2cRxQueue s)) s = Some s'"
proof -
  let ?P = "\<lambda>r. rx_inv r \<and> proceeds s r \<and> rx_frame r = rx_frame s \<and> selectRxQueue r = selectRxQueue s \<and> midiRxQueue r = midiRxQueue s"
  have "\<exists>s'. flush_i2c dev s = Some s' \<and> ?P s' \<and> ring_inv 256 (i2cRxQueue s') \<and>
      ring_contents 256 (i2cRxQueue s') = [] \<and>
      deliver_i2c dev (ring_contents 256 (i2cRxQueue s)) s = Some s'"
    unfolding deliver_i2c_def
  proof (rule iq.drain_loop)
    show "flush_i2c dev r = (case ring_take i2c_wrap (i2cRxQueue r) of None \<Rightarrow> Some r
        | Some (x, q) \<Rightarrow> Option.bind (ProcessI2CIn dev x (i2cRxQueue_update (\<lambda>_. q) r)) (flush_i2c dev))" for r
      by (subst flush_i2c.simps) simp
    show "\<exists>s'. ProcessI2CIn dev x (i2cRxQueue_update (\<lambda>_. q) r) = Some s' \<and> i2cRxQueue s' = q \<and> ?P s'"
      if "?P r" "ring_take i2c_wrap (i2cRxQueue r) = Some (x, q)" for x q r
      using turn_i2c [OF assms(1) _ that(2)] that(1) by (auto intro: proceeds_trans)
  qed (use assms(2) in \<open>simp_all add: kept_defs\<close>)
  then show ?thesis by blast
qed

context rx_handler
begin

lemma turn_select:
  assumes "rx_inv s" and "ring_take select_rx_wrap (selectRxQueue s) = Some (x, q)"
  shows "\<exists>s'. map_option snd (Recall_ProcessMIDI h x (s\<lparr>selectRxQueue := q\<rparr>)) = Some s' \<and>
    selectRxQueue s' = q \<and> rx_inv s' \<and>
    proceeds s s' \<and> rx_frame s' = rx_frame s \<and> i2cRxQueue s' = i2cRxQueue s \<and> midiRxQueue s' = midiRxQueue s"
proof -
  have "ring_inv 16 q"
    by (rule sq.take_SomeD(2) [OF _ assms(2)]) (use assms(1) in \<open>simp add: kept_defs\<close>)
  then have "rx_inv (s\<lparr>selectRxQueue := q\<rparr>)" using assms(1) by (simp add: kept_defs)
  from Recall_ProcessMIDI_kept [OF this, of x] show ?thesis
    by (auto simp: kept_def rx_frame_def rx_queues_def proceeds_def)
qed

lemma flush_select_drains:
  assumes "rx_inv s"
  shows "\<exists>s'. flush_select h s = Some s' \<and> rx_inv s' \<and> proceeds s s' \<and> rx_frame s' = rx_frame s \<and>
    i2cRxQueue s' = i2cRxQueue s \<and> midiRxQueue s' = midiRxQueue s \<and>
    ring_contents 16 (selectRxQueue s') = [] \<and>
    deliver_select h (ring_contents 16 (selectRxQueue s)) s = Some s'"
proof -
  let ?P = "\<lambda>r. rx_inv r \<and> proceeds s r \<and> rx_frame r = rx_frame s \<and> i2cRxQueue r = i2cRxQueue s \<and> midiRxQueue r = midiRxQueue s"
  have "\<exists>s'. flush_select h s = Some s' \<and> ?P s' \<and> ring_inv 16 (selectRxQueue s') \<and>
      ring_contents 16 (selectRxQueue s') = [] \<and>
      deliver_select h (ring_contents 16 (selectRxQueue s)) s = Some s'"
    unfolding deliver_select_def
  proof (rule sq.drain_loop)
    show "flush_select h r = (case ring_take select_rx_wrap (selectRxQueue r) of None \<Rightarrow> Some r
        | Some (x, q) \<Rightarrow> Option.bind (map_option snd (Recall_ProcessMIDI h x (selectRxQueue_update (\<lambda>_. q) r)))
            (flush_select h))" for r
      by (subst flush_select.simps) simp
    show "\<exists>s'. map_option snd (Recall_ProcessMIDI h x (selectRxQueue_update (\<lambda>_. q) r)) = Some s' \<and>
        selectRxQueue s' = q \<and> ?P s'"
      if "?P r" "ring_take select_rx_wrap (selectRxQueue r) = Some (x, q)" for x q r
      using turn_select [OF _ that(2)] that(1) by (auto intro: proceeds_trans)
  qed (use assms in \<open>simp_all add: kept_defs\<close>)
  then show ?thesis by blast
qed

lemma turn_midi:
  assumes "rx_inv s" and "ring_take midi_rx_wrap (midiRxQueue s) = Some (x, q)"
  shows "\<exists>s'. map_option snd (ProcessMIDIIn h x (s\<lparr>midiRxQueue := q\<rparr>)) = Some s' \<and>
    midiRxQueue s' = q \<and> rx_inv s' \<and>
    proceeds s s' \<and> rx_frame s' = rx_frame s \<and> i2cRxQueue s' = i2cRxQueue s \<and> selectRxQueue s' = selectRxQueue s"
proof -
  have "ring_inv 1024 q"
    by (rule rq.take_SomeD(2) [OF _ assms(2)]) (use assms(1) in \<open>simp add: kept_defs\<close>)
  then have "rx_inv (s\<lparr>midiRxQueue := q\<rparr>)" using assms(1) by (simp add: kept_defs)
  from ProcessMIDIIn_kept [OF this, of x] show ?thesis
    by (auto simp: kept_def rx_frame_def rx_queues_def proceeds_def)
qed

lemma flush_midi_drains:
  assumes "rx_inv s"
  shows "\<exists>s'. flush_midi h s = Some s' \<and> rx_inv s' \<and> proceeds s s' \<and> rx_frame s' = rx_frame s \<and>
    i2cRxQueue s' = i2cRxQueue s \<and> selectRxQueue s' = selectRxQueue s \<and>
    ring_contents 1024 (midiRxQueue s') = [] \<and>
    deliver_midi h (ring_contents 1024 (midiRxQueue s)) s = Some s'"
proof -
  let ?P = "\<lambda>r. rx_inv r \<and> proceeds s r \<and> rx_frame r = rx_frame s \<and> i2cRxQueue r = i2cRxQueue s \<and> selectRxQueue r = selectRxQueue s"
  have "\<exists>s'. flush_midi h s = Some s' \<and> ?P s' \<and> ring_inv 1024 (midiRxQueue s') \<and>
      ring_contents 1024 (midiRxQueue s') = [] \<and>
      deliver_midi h (ring_contents 1024 (midiRxQueue s)) s = Some s'"
    unfolding deliver_midi_def
  proof (rule rq.drain_loop)
    show "flush_midi h r = (case ring_take midi_rx_wrap (midiRxQueue r) of None \<Rightarrow> Some r
        | Some (x, q) \<Rightarrow> Option.bind (map_option snd (ProcessMIDIIn h x (midiRxQueue_update (\<lambda>_. q) r)))
            (flush_midi h))" for r
      by (subst flush_midi.simps) simp
    show "\<exists>s'. map_option snd (ProcessMIDIIn h x (midiRxQueue_update (\<lambda>_. q) r)) = Some s' \<and>
        midiRxQueue s' = q \<and> ?P s'"
      if "?P r" "ring_take midi_rx_wrap (midiRxQueue r) = Some (x, q)" for x q r
      using turn_midi [OF _ that(2)] that(1) by (auto intro: proceeds_trans)
  qed (use assms in \<open>simp_all add: kept_defs\<close>)
  then show ?thesis by blast
qed

lemma FlushMIDIRx_returns:
  assumes "responsive dev" and "rx_inv s"
  shows "\<exists>s1 s2 s'. FlushMIDIRx dev h s = Some s' \<and> rx_inv s' \<and> proceeds s s' \<and> rx_frame s' = rx_frame s \<and>
     ring_contents 256 (i2cRxQueue s') = [] \<and> ring_contents 16 (selectRxQueue s') = [] \<and>
     ring_contents 1024 (midiRxQueue s') = [] \<and>
     deliver_i2c dev (ring_contents 256 (i2cRxQueue s)) s = Some s1 \<and>
     deliver_select h (ring_contents 16 (selectRxQueue s)) s1 = Some s2 \<and>
     deliver_midi h (ring_contents 1024 (midiRxQueue s)) s2 = Some s'"
proof -
  obtain s1 where s1: "flush_i2c dev s = Some s1" "rx_inv s1" "proceeds s s1" "rx_frame s1 = rx_frame s"
      "selectRxQueue s1 = selectRxQueue s" "midiRxQueue s1 = midiRxQueue s"
      "ring_contents 256 (i2cRxQueue s1) = []" "deliver_i2c dev (ring_contents 256 (i2cRxQueue s)) s = Some s1"
    using flush_i2c_drains [OF assms] by blast
  obtain s2 where s2: "flush_select h s1 = Some s2" "rx_inv s2" "proceeds s1 s2" "rx_frame s2 = rx_frame s1"
      "i2cRxQueue s2 = i2cRxQueue s1" "midiRxQueue s2 = midiRxQueue s1"
      "ring_contents 16 (selectRxQueue s2) = []" "deliver_select h (ring_contents 16 (selectRxQueue s1)) s1 = Some s2"
    using flush_select_drains [OF s1(2)] by blast
  obtain s3 where s3: "flush_midi h s2 = Some s3" "rx_inv s3" "proceeds s2 s3" "rx_frame s3 = rx_frame s2"
      "i2cRxQueue s3 = i2cRxQueue s2" "selectRxQueue s3 = selectRxQueue s2"
      "ring_contents 1024 (midiRxQueue s3) = []" "deliver_midi h (ring_contents 1024 (midiRxQueue s2)) s2 = Some s3"
    using flush_midi_drains [OF s2(2)] by blast
  have "proceeds s s3" using s1(3) s2(3) s3(3) by (blast intro: proceeds_trans)
  then show ?thesis
    by (intro exI [of _ s1] exI [of _ s2] exI [of _ s3])
      (use s1 s2 s3 in \<open>simp add: FlushMIDIRx_def\<close>)
qed

end

text \<open>
  C32: \<open>FlushMIDIRx\<close> returns on a responsive device, with the code's message handler, from every well-formed
  state: it leaves all three receive queues empty, has handed every queued value to its parser exactly
  once and in order of arrival (first I2C, then the select bus, then MIDI), and leaves
  \<open>rx_frame\<close> alone: the display buffers and the pending transfer, the controls, the flash controller and the rest of
  the program. Outside the receive side it changes only the display's blanking timer, which the parsers reset, and the
  MIDI output queue with its pending flag, through the pass-through command.
\<close>

theorem FlushMIDIRx_drains:
  assumes "responsive dev" and "rx_inv s"
  shows "\<exists>s1 s2 s'. FlushMIDIRx dev DefaultMIDIMessageHandler s = Some s' \<and> rx_inv s' \<and> proceeds s s' \<and> rx_frame s' = rx_frame s \<and>
     ring_contents 256 (i2cRxQueue s') = [] \<and> ring_contents 16 (selectRxQueue s') = [] \<and>
     ring_contents 1024 (midiRxQueue s') = [] \<and>
     deliver_i2c dev (ring_contents 256 (i2cRxQueue s)) s = Some s1 \<and>
     deliver_select DefaultMIDIMessageHandler (ring_contents 16 (selectRxQueue s)) s1 = Some s2 \<and>
     deliver_midi DefaultMIDIMessageHandler (ring_contents 1024 (midiRxQueue s)) s2 = Some s'"
  by (rule default_rx.FlushMIDIRx_returns [OF assms])

text \<open>A state as \<open>APP_Initialize\<close> leaves it, with one clock byte received.\<close>

definition demo_receive :: receive where
  "demo_receive = i2c.extend demo_i2c (receive.fields (ring_empty 16 0) (ring_put midi_rx_wrap 0xF8 (ring_empty 1024 0)))"

lemma demo_receive_inv: "rx_inv demo_receive"
proof -
  have "ring_inv 16 (ring_empty 16 (0 :: u8))" "ring_inv 1024 (ring_empty 1024 (0 :: u8))"
    using ring_empty_contents [of 16 "0 :: u8"] ring_empty_contents [of 1024 "0 :: u8"] by simp_all
  moreover have "i2c_inv demo_receive"
    using i2c_inv_demo by (simp add: demo_receive_def i2c.defs receive.defs i2c_inv_def)
  moreover have "ring_inv 736 (midiQueue demo_i2c)" "parser_inv (parser demo_i2c)" "recall_inv (recallParser demo_i2c)"
    using demo_i2c_simps(9) demo_recall_inv parser_inv_demo
    by (simp_all add: midi_ok_def demo_i2c_def recall.defs i2c.defs demo_recall_def midi_in.defs)
  ultimately show ?thesis
    by (simp add: rx_inv_def demo_receive_def i2c.defs receive.defs rq.put_ring_inv)
qed

lemma FlushMIDIRx_drains_witness:
  "\<exists>s'. FlushMIDIRx ready_device DefaultMIDIMessageHandler demo_receive = Some s' \<and>
     ring_contents 1024 (midiRxQueue s') = []"
  using FlushMIDIRx_drains [OF responsive_ready_device demo_receive_inv] by blast


section \<open>The echo of the select bus\<close>

text \<open>
  What the program sends to the select bus it also receives. The handler drops as many bytes as
  \<open>recallIgnoreBytes\<close> says.
\<close>

lemma select_enqueue_put: "select_enqueue b s = s\<lparr>selectRxQueue := ring_put select_rx_wrap b (selectRxQueue s)\<rparr>"
  by (simp add: select_enqueue_def ring_put_def Let_def)

lemma midi_enqueue_put: "midi_enqueue b s = s\<lparr>midiRxQueue := ring_put midi_rx_wrap b (midiRxQueue s)\<rparr>"
  by (simp add: midi_enqueue_def ring_put_def Let_def)

lemma select_burst:
  fixes s :: "'a receive_scheme"
  defines "recv \<equiv> fold (\<lambda>b. UART2RXInterruptHandler True True b :: 'a receive_scheme \<Rightarrow> _)"
  shows "selectRxQueue (recv ds s) =
      fold (ring_put select_rx_wrap) (drop (unat (recallIgnoreBytes s)) ds) (selectRxQueue s) \<and>
    recallIgnoreBytes (recv ds s) = of_nat (unat (recallIgnoreBytes s) - length ds)"
proof (induction ds arbitrary: s)
  case Nil
  then show ?case by (simp add: recv_def)
next
  case (Cons d ds)
  let ?s = "UART2RXInterruptHandler True True d s"
  have step: "recv (d # ds) s = recv ds ?s" by (simp add: recv_def)
  show ?case
  proof (cases "recallIgnoreBytes s = 0")
    case True
    then have "recallIgnoreBytes ?s = 0"
      "selectRxQueue ?s = ring_put select_rx_wrap d (selectRxQueue s)"
      by (simp_all add: UART2RXInterruptHandler_def select_enqueue_put wr_def emit_def)
    with Cons.IH [of ?s] True show ?thesis unfolding step by simp
  next
    case False
    then have pos: "0 < recallIgnoreBytes s" by (simp add: word_neq_0_conv)
    then have "unat (recallIgnoreBytes s) = Suc (unat (recallIgnoreBytes s - 1))"
      by (simp add: unat_minus_one False unat_gt_0)
    moreover have "recallIgnoreBytes ?s = recallIgnoreBytes s - 1" "selectRxQueue ?s = selectRxQueue s"
      using pos by (simp_all add: UART2RXInterruptHandler_def wr_def emit_def)
    ultimately show ?thesis using Cons.IH [of ?s] unfolding step by simp
  qed
qed

text \<open>
  the select-bus receive interrupt drops exactly the next \<open>recallIgnoreBytes\<close> bytes, the echo of what was
  sent, and queues every byte after them in order, as far as there is room; the counter never wraps below zero.
\<close>

theorem select_echo_ignored:
  fixes s :: "'a receive_scheme"
  assumes "rx_inv s" and "n = unat (recallIgnoreBytes s)"
    and "length (ring_contents 16 (selectRxQueue s)) + (length ds - n) \<le> 15"
  shows "ring_contents 16 (selectRxQueue (fold (UART2RXInterruptHandler True True) ds s)) =
      ring_contents 16 (selectRxQueue s) @ drop n ds \<and>
    recallIgnoreBytes (fold (UART2RXInterruptHandler True True) ds s) = of_nat (n - length ds)"
  using select_burst [of ds s] sq.put_list [of "selectRxQueue s" "drop n ds"] assms
  by (simp add: rx_inv_def)

lemma select_echo_ignored_witness:
  "ring_contents 16 (selectRxQueue (fold (UART2RXInterruptHandler True True) [0xC0, 5, 0xF4]
     (demo_receive\<lparr>recallIgnoreBytes := 2\<rparr>))) = [0xF4]"
proof -
  have c: "ring_contents 16 (ring_empty 16 (0 :: u8)) = []"
    using ring_empty_contents [of 16 "0 :: u8"] by simp
  have q: "selectRxQueue (demo_receive\<lparr>recallIgnoreBytes := 2\<rparr>) = ring_empty 16 0"
    by (simp add: demo_receive_def i2c.defs receive.defs)
  have "rx_inv (demo_receive\<lparr>recallIgnoreBytes := 2\<rparr>)"
    using demo_receive_inv by (simp add: kept_defs)
  from select_echo_ignored [OF this refl, of "[0xC0, 5, 0xF4]"] show ?thesis
    by (simp add: q c)
qed

text \<open>
  the order of the two steps in \<open>ProcessI2CMIDICommand\<close> matters: it sends all bytes and only then
  raises \<open>recallIgnoreBytes\<close>. When the echo of the first byte arrives before that (the transmitter
  was full while the later bytes waited), that byte is queued as if another device had sent
  it, and after the remaining echoes the counter is left at 1: the next byte from the bus is dropped.
\<close>

theorem select_echo_race:
  fixes s :: "'a receive_scheme"
  assumes "rx_inv s" and "recallIgnoreBytes s = 0" and "length ds < 3"
    and "length (ring_contents 16 (selectRxQueue s)) < 15"
  shows "let t = UART2RXInterruptHandler True True b s;
       u = t\<lparr>recallIgnoreBytes := recallIgnoreBytes t + of_nat (length (b # ds))\<rparr>;
       v = fold (UART2RXInterruptHandler True True) (ds @ [x]) u
     in ring_contents 16 (selectRxQueue v) = ring_contents 16 (selectRxQueue s) @ [b] \<and> recallIgnoreBytes v = 0"
proof -
  define t where "t = UART2RXInterruptHandler True True b s"
  define u where "u = t\<lparr>recallIgnoreBytes := recallIgnoreBytes t + of_nat (length (b # ds))\<rparr>"
  define v where "v = fold (UART2RXInterruptHandler True True) (ds @ [x]) u"
  have t: "selectRxQueue t = ring_put select_rx_wrap b (selectRxQueue s)" "recallIgnoreBytes t = 0"
    using assms(2) by (simp_all add: t_def UART2RXInterruptHandler_def select_enqueue_put wr_def emit_def)
  have inv: "ring_inv 16 (selectRxQueue s)" using assms(1) by (simp add: rx_inv_def)
  have ign: "unat (recallIgnoreBytes u) = Suc (length ds)"
    using assms(3) t(2) by (simp add: u_def unat_of_nat flip: of_nat_Suc del: of_nat_add)
  have "selectRxQueue v = selectRxQueue u" "recallIgnoreBytes v = 0"
    using select_burst [of "ds @ [x]" u] ign by (simp_all add: v_def)
  moreover have "selectRxQueue u = selectRxQueue t" by (simp add: u_def)
  ultimately have "ring_contents 16 (selectRxQueue v) = ring_contents 16 (selectRxQueue s) @ [b] \<and> recallIgnoreBytes v = 0"
    using sq.put_contents [OF inv, of b] assms(4) t(1) by simp
  then show ?thesis unfolding Let_def t_def u_def v_def .
qed

lemma select_echo_race_witness:
  "ring_contents 16 (selectRxQueue (fold (UART2RXInterruptHandler True True) [5, 0xF8]
     ((UART2RXInterruptHandler True True 0xC0 demo_receive)\<lparr>recallIgnoreBytes := 2\<rparr>))) = [0xC0]"
proof -
  have c: "ring_contents 16 (ring_empty 16 (0 :: u8)) = []"
    using ring_empty_contents [of 16 "0 :: u8"] by simp
  have q: "selectRxQueue demo_receive = ring_empty 16 0" "recallIgnoreBytes demo_receive = 0"
    by (simp_all add: demo_receive_def i2c.defs receive.defs)
  have "length [5 :: u8] < 3" "length (ring_contents 16 (selectRxQueue demo_receive)) < 15"
    using c by (simp_all add: q del: length_ring_contents)
  moreover have "recallIgnoreBytes (UART2RXInterruptHandler True True 0xC0 demo_receive) = 0"
    by (simp add: UART2RXInterruptHandler_def select_enqueue_put wr_def emit_def q)
  ultimately show ?thesis
    using select_echo_race [OF demo_receive_inv q(2), of "[5]" "0xC0" "0xF8"] by (simp add: q c Let_def)
qed

end
