(* ===== verification/Algorithm.thy ===== *)
theory Algorithm
  imports Shared_State
begin

text \<open>
  The control side of \<open>algorithm.cc\<close>: the settings, their set-up from the flash memory, and the user
  interface run 600 times a second. The signal processors are those of the peaks library, a
  submodule that is not part of the sources: its constants and functions are the fields of
  \<open>peaks_lib\<close>, a parameter. A processor is known by the calls made to it, which are logged in
  \<open>processor_calls\<close>. \<open>None\<close> stands for an access outside an array.
\<close>

section \<open>The library and the data\<close>

datatype processor_function =
    PROCESSOR_FUNCTION_ENVELOPE | PROCESSOR_FUNCTION_LFO | PROCESSOR_FUNCTION_TAP_LFO
  | PROCESSOR_FUNCTION_BASS_DRUM | PROCESSOR_FUNCTION_SNARE_DRUM | PROCESSOR_FUNCTION_MINI_SEQUENCER
  | PROCESSOR_FUNCTION_PULSE_SHAPER | PROCESSOR_FUNCTION_PULSE_RANDOMIZER | PROCESSOR_FUNCTION_FM_DRUM

datatype processor_call =
    Init nat | set_function nat processor_function | set_parameter nat nat int | Process nat "int list"

text \<open>
  The functions of the library get the log of the calls so far: \<open>processor_function\<close> is
  \<open>processors[i].function()\<close>, \<open>processor_output\<close> the buffer that \<open>processors[i].Process\<close> fills.
  \<open>GateFlags_of\<close> is the conversion to the library's type \<open>GateFlags\<close>.
\<close>

record peaks_lib =
  EDIT_MODE_TWIN :: int
  EDIT_MODE_SPLIT :: int
  EDIT_MODE_FIRST :: int
  EDIT_MODE_SECOND :: int
  FUNCTION_ENVELOPE :: int
  GATE_FLAG_FROM_BUTTON :: int
  ExtractGateFlags :: "int \<Rightarrow> int \<Rightarrow> int"
  GateFlags_of :: "int \<Rightarrow> int"
  processor_function :: "processor_call list \<Rightarrow> nat \<Rightarrow> int"
  processor_output :: "processor_call list \<Rightarrow> nat \<Rightarrow> int list \<Rightarrow> int list"

record algorithm_data =
  gate_flags :: "int list"
  schmittTrigger :: "bool list"
  edit_mode :: int
  settings_function :: "int list"
  lastEncSw :: "bool list"
  holdCounter :: "int list"
  encoderValue :: "int list"
  potValue :: "int list"
  processorParams :: "u16 list list"
  writeToFlash :: bool
  processor_calls :: "processor_call list"

definition kPeaksMagic :: u32 where "kPeaksMagic = 0xbeefbeac"
definition PEAKS_NVM_BASE :: u32 where "PEAKS_NVM_BASE = 0xBD100000"

definition pcall :: "processor_call \<Rightarrow> algorithm_data \<Rightarrow> algorithm_data" where
  "pcall c a = a\<lparr>processor_calls := processor_calls a @ [c]\<rparr>"

definition set_param :: "nat \<Rightarrow> nat \<Rightarrow> int \<Rightarrow> algorithm_data \<Rightarrow> algorithm_data" where
  "set_param which j v a =
     a\<lparr>processorParams := (processorParams a)[which := (processorParams a ! which)[j := word_of_int v]]\<rparr>"

section \<open>Functions\<close>

definition function_table :: "(processor_function \<times> processor_function) list" where
  "function_table =
    [(PROCESSOR_FUNCTION_ENVELOPE, PROCESSOR_FUNCTION_ENVELOPE),
     (PROCESSOR_FUNCTION_LFO, PROCESSOR_FUNCTION_LFO),
     (PROCESSOR_FUNCTION_TAP_LFO, PROCESSOR_FUNCTION_TAP_LFO),
     (PROCESSOR_FUNCTION_BASS_DRUM, PROCESSOR_FUNCTION_SNARE_DRUM),
     (PROCESSOR_FUNCTION_MINI_SEQUENCER, PROCESSOR_FUNCTION_MINI_SEQUENCER),
     (PROCESSOR_FUNCTION_PULSE_SHAPER, PROCESSOR_FUNCTION_PULSE_SHAPER),
     (PROCESSOR_FUNCTION_PULSE_RANDOMIZER, PROCESSOR_FUNCTION_PULSE_RANDOMIZER),
     (PROCESSOR_FUNCTION_FM_DRUM, PROCESSOR_FUNCTION_FM_DRUM)]"

text \<open>\<open>index\<close> is a \<open>uint8_t\<close>, so a negative argument wraps; the first branch ignores it.\<close>

definition SetFunction :: "peaks_lib \<Rightarrow> u8 \<Rightarrow> int \<Rightarrow> algorithm_data \<Rightarrow> algorithm_data option" where
  "SetFunction pk index f a =
     (if \<not> (0 \<le> f \<and> f < int (length function_table)) then None
      else let row = function_table ! nat f in
        if edit_mode a = EDIT_MODE_SPLIT pk \<or> edit_mode a = EDIT_MODE_TWIN pk
        then Some (pcall (set_function 1 (snd row)) (pcall (set_function 0 (fst row)) (a\<lparr>settings_function := [f, f]\<rparr>)))
        else if index < 2
        then Some (pcall (set_function (unat index) (if index = 0 then fst row else snd row))
               (a\<lparr>settings_function := (settings_function a)[unat index := f]\<rparr>))
        else None)"

text \<open>
  The data zeroed by \<open>memset\<close>, and the set-up. \<open>flash\<close> is the memory at \<open>PEAKS_NVM_BASE\<close> as 32-bit words.
\<close>

definition zero_data :: "algorithm_data \<Rightarrow> algorithm_data" where
  "zero_data a = \<lparr>gate_flags = [0, 0], schmittTrigger = [False, False], edit_mode = 0, settings_function = [0, 0],
     lastEncSw = [False, False], holdCounter = [0, 0], encoderValue = [0, 0], potValue = [0, 0],
     processorParams = [[0, 0, 0, 0], [0, 0, 0, 0]], writeToFlash = False,
     processor_calls = processor_calls a\<rparr>"

definition algorithm_init :: "peaks_lib \<Rightarrow> (nat \<Rightarrow> u32) \<Rightarrow> algorithm_data \<Rightarrow> algorithm_data option" where
  "algorithm_init pk flash a =
     (let a = (zero_data a)\<lparr>lastEncSw := [True, True]\<rparr>;
          a = pcall (Init 1) (pcall (Init 0) a)
      in if flash 0 = kPeaksMagic
         then do {
           let a = a\<lparr>edit_mode := sint (flash 1)\<rparr>;
           a \<leftarrow> SetFunction pk 0 (sint (flash 2)) a;
           SetFunction pk 1 (sint (flash 3)) a }
         else Some (a\<lparr>edit_mode := EDIT_MODE_TWIN pk,
                      settings_function := [FUNCTION_ENVELOPE pk, FUNCTION_ENVELOPE pk]\<rparr>))"

section \<open>The buttons\<close>

text \<open>\<open>sw\<close> is \<open>halfState[i].encSW\<close>, true when the button is not pressed.\<close>

definition left_edge :: "bool \<Rightarrow> algorithm_data \<Rightarrow> algorithm_data" where
  "left_edge sw a =
     (if sw \<and> \<not> lastEncSw a ! 0
      then if holdCounter a ! 0 < SLOW_RATE
           then a\<lparr>edit_mode := edit_mode a XOR 1, writeToFlash := True\<rparr> else a
      else if \<not> sw \<and> lastEncSw a ! 0 then a\<lparr>holdCounter := (holdCounter a)[0 := 0]\<rparr>
      else a)"

definition left_hold :: "peaks_lib \<Rightarrow> bool \<Rightarrow> algorithm_data \<Rightarrow> algorithm_data" where
  "left_hold pk sw a =
     (if \<not> sw
      then let a = a\<lparr>holdCounter := (holdCounter a)[0 := holdCounter a ! 0 + 1]\<rparr> in
        if holdCounter a ! 0 = SLOW_RATE
        then a\<lparr>edit_mode := (if edit_mode a AND 2 \<noteq> 0 then EDIT_MODE_TWIN pk else EDIT_MODE_FIRST pk),
               writeToFlash := True\<rparr>
        else a
      else a)"

definition left_button :: "peaks_lib \<Rightarrow> bool \<Rightarrow> algorithm_data \<Rightarrow> algorithm_data" where
  "left_button pk sw a =
     (let a = left_hold pk sw (left_edge sw a) in a\<lparr>lastEncSw := (lastEncSw a)[0 := sw]\<rparr>)"

text \<open>\<open>next_function\<close> is the step among the four functions of a bank, \<open>f ^ 4\<close> the change of bank.\<close>

definition next_function :: "u8 \<Rightarrow> u8" where
  "next_function f = (f AND 4) OR (((f AND 3) + 1) AND 3)"

definition current_function :: "peaks_lib \<Rightarrow> algorithm_data \<Rightarrow> u8" where
  "current_function pk a = word_of_int (if edit_mode a = EDIT_MODE_SECOND pk then settings_function a ! 1 else settings_function a ! 0)"

definition select_function :: "peaks_lib \<Rightarrow> u8 \<Rightarrow> algorithm_data \<Rightarrow> algorithm_data option" where
  "select_function pk f a =
     map_option (writeToFlash_update (\<lambda>_. True))
       (SetFunction pk (word_of_int (edit_mode a - EDIT_MODE_FIRST pk)) (uint f) a)"

definition right_button :: "peaks_lib \<Rightarrow> bool \<Rightarrow> algorithm_data \<Rightarrow> algorithm_data option" where
  "right_button pk sw a = (let f = current_function pk a; tapped = sw \<and> \<not> lastEncSw a ! 1 \<and> holdCounter a ! 1 < SLOW_RATE in do {
     let f = (if tapped then next_function f else f);
     a \<leftarrow> (if sw \<and> \<not> lastEncSw a ! 1 then (if tapped then select_function pk f a else Some a)
           else if \<not> sw \<and> lastEncSw a ! 1 then Some (a\<lparr>holdCounter := (holdCounter a)[1 := 0]\<rparr>)
           else Some a);
     a \<leftarrow> (if \<not> sw
           then let a = a\<lparr>holdCounter := (holdCounter a)[1 := holdCounter a ! 1 + 1]\<rparr> in
             if holdCounter a ! 1 = SLOW_RATE then select_function pk (f XOR 4) a else Some a
           else Some a);
     Some (a\<lparr>lastEncSw := (lastEncSw a)[1 := sw]\<rparr>) })"

section \<open>Encoders and pots\<close>

text \<open>\<open>APPLY_RANGE\<close> of \<open>app.h\<close>.\<close>

definition APPLY_RANGE :: "int \<Rightarrow> int \<Rightarrow> int \<Rightarrow> int" where
  "APPLY_RANGE x m n = (if x < m then m else if x > n then n else x)"

definition kEncoderScale :: int where "kEncoderScale = 1000"

definition encoder :: "peaks_lib \<Rightarrow> nat \<Rightarrow> int \<Rightarrow> algorithm_data \<Rightarrow> algorithm_data" where
  "encoder pk i enc a =
     (if enc = 0 then a
      else let v = APPLY_RANGE (encoderValue a ! i + kEncoderScale * enc) 0 65535;
               a = a\<lparr>encoderValue := (encoderValue a)[i := v]\<rparr>;
               mode = edit_mode a
      in if mode = EDIT_MODE_TWIN pk
         then set_param 1 i v (set_param 0 i v (pcall (set_parameter 1 i v) (pcall (set_parameter 0 i v) a)))
         else if mode = EDIT_MODE_SPLIT pk then set_param 0 i v (pcall (set_parameter 0 i v) a)
         else if mode = EDIT_MODE_FIRST pk \<or> mode = EDIT_MODE_SECOND pk
         then let which = nat (mode - EDIT_MODE_FIRST pk);
                  v = APPLY_RANGE (uint (processorParams a ! which ! i) + kEncoderScale * enc) 0 65535
              in set_param which i v (pcall (set_parameter which i v) a)
         else a)"

text \<open>\<open>pot\<close> is \<open>adcs.Z[i].value << 1\<close>; a pot that moved less than 1024 is ignored.\<close>

definition move_pot :: "peaks_lib \<Rightarrow> nat \<Rightarrow> int \<Rightarrow> algorithm_data \<Rightarrow> algorithm_data" where
  "move_pot pk i pot a =
     (if \<bar>pot - potValue a ! i\<bar> < 1024 then a
      else let a = a\<lparr>potValue := (potValue a)[i := pot]\<rparr>;
               mode = edit_mode a
      in if mode = EDIT_MODE_TWIN pk
         then set_param 1 (2 + i) pot (set_param 0 (2 + i) pot
                (pcall (set_parameter 1 (2 + i) pot) (pcall (set_parameter 0 (2 + i) pot) a)))
         else if mode = EDIT_MODE_SPLIT pk then set_param 1 i pot (pcall (set_parameter 1 i pot) a)
         else if mode = EDIT_MODE_FIRST pk \<or> mode = EDIT_MODE_SECOND pk
         then let which = nat (mode - EDIT_MODE_FIRST pk)
              in set_param which (2 + i) pot (pcall (set_parameter which (2 + i) pot) a)
         else a)"

text \<open>
  The whole pass: \<open>sw\<close> the two encoder buttons, \<open>enc\<close> the encoder steps, \<open>z\<close> the two \<open>adcs.Z[i].value\<close>.
\<close>

definition user_interface ::
    "peaks_lib \<Rightarrow> bool \<times> bool \<Rightarrow> int list \<Rightarrow> int list \<Rightarrow> algorithm_data \<Rightarrow> algorithm_data option" where
  "user_interface pk sw enc z a = do {
     let a = left_button pk (fst sw) a;
     a \<leftarrow> right_button pk (snd sw) a;
     let a = encoder pk 1 (enc ! 1) (encoder pk 0 (enc ! 0) a);
     Some (move_pot pk 1 (z ! 1 * 2) (move_pot pk 0 (z ! 0 * 2) a)) }"


section \<open>The invariant\<close>

text \<open>
  What the code relies on in the library: the edit modes are numbered in the order in which
  \<open>algorithm_display\<close> lists their names, and the first function is a row of the table.
\<close>

definition peaks_enums :: "peaks_lib \<Rightarrow> bool" where
  "peaks_enums pk \<longleftrightarrow> EDIT_MODE_TWIN pk = 0 \<and> EDIT_MODE_SPLIT pk = 1 \<and> EDIT_MODE_FIRST pk = 2 \<and>
     EDIT_MODE_SECOND pk = 3 \<and> 0 \<le> FUNCTION_ENVELOPE pk \<and> FUNCTION_ENVELOPE pk < 8"

definition call_ok :: "processor_call \<Rightarrow> bool" where
  "call_ok c = (case c of
     Init i \<Rightarrow> i < 2 | set_function i f \<Rightarrow> i < 2
   | set_parameter i j v \<Rightarrow> i < 2 \<and> j < 4 \<and> 0 \<le> v \<and> v \<le> 65535
   | Process i xs \<Rightarrow> i < 2 \<and> length xs = 4)"

definition alg_inv :: "algorithm_data \<Rightarrow> bool" where
  "alg_inv a \<longleftrightarrow> 0 \<le> edit_mode a \<and> edit_mode a < 4 \<and>
     length (settings_function a) = 2 \<and> (\<forall>f\<in>set (settings_function a). 0 \<le> f \<and> f < 8) \<and>
     length (encoderValue a) = 2 \<and> (\<forall>v\<in>set (encoderValue a). 0 \<le> v \<and> v \<le> 65535) \<and>
     length (lastEncSw a) = 2 \<and> length (holdCounter a) = 2 \<and> length (potValue a) = 2 \<and>
     length (processorParams a) = 2 \<and> (\<forall>ps\<in>set (processorParams a). length ps = 4) \<and>
     length (gate_flags a) = 2 \<and> length (schmittTrigger a) = 2 \<and>
     (\<forall>c\<in>set (processor_calls a). call_ok c)"

lemma length_function_table [simp]: "length function_table = 8"
  by (simp add: function_table_def)

lemma APPLY_RANGE_bounds: "m \<le> n \<Longrightarrow> m \<le> APPLY_RANGE x m n \<and> APPLY_RANGE x m n \<le> n"
  by (simp add: APPLY_RANGE_def)

lemma alg_inv_frame [inv_intros]:
  "alg_inv a \<Longrightarrow> call_ok c \<Longrightarrow> alg_inv (pcall c a)"
  "alg_inv a \<Longrightarrow> alg_inv (a\<lparr>writeToFlash := w\<rparr>)"
  "alg_inv a \<Longrightarrow> alg_inv (a\<lparr>holdCounter := (holdCounter a)[i := n]\<rparr>)"
  "alg_inv a \<Longrightarrow> alg_inv (a\<lparr>lastEncSw := (lastEncSw a)[i := b]\<rparr>)"
  "alg_inv a \<Longrightarrow> alg_inv (a\<lparr>potValue := (potValue a)[i := n]\<rparr>)"
  "alg_inv a \<Longrightarrow> 0 \<le> m \<Longrightarrow> m < 4 \<Longrightarrow> alg_inv (a\<lparr>edit_mode := m\<rparr>)"
  by (simp_all add: alg_inv_def pcall_def)

lemma alg_inv_values [inv_intros]:
  "alg_inv a \<Longrightarrow> 0 \<le> v \<Longrightarrow> v \<le> 65535 \<Longrightarrow> alg_inv (a\<lparr>encoderValue := (encoderValue a)[i := v]\<rparr>)"
  "alg_inv a \<Longrightarrow> 0 \<le> f \<Longrightarrow> f < 8 \<Longrightarrow> alg_inv (a\<lparr>settings_function := (settings_function a)[i := f]\<rparr>)"
  by (auto simp: alg_inv_def dest!: set_update_subset_insert [THEN subsetD])

lemma alg_inv_set_param [inv_intros]:
  assumes "alg_inv a" and "which < 2" shows "alg_inv (set_param which j v a)"
proof -
  have "\<forall>ps\<in>set ((processorParams a)[which := (processorParams a ! which)[j := word_of_int v]]). length ps = 4"
    using assms by (auto simp: alg_inv_def dest!: set_update_subset_insert [THEN subsetD])
  with assms(1) show ?thesis by (simp add: alg_inv_def set_param_def)
qed

lemma u8_less_2: "index < 2 \<longleftrightarrow> index = 0 \<or> index = (1 :: u8)"
proof -
  have "unat index < 2 \<longleftrightarrow> unat index = 0 \<or> unat index = 1" by auto
  moreover have "unat index = 1 \<longleftrightarrow> index = 1" using word_unat_eq_iff [of index 1] by simp
  moreover have "index < 2 \<longleftrightarrow> unat index < 2" by (simp add: word_less_nat_alt)
  ultimately show ?thesis by (simp add: unat_eq_0)
qed

lemma alg_modes: "alg_inv a \<Longrightarrow> edit_mode a = 0 \<or> edit_mode a = 1 \<or> edit_mode a = 2 \<or> edit_mode a = 3"
proof -
  assume "alg_inv a"
  then have "0 \<le> edit_mode a" "edit_mode a < 4" by (simp_all add: alg_inv_def)
  then show ?thesis by linarith
qed

lemma SetFunction_inv:
  assumes "peaks_enums pk" and "alg_inv a" and "0 \<le> f" and "f < 8"
    and "2 \<le> edit_mode a \<Longrightarrow> index < 2"
  shows "\<exists>a'. SetFunction pk index f a = Some a' \<and> alg_inv a' \<and> edit_mode a' = edit_mode a"
proof (cases "edit_mode a < 2")
  case True
  have "alg_inv (a\<lparr>settings_function := [f, f]\<rparr>)" using assms(2-4) by (simp add: alg_inv_def)
  then have "alg_inv (pcall (set_function 1 p) (pcall (set_function 0 q) (a\<lparr>settings_function := [f, f]\<rparr>)))" for p q
    by (intro inv_intros) (simp_all add: call_ok_def)
  moreover have "edit_mode a = 0 \<or> edit_mode a = 1" using True alg_modes [OF assms(2)] by auto
  ultimately show ?thesis
    using assms(1,3,4) by (auto simp: SetFunction_def peaks_enums_def pcall_def Let_def)
next
  case False
  then have "index < 2" using assms(5) by simp
  then have "call_ok (set_function (unat index) p)" for p
    by (simp add: call_ok_def word_less_nat_alt)
  then have "alg_inv (pcall (set_function (unat index) p) (a\<lparr>settings_function := (settings_function a)[unat index := f]\<rparr>))" for p
    using assms(2-4) by (intro inv_intros) simp_all
  moreover have "edit_mode a \<noteq> 0" "edit_mode a \<noteq> 1" using False by auto
  ultimately show ?thesis
    using assms(1,3,4) \<open>index < 2\<close> by (simp add: SetFunction_def peaks_enums_def pcall_def Let_def)
qed


section \<open>The user interface keeps it\<close>

lemma left_button_inv:
  assumes "peaks_enums pk" and "alg_inv a" shows "alg_inv (left_button pk sw a)"
proof -
  have toggle: "0 \<le> edit_mode b XOR 1 \<and> edit_mode b XOR 1 < 4" if "alg_inv b" for b
    using alg_modes [OF that] by (elim disjE) simp_all
  have modes: "0 \<le> EDIT_MODE_TWIN pk" "EDIT_MODE_TWIN pk < 4" "0 \<le> EDIT_MODE_FIRST pk" "EDIT_MODE_FIRST pk < 4"
    using assms(1) by (simp_all add: peaks_enums_def)
  have "alg_inv (left_edge sw a)"
    using assms(2) toggle [OF assms(2)] by (simp add: left_edge_def inv_intros)
  moreover have "alg_inv (left_hold pk sw b)" if "alg_inv b" for b
    using that modes by (simp add: left_hold_def inv_intros Let_def)
  ultimately show ?thesis by (simp add: left_button_def inv_intros Let_def)
qed

lemma small_u8: "0 \<le> f \<Longrightarrow> f < 8 \<Longrightarrow> f = 0 \<or> f = 1 \<or> f = 2 \<or> f = 3 \<or> f = 4 \<or> f = 5 \<or> f = 6 \<or> f = (7 :: int)"
  by linarith

lemma function_steps:
  assumes "0 \<le> f" and "f < 8"
  shows "uint (next_function (word_of_int f)) < 8" and "uint ((word_of_int f :: u8) XOR 4) < 8"
    and "uint (next_function (word_of_int f) XOR 4) < 8"
  using small_u8 [OF assms] by (elim disjE; simp add: next_function_def)+

lemma current_function_eq:
  assumes "alg_inv a"
  shows "\<exists>f. current_function pk a = word_of_int f \<and> 0 \<le> f \<and> f < 8"
  using assms by (intro exI [of _ "if edit_mode a = EDIT_MODE_SECOND pk then settings_function a ! 1 else settings_function a ! 0"])
    (auto simp: current_function_def alg_inv_def)

lemma select_function_inv:
  assumes "peaks_enums pk" and "alg_inv a" and "uint f < 8"
  shows "\<exists>a'. select_function pk f a = Some a' \<and> alg_inv a'"
proof -
  have "(word_of_int (edit_mode a - EDIT_MODE_FIRST pk) :: u8) < 2" if "2 \<le> edit_mode a"
    using that alg_modes [OF assms(2)] assms(1) by (auto simp: peaks_enums_def u8_less_2)
  from SetFunction_inv [OF assms(1,2) _ assms(3) this]
  obtain a' where "SetFunction pk (word_of_int (edit_mode a - EDIT_MODE_FIRST pk)) (uint f) a = Some a'" "alg_inv a'"
    by auto
  then show ?thesis by (auto simp: select_function_def intro: inv_intros)
qed

lemma right_button_inv:
  assumes "peaks_enums pk" and "alg_inv a"
  shows "\<exists>a'. right_button pk sw a = Some a' \<and> alg_inv a'"
proof -
  obtain f where f: "current_function pk a = word_of_int f" "0 \<le> f" "f < 8"
    using current_function_eq [OF assms(2)] by blast
  note small = function_steps [OF f(2,3)]
  have held: "alg_inv (a\<lparr>holdCounter := (holdCounter a)[i := n]\<rparr>)" for i n
    by (intro inv_intros assms)
  then have held2: "alg_inv (a\<lparr>holdCounter := ((holdCounter a)[i := n])[j := m]\<rparr>)" for i n j m
    using alg_inv_frame(3) [OF held, of i n j m] by simp
  have press: "\<exists>a'. select_function pk (word_of_int f XOR 4) b = Some a' \<and> alg_inv a'" if "alg_inv b" for b
    using select_function_inv [OF assms(1) that small(2)] .
  obtain t where t: "select_function pk (next_function (word_of_int f)) a = Some t" "alg_inv t"
    using select_function_inv [OF assms(1,2) small(1)] by blast
  show ?thesis
  proof (cases sw)
    case True
    then show ?thesis
      using t assms(2) by (auto simp: right_button_def Let_def f(1) intro: inv_intros)
  next
    case False
    define b where "b = (if lastEncSw a ! 1 then a\<lparr>holdCounter := (holdCounter a)[1 := 0]\<rparr> else a)"
    define c where "c = b\<lparr>holdCounter := (holdCounter b)[1 := holdCounter b ! 1 + 1]\<rparr>"
    have c: "alg_inv c" using held held2 by (simp add: c_def b_def)
    then obtain d where d: "(if holdCounter c ! 1 = SLOW_RATE then select_function pk (word_of_int f XOR 4) c else Some c) = Some d"
        "alg_inv d" using press [OF c] by (cases "holdCounter c ! 1 = SLOW_RATE") auto
    have "right_button pk sw a = Some (d\<lparr>lastEncSw := (lastEncSw d)[1 := sw]\<rparr>)"
      using False d(1) by (auto simp: right_button_def f(1) Let_def c_def b_def split: if_split_asm)
    then show ?thesis using d(2) by (auto intro: inv_intros)
  qed
qed

lemma encoder_inv:
  assumes "peaks_enums pk" and "alg_inv a" and "i < 2"
  shows "alg_inv (encoder pk i enc a)"
proof -
  let ?v = "APPLY_RANGE (encoderValue a ! i + kEncoderScale * enc) 0 65535"
  let ?b = "a\<lparr>encoderValue := (encoderValue a)[i := ?v]\<rparr>"
  have r: "0 \<le> APPLY_RANGE x 0 65535" "APPLY_RANGE x 0 65535 \<le> 65535" for x
    using APPLY_RANGE_bounds [of 0 65535 x] by simp_all
  have b: "alg_inv ?b" using assms(2) r by (intro inv_intros)
  have call: "call_ok (set_parameter k i (APPLY_RANGE x 0 65535))" if "k < 2" for k x
    using r that assms(3) by (simp add: call_ok_def)
  have which: "nat (edit_mode a - 2) < 2" using assms(2) by (auto simp: alg_inv_def)
  show ?thesis
    unfolding encoder_def Let_def using assms(1,2) b which
    by (auto simp: peaks_enums_def intro!: inv_intros call)
qed

lemma move_pot_inv:
  assumes "peaks_enums pk" and "alg_inv a" and "i < 2" and "0 \<le> pot" and "pot \<le> 65535"
  shows "alg_inv (move_pot pk i pot a)"
proof -
  have call: "call_ok (set_parameter k j pot)" if "k < 2" "j < 4" for k j
    using that assms(4,5) by (simp add: call_ok_def)
  have which: "nat (edit_mode a - 2) < 2" using assms(2) by (auto simp: alg_inv_def)
  show ?thesis
    unfolding move_pot_def Let_def using assms(1-3) which
    by (auto simp: peaks_enums_def intro!: inv_intros call)
qed

lemma user_interface_inv:
  assumes "peaks_enums pk" and "alg_inv a" and "0 \<le> z ! 0" and "z ! 0 < 32768" and "0 \<le> z ! 1" and "z ! 1 < 32768"
  shows "\<exists>a'. user_interface pk sw enc z a = Some a' \<and> alg_inv a'"
proof -
  obtain b where "right_button pk (snd sw) (left_button pk (fst sw) a) = Some b" "alg_inv b"
    using right_button_inv [OF assms(1) left_button_inv [OF assms(1,2)]] by blast
  with assms show ?thesis
    by (auto simp: user_interface_def Let_def intro!: move_pot_inv encoder_inv)
qed

text \<open>
  C34: one pass of the user interface always completes and keeps the data well formed, for every
  combination of buttons, encoder steps and pot positions: the edit mode stays one of the four, both
  functions stay rows of the table, and every call made to a signal processor names
  one of the two processors, one of its four parameters and a value of 16 bits.
\<close>

theorem user_interface_safe:
  assumes "peaks_enums pk" and "alg_inv a" and "0 \<le> z ! 0" and "z ! 0 < 32768" and "0 \<le> z ! 1" and "z ! 1 < 32768"
  shows "\<exists>a'. user_interface pk sw enc z a = Some a' \<and> alg_inv a'"
  by (rule user_interface_inv [OF assms])

definition demo_peaks :: peaks_lib where
  "demo_peaks = \<lparr>EDIT_MODE_TWIN = 0, EDIT_MODE_SPLIT = 1, EDIT_MODE_FIRST = 2, EDIT_MODE_SECOND = 3,
     FUNCTION_ENVELOPE = 0, GATE_FLAG_FROM_BUTTON = 128, ExtractGateFlags = (\<lambda>f g. if g = 0 then 0 else 1),
     GateFlags_of = (\<lambda>g. g mod 256), processor_function = (\<lambda>cs i. 0), processor_output = (\<lambda>cs i xs. [0, 0, 0, 0])\<rparr>"

definition demo_alg :: algorithm_data where
  "demo_alg = \<lparr>gate_flags = [0, 0], schmittTrigger = [False, False], edit_mode = 0, settings_function = [0, 0],
     lastEncSw = [True, True], holdCounter = [0, 0], encoderValue = [0, 0], potValue = [0, 0],
     processorParams = [[0, 0, 0, 0], [0, 0, 0, 0]], writeToFlash = False, processor_calls = []\<rparr>"

lemma demo_alg_ok [simp]: "peaks_enums demo_peaks" "alg_inv demo_alg"
  by (simp_all add: peaks_enums_def demo_peaks_def alg_inv_def demo_alg_def)

lemma user_interface_safe_witness:
  "\<exists>a'. user_interface demo_peaks (True, False) [1, -1] [100, 20000] demo_alg = Some a' \<and> alg_inv a'"
  using user_interface_safe [of demo_peaks demo_alg "[100, 20000]" "(True, False)" "[1, -1]"] by simp

section \<open>Tapping and holding a button\<close>

text \<open>The left button over time: \<open>n\<close> passes pressed and one released.\<close>

definition press_left :: "peaks_lib \<Rightarrow> nat \<Rightarrow> algorithm_data \<Rightarrow> algorithm_data" where
  "press_left pk n a = left_button pk True ((left_button pk False ^^ n) a)"

definition held_mode :: "peaks_lib \<Rightarrow> int \<Rightarrow> int" where
  "held_mode pk m = (if m AND 2 \<noteq> 0 then EDIT_MODE_TWIN pk else EDIT_MODE_FIRST pk)"

lemma left_held:
  assumes "lastEncSw a = [True, b]" and "length (holdCounter a) = 2"
  shows "(left_button pk False ^^ Suc n) a =
    a\<lparr>lastEncSw := [False, b], holdCounter := [int (Suc n), holdCounter a ! 1],
      edit_mode := (if Suc n < 600 then edit_mode a else held_mode pk (edit_mode a)),
      writeToFlash := (writeToFlash a \<or> 600 \<le> Suc n)\<rparr>"
proof (induction n)
  case 0
  obtain x y where "holdCounter a = [x, y]"
    using assms(2) by (auto simp: numeral_2_eq_2 length_Suc_conv)
  then show ?case using assms(1) by (simp add: left_button_def left_edge_def left_hold_def SLOW_RATE_def Let_def)
next
  case (Suc n)
  show ?case
    unfolding funpow.simps(2) [of "Suc n"] o_def Suc.IH
    by (simp add: left_button_def left_edge_def left_hold_def SLOW_RATE_def Let_def held_mode_def)
qed

text \<open>
  the left button tells a tap from a hold: released within the first second (fewer than 600 passes) it
  flips the lowest bit of the edit mode on release; held for a second or longer it switches between
  the twin and the expert modes exactly once, however long it is held, and the release changes nothing more.
  Both ask for the settings to be saved.
\<close>

theorem left_button_tap_or_hold:
  assumes "lastEncSw a = [True, b]" and "length (holdCounter a) = 2" and "0 < n"
  shows "edit_mode (press_left pk n a) = (if n < 600 then edit_mode a XOR 1 else held_mode pk (edit_mode a)) \<and>
     writeToFlash (press_left pk n a) \<and> lastEncSw (press_left pk n a) = [True, b] \<and>
     settings_function (press_left pk n a) = settings_function a"
proof -
  obtain m where n: "n = Suc m" using assms(3) gr0_implies_Suc by blast
  show ?thesis
    unfolding press_left_def n left_held [OF assms(1,2)]
    by (simp add: left_button_def left_edge_def left_hold_def SLOW_RATE_def Let_def)
qed

lemma left_button_tap_or_hold_witness:
  "edit_mode (press_left demo_peaks 30 demo_alg) = 1 \<and> edit_mode (press_left demo_peaks 5000 demo_alg) = 2"
  using left_button_tap_or_hold [of demo_alg True 30 demo_peaks] left_button_tap_or_hold [of demo_alg True 5000 demo_peaks]
  by (simp add: demo_alg_def held_mode_def demo_peaks_def)

section \<open>Restoring the settings\<close>

lemma algorithm_init_restores:
  assumes "peaks_enums pk" and "alg_inv a" and "settings_function a = [f0, f1]"
    and "flash 0 = kPeaksMagic" "flash 1 = word_of_int (edit_mode a)"
      "flash 2 = word_of_int f0" "flash 3 = word_of_int f1"
  shows "\<exists>a'. algorithm_init pk flash b = Some a' \<and> edit_mode a' = edit_mode a \<and>
     settings_function a' = (if edit_mode a < 2 then [f1, f1] else [f0, f1])"
proof -
  have f: "0 \<le> f0" "f0 < 8" "0 \<le> f1" "f1 < 8" using assms(2,3) by (auto simp: alg_inv_def)
  have sint: "sint (word_of_int x :: u32) = x" if "0 \<le> x" "x < 8" for x
    using small_u8 [OF that] by (elim disjE) simp_all
  have m: "sint (word_of_int (edit_mode a) :: u32) = edit_mode a"
    using alg_modes [OF assms(2)] by (intro sint) auto
  show ?thesis
    using alg_modes [OF assms(2)] assms(1) f
    by (elim disjE)
      (simp_all add: algorithm_init_def Let_def assms(4,6,7) assms(5) [unfolded One_nat_def]
        m [unfolded assms] sint SetFunction_def zero_data_def peaks_enums_def pcall_def)
qed

end
