(* ===== verification/App_State.thy ===== *)
theory App_State
  imports Receive Algorithm
begin

text \<open>
  The rest of the program's state (\<open>app.c\<close>, \<open>app.h\<close>): the converters, the calibration, the audio blocks that
  the DMA channels fill and drain, the page buffer, and the algorithm's data; and the operations on the
  controls: the moving averages of the two pots, and the decoding of the buttons and encoders.

  Floating-point numbers are a type variable with the operations of \<open>float_ops\<close>: what is proved
  holds for every rounding.
\<close>

section \<open>State\<close>

record 'f float_ops =
  f_mul :: "'f \<Rightarrow> 'f \<Rightarrow> 'f"
  f_add :: "'f \<Rightarrow> 'f \<Rightarrow> 'f"
  f_less :: "'f \<Rightarrow> 'f \<Rightarrow> bool"
  f_of_int :: "int \<Rightarrow> 'f"
  f_to_int :: "'f \<Rightarrow> int"
  f_half :: 'f
  f_one :: 'f
  f_output_scale :: 'f

record adc_channel =
  adc_value :: int
  adc_pos :: int
  adc_samples :: "int list"

record adcs_state =
  CV :: int
  Gate :: int
  rawZ :: "int list"
  Z :: "adc_channel list"

record 'f half_calibration =
  Er :: "int list"
  D :: "int list"
  Br :: "int list"
  A :: "int list"
  Brf :: "'f list"
  Erf :: "'f list"
  Ddf :: "'f list"
  Dd :: "int list"

record 'f input_calibration =
  in_Brf :: 'f
  in_mABrf :: 'f

datatype app_states = APP_STATE_INIT | APP_STATE_SERVICE_TASKS

record 'f app = receive +
  adcs :: adcs_state
  slowTimeCountdown :: int
  doServiceAudio :: bool
  blocks_in :: "int list list"
  blocks_out :: "int list list"
  pageBuffer :: "u8 list"
  calibration :: "'f half_calibration list"
  inputCalibrations :: "'f input_calibration list"
  algorithmData :: algorithm_data
  app_state :: app_states

definition k_framesPerBlock :: int where "k_framesPerBlock = 2 * 4"

text \<open>Signed 32-bit arithmetic wraps, and a value stored to a \<open>short\<close> keeps its low 16 bits.\<close>

definition i32 :: "int \<Rightarrow> int" where "i32 x = sint (word_of_int x :: 32 word)"
definition i16 :: "u32 \<Rightarrow> int" where "i16 w = sint (ucast w :: 16 word)"

section \<open>The converters\<close>

definition process_Z :: "int \<Rightarrow> adc_channel \<Rightarrow> adc_channel" where
  "process_Z raw ch =
     ch\<lparr>adc_value := adc_value ch - adc_samples ch ! nat (adc_pos ch) + raw,
        adc_samples := (adc_samples ch)[nat (adc_pos ch) := raw],
        adc_pos := (adc_pos ch + 1) AND 7\<rparr>"

definition processADCZs :: "adcs_state \<Rightarrow> adcs_state" where
  "processADCZs a = a\<lparr>Z := [process_Z (rawZ a ! 0) (Z a ! 0), process_Z (rawZ a ! 1) (Z a ! 1)]\<rparr>"

definition readAndTriggerADCs :: "device \<Rightarrow> input \<Rightarrow> ('f, 'a) app_scheme \<Rightarrow> ('f, 'a) app_scheme" where
  "readAndTriggerADCs dev inp s =
     (let (ready, s) = poll_flag dev ADC_ARDY39 s in
      if ready then
        let t = clock s;
            a = (adcs s)\<lparr>CV := i16 (inp ADCDATA27 t), Gate := i16 (inp ADCDATA28 (t + 1)),
                  rawZ := [i16 (inp ADCDATA38 (t + 2)), i16 (inp ADCDATA39 (t + 3))]\<rparr>;
            s = wr ADCCON3_GSWTRG 1 (tick 4 s)
        in s\<lparr>adcs := processADCZs a\<rparr>
      else s)"

text \<open>The samples of a channel, oldest first.\<close>

definition window :: "adc_channel \<Rightarrow> int list" where
  "window ch = drop (nat (adc_pos ch)) (adc_samples ch) @ take (nat (adc_pos ch)) (adc_samples ch)"

definition channel_inv :: "adc_channel \<Rightarrow> bool" where
  "channel_inv ch \<longleftrightarrow> length (adc_samples ch) = 8 \<and> 0 \<le> adc_pos ch \<and> adc_pos ch < 8 \<and>
     adc_value ch = sum_list (adc_samples ch)"

lemma process_Z_window:
  assumes "channel_inv ch"
  shows "channel_inv (process_Z raw ch)" and "window (process_Z raw ch) = tl (window ch) @ [raw]"
proof -
  obtain p where p: "adc_pos ch = int p" "p < 8"
    using assms nonneg_int_cases [of "adc_pos ch"] by (auto simp: channel_inv_def)
  have len: "length (adc_samples ch) = 8" using assms by (simp add: channel_inv_def)
  let ?xs = "adc_samples ch"
  have split: "?xs = take p ?xs @ ?xs ! p # drop (Suc p) ?xs" using p(2) len by (simp add: id_take_nth_drop)
  have upd: "?xs[p := raw] = take p ?xs @ raw # drop (Suc p) ?xs"
    using p(2) len by (simp add: upd_conv_take_nth_drop)
  have "sum_list ?xs = sum_list (take p ?xs) + ?xs ! p + sum_list (drop (Suc p) ?xs)"
    using arg_cong [OF split, of sum_list] by simp
  then show "channel_inv (process_Z raw ch)"
    using assms p len by (simp add: channel_inv_def process_Z_def idx_simps upd)
  have w: "window ch = ?xs ! p # drop (Suc p) ?xs @ take p ?xs"
    using p len by (simp add: window_def Cons_nth_drop_Suc [symmetric])
  show "window (process_Z raw ch) = tl (window ch) @ [raw]"
  proof (cases "p = 7")
    case True
    then show ?thesis using len p(1) upd [unfolded True] unfolding w
      by (simp add: window_def process_Z_def idx_simps)
  next
    case False
    then have "(int p + 1) mod 8 = int (Suc p)" "nat (int p + 1) = Suc p" using p(2) by simp_all
    with False p len show ?thesis unfolding w
      by (simp add: window_def process_Z_def idx_simps upd)
  qed
qed

text \<open>
  the running value of a pot is always the sum of its last eight conversions: \<open>processADCZs\<close> replaces the
  oldest sample in the ring, so after any sequence of conversions the value is the sum of the last eight
  entries of that sequence (preceded by the samples held before), and no rounding error accumulates. With
  12-bit conversions it stays within 15 bits, so that its double fits the 16-bit parameters.
\<close>

theorem pot_moving_sum:
  assumes "channel_inv ch" and "\<forall>x\<in>set (window ch @ xs). 0 \<le> x \<and> x < 4096"
  shows "adc_value (fold process_Z xs ch) = sum_list (drop (length xs) (window ch @ xs)) \<and>
     length (drop (length xs) (window ch @ xs)) = 8 \<and> channel_inv (fold process_Z xs ch) \<and>
     0 \<le> adc_value (fold process_Z xs ch) \<and> adc_value (fold process_Z xs ch) < 32768"
proof -
  have len: "length (window c) = 8" and sum: "adc_value c = sum_list (window c)" if "channel_inv c" for c
  proof -
    show "length (window c) = 8" using that by (auto simp: channel_inv_def window_def)
    have "sum_list (take n ys) + sum_list (drop n ys) = sum_list ys" for n and ys :: "int list"
      by (metis append_take_drop_id sum_list_append)
    then show "adc_value c = sum_list (window c)"
      using that by (simp add: channel_inv_def window_def add.commute)
  qed
  have run: "channel_inv (fold process_Z xs c) \<and> window (fold process_Z xs c) = drop (length xs) (window c @ xs)"
    if "channel_inv c" for xs c
    using that
  proof (induction xs arbitrary: c)
    case Nil
    then show ?case by simp
  next
    case (Cons x xs)
    obtain y ys where "window c = y # ys" using len [OF Cons.prems] by (cases "window c") auto
    with Cons.IH [OF process_Z_window(1) [OF Cons.prems, of x]] process_Z_window(2) [OF Cons.prems, of x]
    show ?case by simp
  qed
  define w where "w = drop (length xs) (window ch @ xs)"
  have r: "channel_inv (fold process_Z xs ch)" "window (fold process_Z xs ch) = w"
    using run [OF assms(1)] by (simp_all add: w_def)
  have lw: "length w = 8" using len [OF r(1)] r(2) by simp
  have bound: "0 \<le> sum_list ys \<and> sum_list ys \<le> 4095 * int (length ys)" if "\<forall>x\<in>set ys. 0 \<le> x \<and> x < (4096 :: int)" for ys
    using that by (induction ys) auto
  have "\<forall>x\<in>set w. 0 \<le> x \<and> x < 4096"
    using assms(2) set_drop_subset [of "length xs" "window ch @ xs"] unfolding w_def by blast
  from bound [OF this] r lw sum [OF r(1)] show ?thesis unfolding w_def [symmetric] by simp
qed

definition zero_channel :: adc_channel where
  "zero_channel = \<lparr>adc_value = 0, adc_pos = 0, adc_samples = [0, 0, 0, 0, 0, 0, 0, 0]\<rparr>"

lemma zero_channel_inv: "channel_inv zero_channel"
  by (simp add: channel_inv_def zero_channel_def)

lemma pot_moving_sum_witness:
  "adc_value (fold process_Z [10, 20, 30, 40, 50, 60, 70, 80, 90, 4095] zero_channel) = 4515"
  using pot_moving_sum [OF zero_channel_inv, of "[10, 20, 30, 40, 50, 60, 70, 80, 90, 4095]"]
  by (simp add: zero_channel_def window_def)


section \<open>Buttons and encoders\<close>

text \<open>The part of \<open>serviceAudioInternalSingle\<close> that reads ports H and B into \<open>halfState\<close>.\<close>

definition port_bit :: "u32 \<Rightarrow> nat \<Rightarrow> u8" where "port_bit w n = ucast (drop_bit n w AND 1)"

definition read_controls :: "u32 \<Rightarrow> u32 \<Rightarrow> half_state list \<Rightarrow> half_state list" where
  "read_controls ph pb hs =
     [(hs ! 0)\<lparr>encA := port_bit ph 4, encB := port_bit ph 5, encSW := port_bit ph 6, potSW := port_bit pb 12\<rparr>,
      (hs ! 1)\<lparr>encA := port_bit ph 12, encB := port_bit ph 13, encSW := port_bit ph 14, potSW := port_bit ph 15\<rparr>]"

text \<open>The step of one encoder, and the new half state.\<close>

definition decode_encoder :: "half_state \<Rightarrow> int \<times> half_state" where
  "decode_encoder h =
     (let enc = (if encB h = 0
                 then if encA h = 0 \<and> lastEncA h \<noteq> 0 then 1
                      else if encA h \<noteq> 0 \<and> lastEncA h = 0 then - 1 else 0
                 else 0)
      in (enc, h\<lparr>lastEncA := encA h\<rparr>))"

definition update_controls :: "u32 \<Rightarrow> u32 \<Rightarrow> ('f, 'a) app_scheme \<Rightarrow> int list \<times> ('f, 'a) app_scheme" where
  "update_controls ph pb s =
     (let hs = read_controls ph pb (halfState s);
          (enc0, h0) = decode_encoder (hs ! 0);
          (enc1, h1) = decode_encoder (hs ! 1);
          s = s\<lparr>halfState := [h0, h1]\<rparr>
      in ([enc0, enc1],
          if enc0 \<noteq> 0 \<or> enc1 \<noteq> 0 then s\<lparr>displayBlankCountdown := kTimeToBlank\<rparr> else s))"

text \<open>
  The shaft's position counts quarter steps: the two contacts of the encoder run through a Gray
  code as it turns. \<open>turn\<close> samples both contacts at a position and decodes.
\<close>

definition contact_A :: "int \<Rightarrow> u8" where "contact_A p = (if p mod 4 \<in> {0, 1} then 1 else 0)"
definition contact_B :: "int \<Rightarrow> u8" where "contact_B p = (if p mod 4 \<in> {0, 3} then 1 else 0)"

definition turn :: "int \<Rightarrow> int \<times> half_state \<Rightarrow> int \<times> half_state" where
  "turn p th = (let (enc, h) = decode_encoder ((snd th)\<lparr>encA := contact_A p, encB := contact_B p\<rparr>) in (fst th + enc, h))"

fun smooth :: "int \<Rightarrow> int list \<Rightarrow> bool" where
  "smooth p [] = True"
| "smooth p (q # qs) \<longleftrightarrow> \<bar>q - p\<bar> \<le> 1 \<and> smooth q qs"

lemma mod_4_cases: "(p :: int) mod 4 = 0 \<or> p mod 4 = 1 \<or> p mod 4 = 2 \<or> p mod 4 = 3"
  by presburger

lemma turn_step:
  assumes "\<bar>q - p\<bar> \<le> 1" and "lastEncA h = contact_A p"
  shows "fst (turn q (n, h)) = n + ((q + 2) div 4 - (p + 2) div 4)" and "lastEncA (snd (turn q (n, h))) = contact_A q"
proof -
  have "q = p \<or> q = p + 1 \<or> q = p - 1" using assms(1) by arith
  moreover have quarter: "(4 * k - 1) mod 4 = 3" "(4 * k + 1) div 4 = k" for k :: int
    by presburger+
  moreover obtain k r where p: "p = 4 * k + r" "r = 0 \<or> r = 1 \<or> r = 2 \<or> r = 3"
    using mod_4_cases [of p] by (metis mult_div_mod_eq)
  ultimately show "fst (turn q (n, h)) = n + ((q + 2) div 4 - (p + 2) div 4)"
    using assms(2) quarter
    by (elim disjE) (simp_all add: turn_def decode_encoder_def contact_A_def contact_B_def p)
  show "lastEncA (snd (turn q (n, h))) = contact_A q"
    by (simp add: turn_def decode_encoder_def Let_def)
qed

text \<open>
  C35: the decoder follows the shaft: however fast it is turned, back and forth, and however often each position is
  sampled, as long as no quarter step is skipped the steps reported add up to the number of whole
  cycles between the first and the last position, with the sign of the direction. Bouncing between two
  neighbouring positions adds up to nothing.
\<close>

theorem encoder_follows_shaft:
  assumes "smooth p qs" and "lastEncA h = contact_A p"
  shows "fst (fold turn qs (0, h)) = (last (p # qs) + 2) div 4 - (p + 2) div 4"
proof -
  have "fst (fold turn qs (n, h)) = n + (last (p # qs) + 2) div 4 - (p + 2) div 4"
    if "smooth p qs" "lastEncA h = contact_A p" for n p qs h
    using that
  proof (induction qs arbitrary: n p h)
    case Nil
    then show ?case by simp
  next
    case (Cons q qs)
    obtain n' h' where t: "turn q (n, h) = (n', h')" by (cases "turn q (n, h)") auto
    from turn_step [of q p h n] Cons.prems t
    have "n' = n + ((q + 2) div 4 - (p + 2) div 4)" "lastEncA h' = contact_A q" by simp_all
    with Cons.IH [of q h' n'] Cons.prems t show ?case by simp
  qed
  from this [OF assms, of 0] show ?thesis by simp
qed

lemma encoder_follows_shaft_witness:
  "fst (fold turn [1, 2, 1, 2, 3, 4, 5, 6, 7, 8, 8] (0, released)) = 2"
  using encoder_follows_shaft [of 0 "[1, 2, 1, 2, 3, 4, 5, 6, 7, 8, 8]" released]
  by (simp add: released_def contact_A_def)


section \<open>A concrete state\<close>

text \<open>Fixed-point arithmetic in thousandths of a volt, and a calibration with unit gain.\<close>

definition demo_fl :: "int float_ops" where
  "demo_fl = \<lparr>f_mul = (\<lambda>x y. x * y), f_add = (\<lambda>x y. x + y), f_less = (\<lambda>x y. x < y), f_of_int = (\<lambda>x. x),
     f_to_int = (\<lambda>x. x), f_half = 500, f_one = 1000, f_output_scale = 300\<rparr>"

definition demo_half :: "int half_calibration" where
  "demo_half = \<lparr>Er = [1, 1], D = [0, 0], Br = [1, 1, 1], A = [0, 0, 0], Brf = [1, 1, 1], Erf = [1, 1],
     Ddf = [0, 0], Dd = [0, 0]\<rparr>"

definition demo_app :: "int app" where
  "demo_app = receive.extend demo_receive
     (app.fields \<lparr>CV = 0, Gate = 0, rawZ = [0, 0], Z = [zero_channel, zero_channel]\<rparr> 160 True
        (replicate 3 (replicate 32 100)) (replicate 3 (replicate 32 0)) (replicate 16384 0)
        [demo_half, demo_half] (replicate 6 \<lparr>in_Brf = 1, in_mABrf = 0\<rparr>) demo_alg APP_STATE_SERVICE_TASKS)"

lemma demo_app_simps [simp]:
  "clock demo_app = 0" "trace demo_app = []"
  "adcs demo_app = \<lparr>CV = 0, Gate = 0, rawZ = [0, 0], Z = [zero_channel, zero_channel]\<rparr>"
  "blocks_in demo_app = replicate 3 (replicate 32 100)" "blocks_out demo_app = replicate 3 (replicate 32 0)"
  "pageBuffer demo_app = replicate 16384 0" "calibration demo_app = [demo_half, demo_half]"
  "inputCalibrations demo_app = replicate 6 \<lparr>in_Brf = 1, in_mABrf = 0\<rparr>" "algorithmData demo_app = demo_alg"
  "slowTimeCountdown demo_app = 160" "doServiceAudio demo_app" "app_state demo_app = APP_STATE_SERVICE_TASKS"
  by (simp_all add: demo_app_def receive.defs app.defs demo_receive_def i2c.defs demo_i2c_def recall.defs
      demo_recall_def midi_in.defs demo_in_def midi_out.defs demo_midi_def display.defs demo_display_def)

end
