(* ===== verification/Audio.thy ===== *)
theory Audio
  imports App_State
begin

text \<open>
  \<open>algorithm_step\<close> of \<open>algorithm.cc\<close>: one half of the audio blocks is converted to voltages, gated and run
  through the two signal processors, and converted to output codes; then the processor spins until a
  minimum load is reached. \<open>fl\<close> holds the floating-point operations, \<open>inp\<close> the cycle counter.
\<close>

section \<open>Converting the input\<close>

text \<open>The macro \<open>CLAMP\<close> of \<open>app.h\<close>: the 24-bit range of the converters.\<close>

definition CLAMP :: "int \<Rightarrow> int" where
  "CLAMP x = (if x < -0x800000 then -0x800000 else if x > 0x7fffff then 0x7fffff else x)"

definition input_voltage :: "'f float_ops \<Rightarrow> 'f input_calibration \<Rightarrow> int \<Rightarrow> 'f" where
  "input_voltage fl cal x = f_add fl (f_mul fl (f_of_int fl x) (in_Brf cal)) (in_mABrf cal)"

text \<open>Six inputs: calibration, input block and the side of the stereo pair.\<close>

definition input_routing :: "(nat \<times> nat \<times> nat) list" where
  "input_routing = [(0, 0, 0), (1, 0, 1), (2, 1, 0), (3, 1, 1), (4, 2, 1), (5, 2, 0)]"

definition input_voltages :: "'f float_ops \<Rightarrow> 'f input_calibration list \<Rightarrow> int list list \<Rightarrow> nat \<Rightarrow> 'f list list" where
  "input_voltages fl cals ins ping =
     map (\<lambda>(k, block, side).
        map (\<lambda>i. input_voltage fl (cals ! k) (ins ! block ! (ping + 2 * i + side))) [0..<nat k_framesPerBlock])
      input_routing"

section \<open>Gates\<close>

text \<open>A Schmitt trigger: off below half a volt, on above one volt.\<close>

definition schmitt :: "'f float_ops \<Rightarrow> 'f \<Rightarrow> bool \<Rightarrow> bool" where
  "schmitt fl v st = (if st then \<not> f_less fl v (f_half fl) else f_less fl (f_one fl) v)"

definition button_bits :: "half_state list \<Rightarrow> int" where
  "button_bits hs = (if potSW (hs ! 0) = 0 then 1 else 0) OR (if potSW (hs ! 1) = 0 then 2 else 0)"

definition gate_slice ::
    "peaks_lib \<Rightarrow> 'f float_ops \<Rightarrow> half_state list \<Rightarrow> 'f list list \<Rightarrow> nat \<Rightarrow> algorithm_data \<Rightarrow>
     (int \<times> int) \<times> algorithm_data" where
  "gate_slice pk fl hs v j a =
     (let st = [schmitt fl (v ! 0 ! (2 * j)) (schmittTrigger a ! 0), schmitt fl (v ! 1 ! (2 * j)) (schmittTrigger a ! 1)];
          external = (if st ! 0 then 1 else 0) OR (if st ! 1 then 2 else 0);
          buttons = button_bits hs;
          gates = external OR buttons;
          g0 = ExtractGateFlags pk (gate_flags a ! 0) (gates AND 1);
          g1 = ExtractGateFlags pk (gate_flags a ! 1) (gates AND 2);
          button = (\<lambda>m. if buttons AND m \<noteq> 0 then GATE_FLAG_FROM_BUTTON pk else 0)
      in ((GateFlags_of pk (g0 OR push_bit 4 g1 OR button 1), GateFlags_of pk (g1 OR button 2)),
          a\<lparr>schmittTrigger := st, gate_flags := [g0, g1]\<rparr>))"

fun gate_slices ::
    "peaks_lib \<Rightarrow> 'f float_ops \<Rightarrow> half_state list \<Rightarrow> 'f list list \<Rightarrow> nat list \<Rightarrow> algorithm_data \<Rightarrow>
     (int \<times> int) list \<times> algorithm_data" where
  "gate_slices pk fl hs v [] a = ([], a)"
| "gate_slices pk fl hs v (j # js) a =
     (let (g, a) = gate_slice pk fl hs v j a; (gs, a) = gate_slices pk fl hs v js a in (g # gs, a))"

section \<open>The processors and the output\<close>

text \<open>\<open>kBlockSize\<close> of the library is 4, as the static assertion demands.\<close>

definition run_processor :: "peaks_lib \<Rightarrow> nat \<Rightarrow> int list \<Rightarrow> algorithm_data \<Rightarrow> int list \<times> algorithm_data" where
  "run_processor pk j input a = (processor_output pk (processor_calls a) j input, pcall (Process j input) a)"

definition processor_voltages :: "'f float_ops \<Rightarrow> int list \<Rightarrow> 'f list" where
  "processor_voltages fl buffer =
     concat (map (\<lambda>i. let v = f_mul fl (f_of_int fl (buffer ! i)) (f_output_scale fl) in [v, v]) [0..<4])"

definition output_voltages :: "'f float_ops \<Rightarrow> 'f list list \<Rightarrow> int list \<Rightarrow> int list \<Rightarrow> 'f list list" where
  "output_voltages fl v buf0 buf1 =
     [processor_voltages fl buf0, processor_voltages fl buf1,
      map2 (f_add fl) (v ! 2) (v ! 4), map2 (f_add fl) (v ! 3) (v ! 5)]"

definition output_code :: "'f float_ops \<Rightarrow> 'f half_calibration list \<Rightarrow> nat \<Rightarrow> nat \<Rightarrow> 'f \<Rightarrow> int" where
  "output_code fl cal half ch v =
     CLAMP (i32 (f_to_int fl (f_mul fl v (Erf (cal ! half) ! ch)) - Dd (cal ! half) ! ch))"

definition write_frame ::
    "'f float_ops \<Rightarrow> 'f half_calibration list \<Rightarrow> 'f list list \<Rightarrow> nat \<Rightarrow> nat \<Rightarrow> int list list \<Rightarrow> int list list" where
  "write_frame fl cal ov ping i outs =
     (let c1 = output_code fl cal 0 0 (ov ! 0 ! i);
          c2 = output_code fl cal 0 1 (ov ! 1 ! i);
          c3 = output_code fl cal 1 0 (ov ! 2 ! i);
          c4 = output_code fl cal 1 1 (ov ! 3 ! i);
          p = ping + 2 * i
      in outs[0 := (outs ! 0)[p + 1 := c1, p := c2], 1 := (outs ! 1)[p + 1 := c3, p := c4]])"

definition write_frames ::
    "'f float_ops \<Rightarrow> 'f half_calibration list \<Rightarrow> 'f list list \<Rightarrow> nat \<Rightarrow> nat list \<Rightarrow> int list list \<Rightarrow> int list list" where
  "write_frames fl cal ov ping = fold (write_frame fl cal ov ping)"

section \<open>The minimum load\<close>


text \<open>The counts of one half block, and the load in per cent; \<open>t * 100\<close> wraps.\<close>

definition load_period :: int where "load_period = k_framesPerBlock * int SYS_CLK_FREQ div 2 div SAMPLE_RATE"

definition cpuLoad :: "u32 \<Rightarrow> int" where "cpuLoad t = uint (t * 100) div load_period"

text \<open>The busy work of one turn: \<open>x\<close> after the two nested loops.\<close>

definition busy_work :: "u32 \<Rightarrow> u32" where "busy_work t = ((\<lambda>x. x + t) ^^ (2 * 200)) t"

partial_function (option) load_loop :: "input \<Rightarrow> u32 \<Rightarrow> ('f, 'a) app_scheme \<Rightarrow> ('f, 'a) app_scheme option" where
  "load_loop inp t0 s =
     (let t1 = inp CP0_COUNT (clock s); s = tick 1 s in
      if cpuLoad (t1 - t0) > 50 then Some s
      else load_loop inp t0 (s\<lparr>pageBuffer := (pageBuffer s)[0 := ucast (busy_work (time s))]\<rparr>))"

section \<open>The step\<close>

definition process_half :: "peaks_lib \<Rightarrow> 'f float_ops \<Rightarrow> nat \<Rightarrow> ('f, 'a) app_scheme \<Rightarrow> ('f, 'a) app_scheme" where
  "process_half pk fl ping s =
     (let v = input_voltages fl (inputCalibrations s) (blocks_in s) ping;
          (gates, a) = gate_slices pk fl (halfState s) v [0..<4] (algorithmData s);
          (buf0, a) = run_processor pk 0 (map fst gates) a;
          (buf1, a) = run_processor pk 1 (map snd gates) a;
          ov = output_voltages fl v buf0 buf1
      in s\<lparr>algorithmData := a,
           blocks_out := write_frames fl (calibration s) ov ping [0..<nat k_framesPerBlock] (blocks_out s)\<rparr>)"

definition algorithm_step ::
    "peaks_lib \<Rightarrow> 'f float_ops \<Rightarrow> input \<Rightarrow> nat \<Rightarrow> ('f, 'a) app_scheme \<Rightarrow> ('f, 'a) app_scheme option" where
  "algorithm_step pk fl inp ping s =
     (let t0 = inp CP0_COUNT (clock s) in load_loop inp t0 (process_half pk fl ping (tick 1 s)))"

section \<open>The minimum load is reached\<close>

lemma load_threshold: "uint t < 42949672 \<Longrightarrow> cpuLoad t > 50 \<longleftrightarrow> 5353 \<le> uint t"
proof -
  assume "uint t < 42949672"
  then have "uint (t * 100) = uint t * 100" using uint_ge_0 [of t] by (simp add: uint_word_ariths)
  moreover have "load_period = 10496"
    by (simp add: load_period_def k_framesPerBlock_def SYS_CLK_FREQ_def SAMPLE_RATE_def)
  moreover have "50 < n div 10496 \<longleftrightarrow> 535296 \<le> n" for n :: int
  proof -
    have "n = 10496 * (n div 10496) + n mod 10496" "0 \<le> n mod 10496" "n mod 10496 < 10496" by simp_all
    then show ?thesis by linarith
  qed
  moreover have "535296 \<le> uint t * 100 \<longleftrightarrow> 5353 \<le> uint t" by (rule iffI) linarith+
  ultimately show ?thesis unfolding cpuLoad_def by metis
qed

text \<open>The cycle counter advances between two reads, by less than a quarter of a second each time.\<close>

definition counter_runs :: "input \<Rightarrow> bool" where
  "counter_runs inp \<longleftrightarrow> (\<forall>t. 1 \<le> uint (inp CP0_COUNT (Suc t) - inp CP0_COUNT t) \<and>
     uint (inp CP0_COUNT (Suc t) - inp CP0_COUNT t) \<le> 2 ^ 24)"

definition demo_input :: input where
  "demo_input r t = (case r of CP0_COUNT \<Rightarrow> of_nat (1000 * t) | _ \<Rightarrow> 100)"

lemma demo_counter_runs: "counter_runs demo_input"
proof -
  have "demo_input CP0_COUNT (Suc t) - demo_input CP0_COUNT t = 1000" for t
    by (simp add: demo_input_def distrib_left)
  then show ?thesis by (simp add: counter_runs_def)
qed

definition spun :: "('f, 'a) app_scheme \<Rightarrow> ('f, 'a) app_scheme \<Rightarrow> bool" where
  "spun s s' \<longleftrightarrow> clock s < clock s' \<and> (\<exists>pb. (pb = pageBuffer s \<or> pb = (pageBuffer s)[0 := ucast (busy_work (time s))]) \<and>
     s' = s\<lparr>clock := clock s', pageBuffer := pb\<rparr>)"

lemma spunE:
  assumes "spun s s'"
  obtains c pb where "s' = s\<lparr>clock := c, pageBuffer := pb\<rparr>" "clock s < c"
    "pb = pageBuffer s \<or> pb = (pageBuffer s)[0 := ucast (busy_work (time s))]"
  using assms unfolding spun_def by metis

lemma load_loop_returns:
  assumes "counter_runs inp" and "uint (inp CP0_COUNT (clock s) - t0) < 5353 + 2 ^ 24"
  shows "\<exists>s'. load_loop inp t0 s = Some s' \<and> spun s s' \<and>
     5353 \<le> uint (inp CP0_COUNT (clock s' - 1) - t0) \<and> uint (inp CP0_COUNT (clock s' - 1) - t0) < 5353 + 2 ^ 24"
  using assms(2)
proof (induction "nat (5353 - uint (inp CP0_COUNT (clock s) - t0))" arbitrary: s rule: less_induct)
  case less
  define e where "e = inp CP0_COUNT (clock s) - t0"
  define d where "d = inp CP0_COUNT (Suc (clock s)) - inp CP0_COUNT (clock s)"
  have d: "1 \<le> uint d" "uint d \<le> 2 ^ 24" using assms(1) by (simp_all add: counter_runs_def d_def)
  have lt: "uint e < 42949672" using less.prems by (simp add: e_def)
  show ?case
  proof (cases "5353 \<le> uint e")
    case True
    then have "cpuLoad e > 50" using load_threshold [OF lt] by simp
    then have "load_loop inp t0 s = Some (tick 1 s)" by (subst load_loop.simps) (simp add: e_def Let_def)
    then show ?thesis using True less.prems
      by (intro exI [of _ "tick 1 s"]) (auto simp: spun_def e_def tick_def)
  next
    case False
    then have "\<not> cpuLoad e > 50" using load_threshold [OF lt] by simp
    let ?s = "(tick 1 s)\<lparr>pageBuffer := (pageBuffer s)[0 := ucast (busy_work (time s))]\<rparr>"
    have run: "load_loop inp t0 s = load_loop inp t0 ?s"
      using \<open>\<not> cpuLoad e > 50\<close> by (subst load_loop.simps) (simp add: e_def Let_def tick_def)
    have "inp CP0_COUNT (clock ?s) - t0 = e + d" by (simp add: e_def d_def tick_def)
    moreover have "uint (e + d) = uint e + uint d"
      using False d by (subst uint_add_lem [THEN iffD1]) simp_all
    ultimately have step: "uint (inp CP0_COUNT (clock ?s) - t0) = uint e + uint d" by simp
    have "\<exists>s'. load_loop inp t0 ?s = Some s' \<and> spun ?s s' \<and>
       5353 \<le> uint (inp CP0_COUNT (clock s' - 1) - t0) \<and> uint (inp CP0_COUNT (clock s' - 1) - t0) < 5353 + 2 ^ 24"
      by (rule less.hyps) (use step d False in \<open>simp_all add: e_def\<close>)
    then show ?thesis unfolding run
      by (elim exE, rule_tac x = s' in exI) (auto simp: spun_def tick_def)
  qed
qed

section \<open>What a step writes\<close>

definition audio_blocks :: "('f, 'a) app_scheme \<Rightarrow> bool" where
  "audio_blocks s \<longleftrightarrow> length (blocks_in s) = 3 \<and> (\<forall>xs\<in>set (blocks_in s). length xs = 32) \<and>
     length (blocks_out s) = 3 \<and> (\<forall>xs\<in>set (blocks_out s). length xs = 32)"

text \<open>The code at offset \<open>k\<close> of the half written: the right channel at even offsets.\<close>

definition frame_code :: "'f float_ops \<Rightarrow> 'f half_calibration list \<Rightarrow> 'f list list \<Rightarrow> nat \<Rightarrow> nat \<Rightarrow> int" where
  "frame_code fl cal ov r k =
     (let ch = (if even k then 1 else 0) in output_code fl cal r ch (ov ! (2 * r + ch) ! (k div 2)))"

lemma frame_code_at:
  "frame_code fl cal ov r (2 * i) = output_code fl cal r 1 (ov ! (2 * r + 1) ! i)"
  "frame_code fl cal ov r (Suc (2 * i)) = output_code fl cal r 0 (ov ! (2 * r) ! i)"
  by (simp_all add: frame_code_def)

lemma length_write_frame [simp]: "length (write_frame fl cal ov ping i outs) = length outs"
  by (simp add: write_frame_def Let_def)

lemma write_frame_rows:
  assumes "2 < length outs" and "r < 2" and "\<forall>xs\<in>set outs. length xs = 32" and "ping + 2 * i + 1 < 32"
  shows "length (write_frame fl cal ov ping i outs ! r) = 32"
    and "\<forall>k<32. write_frame fl cal ov ping i outs ! r ! k =
      (if k = ping + 2 * i \<or> k = ping + 2 * i + 1 then frame_code fl cal ov r (k - ping) else outs ! r ! k)"
    and "write_frame fl cal ov ping i outs ! 2 = outs ! 2"
proof -
  have r: "r = 0 \<or> r = 1" using assms(2) by auto
  have len: "length (outs ! r) = 32" using assms(1-3) by simp
  have pos: "0 < length outs" "Suc 0 < length outs" using assms(1) by (auto simp del: length_greater_0_conv)
  show "length (write_frame fl cal ov ping i outs ! r) = 32"
    using r pos len by (auto simp: write_frame_def Let_def nth_list_update)
  show "\<forall>k<32. write_frame fl cal ov ping i outs ! r ! k =
      (if k = ping + 2 * i \<or> k = ping + 2 * i + 1 then frame_code fl cal ov r (k - ping) else outs ! r ! k)"
    using r pos assms(4) len
    by (elim disjE) (auto simp: write_frame_def Let_def nth_list_update frame_code_at numeral_3_eq_3)
  show "write_frame fl cal ov ping i outs ! 2 = outs ! 2"
    using assms(1) by (simp add: write_frame_def Let_def)
qed

lemma write_frames_rows:
  assumes "length outs = 3" and "\<forall>xs\<in>set outs. length xs = 32" and "ping + 2 * n \<le> 32"
  shows "length (write_frames fl cal ov ping [0..<n] outs) = 3 \<and>
     write_frames fl cal ov ping [0..<n] outs ! 2 = outs ! 2 \<and>
     (\<forall>r<2. length (write_frames fl cal ov ping [0..<n] outs ! r) = 32 \<and>
        (\<forall>k<32. write_frames fl cal ov ping [0..<n] outs ! r ! k =
          (if ping \<le> k \<and> k < ping + 2 * n then frame_code fl cal ov r (k - ping) else outs ! r ! k)))"
  using assms(3)
proof (induction n)
  case 0
  have "length (outs ! r) = 32" if "r < 2" for r using assms(1,2) that by simp
  with assms(1) show ?case by (simp add: write_frames_def)
next
  case (Suc n)
  let ?w = "write_frames fl cal ov ping [0..<n] outs"
  note IH = Suc.IH [OF Suc_leD]
  from Suc have w: "length ?w = 3" "?w ! 2 = outs ! 2" "\<forall>r<2. length (?w ! r) = 32"
    "\<And>r k. r < 2 \<Longrightarrow> k < 32 \<Longrightarrow> ?w ! r ! k =
       (if ping \<le> k \<and> k < ping + 2 * n then frame_code fl cal ov r (k - ping) else outs ! r ! k)"
    by auto
  have "length (outs ! 2) = 32" using assms(1,2) by simp
  have all: "\<forall>xs\<in>set ?w. length xs = 32"
  proof
    fix xs assume "xs \<in> set ?w"
    then obtain r where r: "r < 3" "xs = ?w ! r" using w(1) by (auto simp: in_set_conv_nth)
    show "length xs = 32"
    proof (cases "r < 2")
      case True
      then show ?thesis using r w(3) by simp
    next
      case False
      then have "r = 2" using r(1) by simp
      then show ?thesis using r(2) w(2) \<open>length (outs ! 2) = 32\<close> by simp
    qed
  qed
  have suc: "write_frames fl cal ov ping [0..<Suc n] outs = write_frame fl cal ov ping n ?w"
    by (simp add: write_frames_def)
  have rows: "length (write_frame fl cal ov ping n ?w ! r) = 32 \<and> (\<forall>k<32. write_frame fl cal ov ping n ?w ! r ! k =
      (if ping \<le> k \<and> k < ping + 2 * Suc n then frame_code fl cal ov r (k - ping) else outs ! r ! k))" if "r < 2" for r
    using write_frame_rows [OF _ that all, of ping n fl cal ov] w(1) w(4) [OF that] Suc.prems by auto
  show ?case
    unfolding suc using rows w(1,2) write_frame_rows(3) [OF _ _ all, of 0 ping n fl cal ov] Suc.prems by simp
qed

lemma CLAMP_bounds: "-0x800000 \<le> CLAMP x \<and> CLAMP x \<le> 0x7fffff"
  by (simp add: CLAMP_def)

lemma gate_slices_parts:
  "length (fst (gate_slices pk fl hs v js a)) = length js"
  "processor_calls (snd (gate_slices pk fl hs v js a)) = processor_calls a"
  by (induction js arbitrary: a) (auto simp: gate_slice_def Let_def split_beta)

text \<open>The whole of the converted half, before the load is measured.\<close>

lemma process_half_effect:
  assumes "audio_blocks s" and "ping = 0 \<or> ping = 16"
  shows "\<exists>g0 g1 a outs. process_half pk fl ping s = s\<lparr>algorithmData := a, blocks_out := outs\<rparr> \<and>
     length g0 = 4 \<and> length g1 = 4 \<and>
     processor_calls a = processor_calls (algorithmData s) @ [Process 0 g0, Process 1 g1] \<and>
     length outs = 3 \<and> outs ! 2 = blocks_out s ! 2 \<and>
     (\<forall>r<2. length (outs ! r) = 32 \<and> (\<forall>k<32. outs ! r ! k =
        (if ping \<le> k \<and> k < ping + 16
         then frame_code fl (calibration s)
           (output_voltages fl (input_voltages fl (inputCalibrations s) (blocks_in s) ping)
              (processor_output pk (processor_calls (algorithmData s)) 0 g0)
              (processor_output pk (processor_calls (algorithmData s) @ [Process 0 g0]) 1 g1)) r (k - ping)
         else blocks_out s ! r ! k)))"
proof -
  define v where "v = input_voltages fl (inputCalibrations s) (blocks_in s) ping"
  obtain gs a where gs: "gate_slices pk fl (halfState s) v [0..<4] (algorithmData s) = (gs, a)"
    by fastforce
  have a: "length gs = 4" "processor_calls a = processor_calls (algorithmData s)"
    using gate_slices_parts [of pk fl "halfState s" v "[0..<4]" "algorithmData s"] unfolding gs by simp_all
  define ov where "ov = output_voltages fl v (processor_output pk (processor_calls a) 0 (map fst gs))
      (processor_output pk (processor_calls a @ [Process 0 (map fst gs)]) 1 (map snd gs))"
  let ?outs = "write_frames fl (calibration s) ov ping [0..<8] (blocks_out s)"
  have rows: "length ?outs = 3 \<and> ?outs ! 2 = blocks_out s ! 2 \<and>
     (\<forall>r<2. length (?outs ! r) = 32 \<and> (\<forall>k<32. ?outs ! r ! k =
        (if ping \<le> k \<and> k < ping + 2 * 8 then frame_code fl (calibration s) ov r (k - ping) else blocks_out s ! r ! k)))"
    by (rule write_frames_rows) (use assms in \<open>auto simp: audio_blocks_def\<close>)
  have "process_half pk fl ping s = s\<lparr>algorithmData := pcall (Process 1 (map snd gs)) (pcall (Process 0 (map fst gs)) a),
      blocks_out := ?outs\<rparr>"
    unfolding process_half_def Let_def v_def [symmetric] gs
    by (simp add: run_processor_def ov_def pcall_def k_framesPerBlock_def)
  moreover have "processor_calls (pcall (Process 1 (map snd gs)) (pcall (Process 0 (map fst gs)) a)) =
      processor_calls (algorithmData s) @ [Process 0 (map fst gs), Process 1 (map snd gs)]"
    by (simp add: pcall_def a)
  ultimately show ?thesis
    using rows a
    by (intro exI [of _ "map fst gs"] exI [of _ "map snd gs"]
          exI [of _ "pcall (Process 1 (map snd gs)) (pcall (Process 0 (map fst gs)) a)"] exI [of _ ?outs])
      (simp add: ov_def v_def)
qed

lemma process_half_frame:
  "clock (process_half pk fl ping s) = clock s" "time (process_half pk fl ping s) = time s"
  "pageBuffer (process_half pk fl ping s) = pageBuffer s"
  by (simp_all add: process_half_def Let_def split_beta)

lemma gate_slices_keep:
  "alg_inv a \<Longrightarrow> alg_inv (snd (gate_slices pk fl hs v js a)) \<and>
     settings_function (snd (gate_slices pk fl hs v js a)) = settings_function a \<and>
     edit_mode (snd (gate_slices pk fl hs v js a)) = edit_mode a \<and>
     writeToFlash (snd (gate_slices pk fl hs v js a)) = writeToFlash a"
proof (induction js arbitrary: a)
  case Nil
  then show ?case by simp
next
  case (Cons j js)
  let ?a = "snd (gate_slice pk fl hs v j a)"
  have "alg_inv ?a" "settings_function ?a = settings_function a" "edit_mode ?a = edit_mode a"
    "writeToFlash ?a = writeToFlash a"
    using Cons.prems by (simp_all add: gate_slice_def Let_def alg_inv_def)
  with Cons.IH [of ?a] show ?case by (simp add: split_beta Let_def)
qed

lemma process_half_keeps:
  assumes "alg_inv (algorithmData s)"
  shows "alg_inv (algorithmData (process_half pk fl ping s))"
    and "settings_function (algorithmData (process_half pk fl ping s)) = settings_function (algorithmData s)"
    and "edit_mode (algorithmData (process_half pk fl ping s)) = edit_mode (algorithmData s)"
    and "writeToFlash (algorithmData (process_half pk fl ping s)) = writeToFlash (algorithmData s)"
proof -
  define v where "v = input_voltages fl (inputCalibrations s) (blocks_in s) ping"
  obtain gs a where gs: "gate_slices pk fl (halfState s) v [0..<4] (algorithmData s) = (gs, a)" by fastforce
  have a: "length gs = 4" "alg_inv a" "settings_function a = settings_function (algorithmData s)"
    "edit_mode a = edit_mode (algorithmData s)" "writeToFlash a = writeToFlash (algorithmData s)"
    using gate_slices_parts(1) [of pk fl "halfState s" v "[0..<4]" "algorithmData s"]
      gate_slices_keep [OF assms, of pk fl "halfState s" v "[0..<4]"] unfolding gs by simp_all
  have eq: "algorithmData (process_half pk fl ping s) = pcall (Process 1 (map snd gs)) (pcall (Process 0 (map fst gs)) a)"
    unfolding process_half_def Let_def v_def [symmetric] gs by (simp add: run_processor_def)
  have "alg_inv (pcall (Process 1 (map snd gs)) (pcall (Process 0 (map fst gs)) a))"
    using a by (intro inv_intros) (simp_all add: call_ok_def)
  then show "alg_inv (algorithmData (process_half pk fl ping s))"
    "settings_function (algorithmData (process_half pk fl ping s)) = settings_function (algorithmData s)"
    "edit_mode (algorithmData (process_half pk fl ping s)) = edit_mode (algorithmData s)"
    "writeToFlash (algorithmData (process_half pk fl ping s)) = writeToFlash (algorithmData s)"
    unfolding eq using a by (simp_all add: pcall_def)
qed

lemma algorithm_step_returns:
  assumes "counter_runs inp"
  shows "\<exists>s'. algorithm_step pk fl inp ping s = Some s' \<and> spun (process_half pk fl ping (tick 1 s)) s' \<and>
     5353 \<le> uint (inp CP0_COUNT (clock s' - 1) - inp CP0_COUNT (clock s))"
proof -
  let ?s = "process_half pk fl ping (tick 1 s)" and ?t0 = "inp CP0_COUNT (clock s)"
  have "uint (inp CP0_COUNT (clock ?s) - ?t0) < 5353 + 2 ^ 24"
    using assms by (auto simp: counter_runs_def process_half_frame dest!: spec [of _ "clock s"])
  from load_loop_returns [OF assms this] show ?thesis by (auto simp: algorithm_step_def Let_def)
qed

lemma process_half_tick: "process_half pk fl ping (tick n s) = tick n (process_half pk fl ping s)"
  by (simp add: process_half_def Let_def split_beta tick_def)

text \<open>
  C31: one audio step returns and computes each of its 32 output codes from the half block it was given: outputs 1 and 2 are the
  four samples of the two signal processors, each held for two frames; outputs 3 and 4 are the sums of inputs 3 and 5,
  and 4 and 6; each code is the voltage scaled and offset by the calibration of its channel, clamped to 24 bits, and stored
  at its place of the interleaved block. Each processor is run exactly once, on four gate inputs.
\<close>

theorem algorithm_step_output:
  assumes "counter_runs inp" and "audio_blocks s" and "ping = 0 \<or> ping = 16"
  shows "\<exists>s' g0 g1. algorithm_step pk fl inp ping s = Some s' \<and> length g0 = 4 \<and> length g1 = 4 \<and>
     processor_calls (algorithmData s') = processor_calls (algorithmData s) @ [Process 0 g0, Process 1 g1] \<and>
     (let calls = processor_calls (algorithmData s);
          buf0 = processor_output pk calls 0 g0;
          buf1 = processor_output pk (calls @ [Process 0 g0]) 1 g1;
          inv = (\<lambda>k b side i. input_voltage fl (inputCalibrations s ! k) (blocks_in s ! b ! (ping + 2 * i + side)));
          volt = (\<lambda>x. f_mul fl (f_of_int fl x) (f_output_scale fl));
          code = output_code fl (calibration s)
      in \<forall>i<8. blocks_out s' ! 0 ! (ping + 2 * i + 1) = code 0 0 (volt (buf0 ! (i div 2))) \<and>
           blocks_out s' ! 0 ! (ping + 2 * i) = code 0 1 (volt (buf1 ! (i div 2))) \<and>
           blocks_out s' ! 1 ! (ping + 2 * i + 1) = code 1 0 (f_add fl (inv 2 1 0 i) (inv 4 2 1 i)) \<and>
           blocks_out s' ! 1 ! (ping + 2 * i) = code 1 1 (f_add fl (inv 3 1 1 i) (inv 5 2 0 i)))"
proof -
  obtain s' where s': "algorithm_step pk fl inp ping s = Some s'" "spun (process_half pk fl ping (tick 1 s)) s'"
    using algorithm_step_returns [OF assms(1)] by blast
  obtain g0 g1 a outs where h: "process_half pk fl ping s = s\<lparr>algorithmData := a, blocks_out := outs\<rparr>"
      "length g0 = 4" "length g1 = 4"
      "processor_calls a = processor_calls (algorithmData s) @ [Process 0 g0, Process 1 g1]"
      "\<forall>r<2. length (outs ! r) = 32 \<and> (\<forall>k<32. outs ! r ! k =
        (if ping \<le> k \<and> k < ping + 16
         then frame_code fl (calibration s)
           (output_voltages fl (input_voltages fl (inputCalibrations s) (blocks_in s) ping)
              (processor_output pk (processor_calls (algorithmData s)) 0 g0)
              (processor_output pk (processor_calls (algorithmData s) @ [Process 0 g0]) 1 g1)) r (k - ping)
         else blocks_out s ! r ! k))"
    using process_half_effect [OF assms(2,3), of pk fl] by blast
  have same: "algorithmData s' = a" "blocks_out s' = outs"
    using s'(2) [unfolded process_half_tick h(1)] by (auto elim!: spunE simp: tick_def)
  define ov where "ov = output_voltages fl (input_voltages fl (inputCalibrations s) (blocks_in s) ping)
              (processor_output pk (processor_calls (algorithmData s)) 0 g0)
              (processor_output pk (processor_calls (algorithmData s) @ [Process 0 g0]) 1 g1)"
  have row: "outs ! r ! (ping + k) = frame_code fl (calibration s) ov r k" if "r < 2" "k < 16" for r k
    using h(5) that assms(3) unfolding ov_def by auto
  have pv: "processor_voltages fl buf ! i = f_mul fl (f_of_int fl (buf ! (i div 2))) (f_output_scale fl)" if "i < 8" for buf i
  proof -
    have upto: "[0..<4] = [0 :: nat, 1, 2, 3]" by (simp add: upt_rec)
    have "i = 0 \<or> i = 1 \<or> i = 2 \<or> i = 3 \<or> i = 4 \<or> i = 5 \<or> i = 6 \<or> i = 7" using that by arith
    then show ?thesis by (elim disjE) (simp_all add: processor_voltages_def upto Let_def)
  qed
  have "outs ! 0 ! (ping + 2 * i + 1) = output_code fl (calibration s) 0 0 (ov ! 0 ! i)"
    "outs ! 0 ! (ping + 2 * i) = output_code fl (calibration s) 0 1 (ov ! 1 ! i)"
    "outs ! 1 ! (ping + 2 * i + 1) = output_code fl (calibration s) 1 0 (ov ! 2 ! i)"
    "outs ! 1 ! (ping + 2 * i) = output_code fl (calibration s) 1 1 (ov ! 3 ! i)" if "i < 8" for i
    using row [of 0 "2 * i"] row [of 0 "2 * i + 1"] row [of 1 "2 * i"] row [of 1 "2 * i + 1"] that
    by (simp_all add: frame_code_at numeral_3_eq_3)
  then show ?thesis
    by (intro exI [of _ s'] exI [of _ g0] exI [of _ g1])
      (simp add: s'(1) h(2-4) same Let_def ov_def output_voltages_def pv input_voltages_def input_routing_def
        k_framesPerBlock_def)
qed

lemma demo_blocks: "audio_blocks demo_app"
  by (simp add: audio_blocks_def)

lemma demo_calibrated:
  "inputCalibrations demo_app ! k = \<lparr>in_Brf = 1, in_mABrf = 0\<rparr>" if "k < 6"
  using that by simp

lemma algorithm_step_output_witness:
  "\<exists>s'. algorithm_step demo_peaks demo_fl demo_input 16 demo_app = Some s' \<and>
     blocks_out s' ! 0 ! 17 = 0 \<and> blocks_out s' ! 1 ! 16 = 200"
proof -
  obtain s' g0 g1 where s': "algorithm_step demo_peaks demo_fl demo_input 16 demo_app = Some s'"
      "blocks_out s' ! 0 ! (16 + 2 * 0 + 1) = output_code demo_fl (calibration demo_app) 0 0
         (f_mul demo_fl (f_of_int demo_fl (processor_output demo_peaks (processor_calls (algorithmData demo_app)) 0 g0 ! (0 div 2)))
           (f_output_scale demo_fl))"
      "blocks_out s' ! 1 ! (16 + 2 * 0) = output_code demo_fl (calibration demo_app) 1 1
         (f_add demo_fl (input_voltage demo_fl (inputCalibrations demo_app ! 3) (blocks_in demo_app ! 1 ! (16 + 2 * 0 + 1)))
           (input_voltage demo_fl (inputCalibrations demo_app ! 5) (blocks_in demo_app ! 2 ! (16 + 2 * 0 + 0))))"
    using algorithm_step_output [OF demo_counter_runs demo_blocks, of 16 demo_peaks demo_fl] unfolding Let_def
    by (metis zero_less_numeral)
  then show ?thesis
    by (simp add: output_code_def CLAMP_def i32_def demo_fl_def demo_half_def demo_peaks_def input_voltage_def)
qed

lemma algorithm_step_effect:
  assumes "counter_runs inp" and "audio_blocks s" and "ping = 0 \<or> ping = 16"
  shows "\<exists>s' c x a outs. algorithm_step pk fl inp ping s = Some s' \<and>
     s' = s\<lparr>clock := c, pageBuffer := (pageBuffer s)[0 := x], algorithmData := a, blocks_out := outs\<rparr> \<and>
     clock s < c \<and> 5353 \<le> uint (inp CP0_COUNT (c - 1) - inp CP0_COUNT (clock s)) \<and> audio_blocks s' \<and>
     (alg_inv (algorithmData s) \<longrightarrow> alg_inv a \<and> settings_function a = settings_function (algorithmData s) \<and>
        edit_mode a = edit_mode (algorithmData s) \<and> writeToFlash a = writeToFlash (algorithmData s)) \<and>
     outs ! 2 = blocks_out s ! 2 \<and>
     (\<forall>r<2. \<forall>k<32. if ping \<le> k \<and> k < ping + 16 then -0x800000 \<le> outs ! r ! k \<and> outs ! r ! k \<le> 0x7fffff
        else outs ! r ! k = blocks_out s ! r ! k)"
proof -
  obtain s' where s': "algorithm_step pk fl inp ping s = Some s'" "spun (process_half pk fl ping (tick 1 s)) s'"
      "5353 \<le> uint (inp CP0_COUNT (clock s' - 1) - inp CP0_COUNT (clock s))"
    using algorithm_step_returns [OF assms(1)] by blast
  obtain a outs ov where h: "process_half pk fl ping s = s\<lparr>algorithmData := a, blocks_out := outs\<rparr>"
      "length outs = 3" "outs ! 2 = blocks_out s ! 2" and
    rows: "\<forall>r<2. length (outs ! r) = 32 \<and> (\<forall>k<32. outs ! r ! k =
        (if ping \<le> k \<and> k < ping + 16 then frame_code fl (calibration s) ov r (k - ping) else blocks_out s ! r ! k))"
    using process_half_effect [OF assms(2,3), of pk fl] by blast
  have row: "if ping \<le> k \<and> k < ping + 16 then -0x800000 \<le> outs ! r ! k \<and> outs ! r ! k \<le> 0x7fffff
        else outs ! r ! k = blocks_out s ! r ! k" if "r < 2" "k < 32" for r k
    using rows that CLAMP_bounds by (simp add: frame_code_def output_code_def Let_def)
  obtain c pb where eq: "s' = s\<lparr>algorithmData := a, blocks_out := outs, clock := c, pageBuffer := pb\<rparr>" "Suc (clock s) < c"
      "pb = pageBuffer s \<or> (\<exists>x. pb = (pageBuffer s)[0 := x])"
    using s'(2) [unfolded process_half_tick h(1)] by (elim spunE) (auto simp: tick_def)
  then obtain x where pb: "pb = (pageBuffer s)[0 := x]" by (metis list_update_id)
  have "length (outs ! 2) = 32" using assms(2) h(3) by (simp add: audio_blocks_def)
  with rows have "length xs = 32" if "xs \<in> set outs" for xs
    using that h(2) by (auto simp: in_set_conv_nth less_Suc_eq numeral_3_eq_3 numeral_2_eq_2)
  then have "audio_blocks s'" using assms(2) h(2) by (simp add: audio_blocks_def eq(1))
  moreover have "alg_inv (algorithmData s) \<longrightarrow> alg_inv a \<and> settings_function a = settings_function (algorithmData s) \<and>
        edit_mode a = edit_mode (algorithmData s) \<and> writeToFlash a = writeToFlash (algorithmData s)"
    using process_half_keeps [of s pk fl ping] by (simp add: h(1))
  ultimately show ?thesis
    using s'(1,3) h(3) eq pb row by (intro exI [of _ s'] exI [of _ c] exI [of _ x] exI [of _ a] exI [of _ outs]) simp
qed

text \<open>
  C29: an audio step is confined to the half it was called for, whatever the voltages and calibration: every code it stores is
  in the 24-bit range of the converter; the other half, which the DMA channels are playing, the third output
  block and the input are unchanged; besides them it changes only its own data, the first byte of the page
  buffer and the time. It returns no earlier than 5353 counts after it started, so that more than half of the
  period of a half block has passed.
\<close>

theorem algorithm_step_confined:
  assumes "counter_runs inp" and "audio_blocks s" and "ping = 0 \<or> ping = 16"
  shows "\<exists>s' c x a outs. algorithm_step pk fl inp ping s = Some s' \<and>
     s' = s\<lparr>clock := c, pageBuffer := (pageBuffer s)[0 := x], algorithmData := a, blocks_out := outs\<rparr> \<and>
     clock s < c \<and> 5353 \<le> uint (inp CP0_COUNT (c - 1) - inp CP0_COUNT (clock s)) \<and> audio_blocks s' \<and>
     (alg_inv (algorithmData s) \<longrightarrow> alg_inv a \<and> settings_function a = settings_function (algorithmData s) \<and>
        edit_mode a = edit_mode (algorithmData s) \<and> writeToFlash a = writeToFlash (algorithmData s)) \<and>
     outs ! 2 = blocks_out s ! 2 \<and>
     (\<forall>r<2. \<forall>k<32. if ping \<le> k \<and> k < ping + 16 then -0x800000 \<le> outs ! r ! k \<and> outs ! r ! k \<le> 0x7fffff
        else outs ! r ! k = blocks_out s ! r ! k)"
  by (rule algorithm_step_effect [OF assms])

lemma algorithm_step_confined_witness:
  "\<exists>s'. algorithm_step demo_peaks demo_fl demo_input 0 demo_app = Some s' \<and> blocks_out s' ! 1 ! 16 = 0"
  using algorithm_step_confined [OF demo_counter_runs demo_blocks, of 0 demo_peaks demo_fl] by force

section \<open>The gate inputs\<close>

text \<open>
  the gate input switches with hysteresis: after any sequence of samples the trigger is on when the last
  sample outside the band from half a volt to one volt was above it, off when it was below, and as it was
  when there was none; noise inside the band never switches it.
\<close>

theorem schmitt_hysteresis:
  assumes "\<And>v. f_less fl v (f_half fl) \<Longrightarrow> \<not> f_less fl (f_one fl) v"
  shows "fold (schmitt fl) vs st =
    (let decisive = filter (\<lambda>v. f_less fl v (f_half fl) \<or> f_less fl (f_one fl) v) vs
     in if decisive = [] then st else f_less fl (f_one fl) (last decisive))"
proof (induction vs arbitrary: st)
  case Nil
  then show ?case by simp
next
  case (Cons v vs)
  have "schmitt fl v st = (if f_less fl v (f_half fl) \<or> f_less fl (f_one fl) v then f_less fl (f_one fl) v else st)"
    using assms [of v] by (auto simp: schmitt_def)
  with Cons.IH [of "schmitt fl v st"] show ?case by (simp add: Let_def)
qed

lemma schmitt_hysteresis_witness:
  "fold (schmitt demo_fl) [200, 1200, 700, 600, 999] False \<and> \<not> fold (schmitt demo_fl) [1200, 100, 900] False"
  using schmitt_hysteresis [of demo_fl "[200, 1200, 700, 600, 999]" False]
    schmitt_hysteresis [of demo_fl "[1200, 100, 900]" False]
  by (simp add: demo_fl_def)

end
