(* ===== verification/Nvm.thy ===== *)
theory Nvm
  imports Machine
begin

text \<open>
  \<open>nvm.c\<close>: erasing and programming the flash memory. The operations are sequences of register writes
  around a key sequence that the flash controller checks; \<open>NVMUnlock\<close> stops everything else until the
  operation is complete, \<open>NVMOpWithAudioService\<close> only while the key is written, and services
  audio (the parameter \<open>svc\<close>) while the operation runs. \<open>ie\<close> is the interrupt
  enable bit that the instruction \<open>di\<close> returns.
\<close>

section \<open>The operations\<close>

text \<open>The suspension of the DMA controller, unless it is suspended already; the flag is that state.\<close>

definition suspend_dma :: "device \<Rightarrow> 'a hw_scheme \<Rightarrow> (bool \<times> 'a hw_scheme) option" where
  "suspend_dma dev s =
     (let (dma_susp, s) = poll_flag dev DMA_SUSPEND s in
      if dma_susp then Some (True, s)
      else do {
        s \<leftarrow> wait_while dev DMABUSY (emit (WrMask DMACONSET DMACON_SUSPEND_MASK) s);
        Some (False, s) })"

definition restore_dma :: "bool \<Rightarrow> 'a hw_scheme \<Rightarrow> 'a hw_scheme" where
  "restore_dma dma_susp s = (if dma_susp then s else emit (WrMask DMACONCLR DMACON_SUSPEND_MASK) s)"

definition start_op :: "u32 \<Rightarrow> 'a hw_scheme \<Rightarrow> 'a hw_scheme" where
  "start_op nvmop s =
     wr NVMCONSET 0x8000
       (emit (WrMask NVMKEY_SYMBOLIC NVM_UNLOCK_KEY2)
         (emit (WrMask NVMKEY_SYMBOLIC NVM_UNLOCK_KEY1) (wr NVMKEY 0 (wr NVMCON nvmop s))))"

text \<open>The error bits \<open>NVMCON & 0x3000\<close>, from one read of the register.\<close>

definition op_errors :: "device \<Rightarrow> 'a hw_scheme \<Rightarrow> u32 \<times> 'a hw_scheme" where
  "op_errors dev s =
     ((if dev NVM_WRERR (clock s) then 0x2000 else 0) OR (if dev NVM_LVDERR (clock s) then 0x1000 else 0), tick 1 s)"

definition NVMUnlock :: "device \<Rightarrow> bool \<Rightarrow> u32 \<Rightarrow> 'a hw_scheme \<Rightarrow> (u32 \<times> 'a hw_scheme) option" where
  "NVMUnlock dev ie nvmop s = do {
     let s = emit (Interrupts False) s;
     let s = wr SPI6CONCLR (BIT 15) (wr SPI4CONCLR (BIT 15) (wr SPI3CONCLR (BIT 15) s));
     let s = wr IFS5CLR (BIT 4 OR BIT 26) (wr IFS4CLR (BIT 27) s);
     (dma_susp, s) \<leftarrow> suspend_dma dev s;
     s \<leftarrow> wait_while dev NVM_WR (start_op nvmop s);
     let s = emit (Interrupts ie) (restore_dma dma_susp s);
     let s = wr SPI6CONSET (BIT 15) (wr SPI4CONSET (BIT 15) (wr SPI3CONSET (BIT 15) s));
     Some (op_errors dev (wr NVMCONCLR 0x4000 s)) }"

definition NVMErasePage :: "device \<Rightarrow> bool \<Rightarrow> u32 \<Rightarrow> 'a hw_scheme \<Rightarrow> 'a hw_scheme option" where
  "NVMErasePage dev ie ptr s =
     map_option snd (NVMUnlock dev ie 0x4004 (wr NVMADDR (ptr AND 0x1FFFFFFF) s))"

definition NVMWriteWord :: "device \<Rightarrow> bool \<Rightarrow> u32 \<Rightarrow> u32 \<Rightarrow> 'a hw_scheme \<Rightarrow> 'a hw_scheme option" where
  "NVMWriteWord dev ie ptr dat s =
     map_option snd (NVMUnlock dev ie 0x4001 (wr NVMADDR (ptr AND 0x1FFFFFFF) (wr NVMDATA0 dat s)))"

definition NVMWriteRow :: "device \<Rightarrow> bool \<Rightarrow> u32 \<Rightarrow> u32 \<Rightarrow> 'a hw_scheme \<Rightarrow> 'a hw_scheme option" where
  "NVMWriteRow dev ie ptr dat s =
     map_option snd (NVMUnlock dev ie 0x4003
       (wr NVMADDR (ptr AND 0x1FFFFFFF) (wr NVMSRCADDR (dat AND 0x1FFFFFFF) s)))"

partial_function (option) wait_op ::
    "device \<Rightarrow> ('a hw_scheme \<Rightarrow> 'a hw_scheme option) \<Rightarrow> 'a hw_scheme \<Rightarrow> 'a hw_scheme option" where
  "wait_op dev svc s =
     (let (writing, s) = poll_flag dev NVM_WR s in
      if writing then Option.bind (svc s) (wait_op dev svc) else Some s)"

definition NVMOpWithAudioService ::
    "device \<Rightarrow> bool \<Rightarrow> ('a hw_scheme \<Rightarrow> 'a hw_scheme option) \<Rightarrow> u32 \<Rightarrow> 'a hw_scheme \<Rightarrow>
     (u32 \<times> 'a hw_scheme) option" where
  "NVMOpWithAudioService dev ie svc nvmop s = do {
     (dma_susp, s) \<leftarrow> suspend_dma dev (emit (Interrupts False) s);
     let s = restore_dma dma_susp (start_op nvmop s);
     let s = (if ie then emit (Interrupts True) s else s);
     s \<leftarrow> wait_op dev svc s;
     Some (op_errors dev (wr NVMCONCLR 0x4000 s)) }"

section \<open>What the flash controller accepts\<close>

text \<open>
  The controller's view of the trace: it starts an operation when bit 15 of \<open>NVMCON\<close> is set right after
  0 and the two keys have been written, with interrupts off. \<open>key\<close> counts the steps of the
  key sequence seen; any other event starts it afresh. An operation is its code with
  the address and the data or source address that were set up for it.
\<close>

record nvm_view =
  con :: u32
  addr :: u32
  word0 :: u32
  src :: u32
  key :: nat
  masked :: bool
  ops :: "(u32 \<times> u32 \<times> u32 \<times> u32) list"

definition nvm_event :: "event \<Rightarrow> nvm_view \<Rightarrow> nvm_view" where
  "nvm_event e v =
     (case e of
        Wr NVMCON x \<Rightarrow> v\<lparr>con := x, key := 0\<rparr>
      | Wr NVMADDR x \<Rightarrow> v\<lparr>addr := x, key := 0\<rparr>
      | Wr NVMDATA0 x \<Rightarrow> v\<lparr>word0 := x, key := 0\<rparr>
      | Wr NVMSRCADDR x \<Rightarrow> v\<lparr>src := x, key := 0\<rparr>
      | Wr NVMKEY x \<Rightarrow> v\<lparr>key := (if x = 0 then 1 else 0)\<rparr>
      | WrMask NVMKEY_SYMBOLIC NVM_UNLOCK_KEY1 \<Rightarrow> v\<lparr>key := (if key v = 1 then 2 else 0)\<rparr>
      | WrMask NVMKEY_SYMBOLIC NVM_UNLOCK_KEY2 \<Rightarrow> v\<lparr>key := (if key v = 2 then 3 else 0)\<rparr>
      | Wr NVMCONSET x \<Rightarrow>
          if key v = 3 \<and> masked v \<and> bit x 15
          then v\<lparr>key := 0, ops := ops v @ [(con v, addr v, word0 v, src v)]\<rparr> else v\<lparr>key := 0\<rparr>
      | Interrupts on \<Rightarrow> v\<lparr>masked := \<not> on, key := 0\<rparr>
      | _ \<Rightarrow> v\<lparr>key := 0\<rparr>)"

definition nvm_run :: "event list \<Rightarrow> nvm_view \<Rightarrow> nvm_view" where
  "nvm_run es v = fold nvm_event es v"

lemma nvm_run_simps [simp]:
  "nvm_run [] v = v" "nvm_run (e # es) v = nvm_run es (nvm_event e v)"
  "nvm_run (xs @ ys) v = nvm_run ys (nvm_run xs v)"
  by (simp_all add: nvm_run_def)

lemma suspend_dma_returns:
  assumes "responsive dev"
  shows "\<exists>b s'. suspend_dma dev s = Some (b, s') \<and> hw.more s' = hw.more s \<and> clock s \<le> clock s' \<and>
    trace s' = trace s @ (if b then [] else [WrMask DMACONSET DMACON_SUSPEND_MASK])"
proof (cases "dev DMA_SUSPEND (clock s)")
  case True
  then show ?thesis
    by (intro exI [of _ True] exI [of _ "tick 1 s"]) (simp add: suspend_dma_def poll_flag_def)
next
  case False
  obtain s' where "wait_while dev DMABUSY (emit (WrMask DMACONSET DMACON_SUSPEND_MASK) (tick 1 s)) = Some s'"
      "later (emit (WrMask DMACONSET DMACON_SUSPEND_MASK) (tick 1 s)) s'"
    using wait_while_returns [OF assms, of DMABUSY] by fastforce
  with False later_simps(3) [OF this(2)] show ?thesis
    by (intro exI [of _ False] exI [of _ s']) (simp add: suspend_dma_def poll_flag_def later_simps)
qed

lemma nvm_parts [simp]:
  "trace (restore_dma b s) = trace s @ (if b then [] else [WrMask DMACONCLR DMACON_SUSPEND_MASK])"
  "hw.more (restore_dma b s) = hw.more s"
  "trace (start_op op s) = trace s @ [Wr NVMCON op, Wr NVMKEY 0, WrMask NVMKEY_SYMBOLIC NVM_UNLOCK_KEY1,
      WrMask NVMKEY_SYMBOLIC NVM_UNLOCK_KEY2, Wr NVMCONSET 0x8000]"
  "hw.more (start_op op s) = hw.more s"
  "trace (snd (op_errors dev s)) = trace s" "hw.more (snd (op_errors dev s)) = hw.more s"
  by (simp_all add: restore_dma_def start_op_def op_errors_def)

definition unlock_events :: "bool \<Rightarrow> bool \<Rightarrow> u32 \<Rightarrow> event list" where
  "unlock_events b ie nvmop =
     [Interrupts False, Wr SPI3CONCLR (BIT 15), Wr SPI4CONCLR (BIT 15), Wr SPI6CONCLR (BIT 15),
      Wr IFS4CLR (BIT 27), Wr IFS5CLR (BIT 4 OR BIT 26)] @
     (if b then [] else [WrMask DMACONSET DMACON_SUSPEND_MASK]) @
     [Wr NVMCON nvmop, Wr NVMKEY 0, WrMask NVMKEY_SYMBOLIC NVM_UNLOCK_KEY1,
      WrMask NVMKEY_SYMBOLIC NVM_UNLOCK_KEY2, Wr NVMCONSET 0x8000] @
     (if b then [] else [WrMask DMACONCLR DMACON_SUSPEND_MASK]) @
     [Interrupts ie, Wr SPI3CONSET (BIT 15), Wr SPI4CONSET (BIT 15), Wr SPI6CONSET (BIT 15), Wr NVMCONCLR 0x4000]"

lemma NVMUnlock_returns:
  assumes "responsive dev"
  shows "\<exists>r b s'. NVMUnlock dev ie nvmop s = Some (r, s') \<and> hw.more s' = hw.more s \<and>
     trace s' = trace s @ unlock_events b ie nvmop"
proof -
  let ?s = "wr IFS5CLR (BIT 4 OR BIT 26) (wr IFS4CLR (BIT 27) (wr SPI6CONCLR (BIT 15) (wr SPI4CONCLR (BIT 15)
    (wr SPI3CONCLR (BIT 15) (emit (Interrupts False) s)))))"
  obtain b s1 where s1: "suspend_dma dev ?s = Some (b, s1)" "hw.more s1 = hw.more ?s"
      "trace s1 = trace ?s @ (if b then [] else [WrMask DMACONSET DMACON_SUSPEND_MASK])"
    using suspend_dma_returns [OF assms] by blast
  obtain s2 where s2: "wait_while dev NVM_WR (start_op nvmop s1) = Some s2" "later (start_op nvmop s1) s2"
    using wait_while_returns [OF assms, of NVM_WR "start_op nvmop s1"] by auto
  define e where "e = op_errors dev (wr NVMCONCLR 0x4000 (wr SPI6CONSET (BIT 15)
      (wr SPI4CONSET (BIT 15) (wr SPI3CONSET (BIT 15) (emit (Interrupts ie) (restore_dma b s2))))))"
  have "NVMUnlock dev ie nvmop s = Some (fst e, snd e)"
    unfolding NVMUnlock_def Let_def by (simp add: s1(1) s2(1) e_def)
  moreover have "hw.more (snd e) = hw.more s" "trace (snd e) = trace s @ unlock_events b ie nvmop"
    using s1(2,3) later_simps [OF s2(2)] by (simp_all add: e_def unlock_events_def)
  ultimately show ?thesis by blast
qed

lemma unlock_events_view:
  "ops (nvm_run (unlock_events b ie nvmop) v) = ops v @ [(nvmop, addr v, word0 v, src v)]"
  "masked (nvm_run (unlock_events b ie nvmop) v) = (\<not> ie)"
  by (simp_all add: unlock_events_def nvm_event_def)


text \<open>
  on a responsive device the three flash operations return and the controller carries out exactly the
  one they ask for, on the physical address of the given pointer: erase a page (code \<open>0x4004\<close>), program a word
  with the given data (\<open>0x4001\<close>), or program a row from the physical address of the given buffer
  (\<open>0x4003\<close>). Interrupts are off while it runs and are afterwards as they were before.
\<close>

theorem NVM_operations:
  assumes "responsive dev"
  shows "(\<exists>s'. NVMErasePage dev ie ptr s = Some s' \<and>
       (let v = nvm_run (trace s') v0 in masked v = (\<not> ie) \<and>
          ops v = ops (nvm_run (trace s) v0) @ [(0x4004, ptr AND 0x1FFFFFFF, word0 v, src v)])) \<and>
     (\<exists>s'. NVMWriteWord dev ie ptr w s = Some s' \<and>
       (let v = nvm_run (trace s') v0 in masked v = (\<not> ie) \<and>
          ops v = ops (nvm_run (trace s) v0) @ [(0x4001, ptr AND 0x1FFFFFFF, w, src v)])) \<and>
     (\<exists>s'. NVMWriteRow dev ie ptr buf s = Some s' \<and>
       (let v = nvm_run (trace s') v0 in masked v = (\<not> ie) \<and>
          ops v = ops (nvm_run (trace s) v0) @ [(0x4003, ptr AND 0x1FFFFFFF, word0 v, buf AND 0x1FFFFFFF)]))"
proof -
  note un = NVMUnlock_returns [OF assms, of ie]
  have keep: "word0 (nvm_run (unlock_events b ie nvmop) v) = word0 v"
    "src (nvm_run (unlock_events b ie nvmop) v) = src v" for b nvmop v
    by (simp_all add: unlock_events_def nvm_event_def)
  obtain r1 b1 s1 where s1: "NVMUnlock dev ie 0x4004 (wr NVMADDR (ptr AND 0x1FFFFFFF) s) = Some (r1, s1)"
      "trace s1 = trace (wr NVMADDR (ptr AND 0x1FFFFFFF) s) @ unlock_events b1 ie 0x4004"
    using un by blast
  obtain r2 b2 s2 where s2: "NVMUnlock dev ie 0x4001 (wr NVMADDR (ptr AND 0x1FFFFFFF) (wr NVMDATA0 w s)) = Some (r2, s2)"
      "trace s2 = trace (wr NVMADDR (ptr AND 0x1FFFFFFF) (wr NVMDATA0 w s)) @ unlock_events b2 ie 0x4001"
    using un by blast
  obtain r3 b3 s3 where s3: "NVMUnlock dev ie 0x4003 (wr NVMADDR (ptr AND 0x1FFFFFFF) (wr NVMSRCADDR (buf AND 0x1FFFFFFF) s)) = Some (r3, s3)"
      "trace s3 = trace (wr NVMADDR (ptr AND 0x1FFFFFFF) (wr NVMSRCADDR (buf AND 0x1FFFFFFF) s)) @ unlock_events b3 ie 0x4003"
    using un by blast
  have "masked (nvm_run (trace s1) v0) = (\<not> ie) \<and> ops (nvm_run (trace s1) v0) =
      ops (nvm_run (trace s) v0) @ [(0x4004, ptr AND 0x1FFFFFFF, word0 (nvm_run (trace s1) v0), src (nvm_run (trace s1) v0))]"
    by (simp add: s1(2) unlock_events_view keep nvm_event_def)
  moreover have "masked (nvm_run (trace s2) v0) = (\<not> ie) \<and> ops (nvm_run (trace s2) v0) =
      ops (nvm_run (trace s) v0) @ [(0x4001, ptr AND 0x1FFFFFFF, w, src (nvm_run (trace s2) v0))]"
    by (simp add: s2(2) unlock_events_view keep nvm_event_def)
  moreover have "masked (nvm_run (trace s3) v0) = (\<not> ie) \<and> ops (nvm_run (trace s3) v0) =
      ops (nvm_run (trace s) v0) @ [(0x4003, ptr AND 0x1FFFFFFF, word0 (nvm_run (trace s3) v0), buf AND 0x1FFFFFFF)]"
    by (simp add: s3(2) unlock_events_view keep nvm_event_def)
  ultimately show ?thesis
    using s1(1) s2(1) s3(1) by (simp add: NVMErasePage_def NVMWriteWord_def NVMWriteRow_def Let_def)
qed

definition demo_hw :: hw where "demo_hw = \<lparr>clock = 0, trace = []\<rparr>"

definition demo_view :: nvm_view where
  "demo_view = \<lparr>con = 0, addr = 0, word0 = 0, src = 0, key = 0, masked = False, ops = []\<rparr>"

lemma NVM_operations_witness:
  "\<exists>s'. NVMWriteWord ready_device True 0xBD100010 7 demo_hw = Some s' \<and>
     ops (nvm_run (trace s') demo_view) = [(0x4001, 0x1D100010, 7, src (nvm_run (trace s') demo_view))]"
  using NVM_operations [OF responsive_ready_device, of True "0xBD100010" demo_hw demo_view 7 0]
  by (auto simp: Let_def demo_hw_def demo_view_def)

section \<open>Waiting with audio service\<close>

text \<open>The erase or write takes a while and then is over; the service returns and takes its time.\<close>

definition finishes :: "device \<Rightarrow> bool" where
  "finishes dev \<longleftrightarrow> (\<exists>T. \<forall>t\<ge>T. \<not> dev NVM_WR t)"

lemma wait_op_returns:
  assumes "finishes dev" and "I s"
    and svc: "\<And>s. I s \<Longrightarrow> \<exists>s'. svc s = Some s' \<and> I s' \<and> clock s \<le> clock s'"
    and tick: "\<And>s. I s \<Longrightarrow> I (tick 1 s)"
  shows "\<exists>s'. wait_op dev svc s = Some s' \<and> I s'"
proof -
  obtain T where T: "\<And>t. t \<ge> T \<Longrightarrow> \<not> dev NVM_WR t" using assms(1) by (auto simp: finishes_def)
  have "\<exists>s'. wait_op dev svc s = Some s' \<and> I s'" if "T - clock s = n" "I s" for n s
    using that
  proof (induction n arbitrary: s rule: less_induct)
    case (less n)
    show ?case
    proof (cases "dev NVM_WR (clock s)")
      case False
      then show ?thesis
        using tick [OF less.prems(2)] by (subst wait_op.simps) (simp add: poll_flag_def)
    next
      case True
      then have "clock s < T" using T [of "clock s"] by (cases "clock s < T") auto
      obtain s1 where s1: "svc (tick 1 s) = Some s1" "I s1" "Suc (clock s) \<le> clock s1"
        using svc [OF tick [OF less.prems(2)]] by auto
      then have "T - clock s1 < n" using \<open>clock s < T\<close> less.prems(1) by linarith
      from less.IH [OF this refl s1(2)] True s1(1) show ?thesis
        by (subst wait_op.simps) (simp add: poll_flag_def)
    qed
  qed
  with assms(2) show ?thesis by blast
qed

section \<open>Flash operations while audio is serviced\<close>

lemma quiet_event:
  "quiet e \<Longrightarrow> ops (nvm_event e v) = ops v \<and> con (nvm_event e v) = con v \<and> addr (nvm_event e v) = addr v \<and>
     word0 (nvm_event e v) = word0 v \<and> src (nvm_event e v) = src v \<and> masked (nvm_event e v) = masked v"
  by (auto simp: quiet_def nvm_event_def split: event.splits reg.splits mask_reg.splits sfr_mask.splits)

lemma quiet_run:
  "list_all quiet es \<Longrightarrow> ops (nvm_run es v) = ops v \<and> con (nvm_run es v) = con v \<and> addr (nvm_run es v) = addr v \<and>
     word0 (nvm_run es v) = word0 v \<and> src (nvm_run es v) = src v \<and> masked (nvm_run es v) = masked v"
  by (induction es arbitrary: v) (simp_all add: quiet_event)

text \<open>The effect on the controller of one operation, and the registers it leaves set up.\<close>

definition does_op :: "u32 \<Rightarrow> bool \<Rightarrow> 'a hw_scheme \<Rightarrow> 'a hw_scheme \<Rightarrow> bool" where
  "does_op nvmop ie s s' \<longleftrightarrow> (\<forall>v0. let v = nvm_run (trace s) v0; v' = nvm_run (trace s') v0
     in ops v' = ops v @ [(nvmop, addr v, word0 v, src v)] \<and> addr v' = addr v \<and> word0 v' = word0 v \<and> src v' = src v \<and>
        masked v' = (\<not> ie))"

lemma NVMOp_returns:
  assumes "responsive dev" and "finishes dev"
    and start: "\<And>es t. clock s \<le> t \<Longrightarrow> I (s\<lparr>clock := t, trace := trace s @ es\<rparr>)"
    and svc: "\<And>r. I r \<Longrightarrow> \<exists>r'. svc r = Some r' \<and> I r' \<and> proceeds r r'"
    and ticks: "\<And>r. I r \<Longrightarrow> I (tick 1 r)" and writes: "\<And>r v. I r \<Longrightarrow> I (wr NVMCONCLR v r)"
  shows "\<exists>x s'. NVMOpWithAudioService dev ie svc nvmop s = Some (x, s') \<and> I s' \<and> does_op nvmop ie s s'"
proof -
  let ?s0 = "emit (Interrupts False) s"
  obtain b s1 where s1: "suspend_dma dev ?s0 = Some (b, s1)" "hw.more s1 = hw.more s" "clock s \<le> clock s1"
      "trace s1 = trace ?s0 @ (if b then [] else [WrMask DMACONSET DMACON_SUSPEND_MASK])"
    using suspend_dma_returns [OF assms(1), of ?s0] by auto
  let ?s2 = "restore_dma b (start_op nvmop s1)"
  define s3 where "s3 = (if ie then emit (Interrupts True) ?s2 else ?s2)"
  define es where "es = [Interrupts False] @ (if b then [] else [WrMask DMACONSET DMACON_SUSPEND_MASK]) @
     [Wr NVMCON nvmop, Wr NVMKEY 0, WrMask NVMKEY_SYMBOLIC NVM_UNLOCK_KEY1,
      WrMask NVMKEY_SYMBOLIC NVM_UNLOCK_KEY2, Wr NVMCONSET 0x8000] @
     (if b then [] else [WrMask DMACONCLR DMACON_SUSPEND_MASK]) @ (if ie then [Interrupts True] else [])"
  have s3: "trace s3 = trace s @ es" "hw.more s3 = hw.more s" "clock s3 = clock s1"
    using s1 by (simp_all add: s3_def es_def restore_dma_def start_op_def)
  have "s3 = s\<lparr>clock := clock s1, trace := trace s @ es\<rparr>"
    using s3 by (cases s; cases s3) simp
  with start [OF s1(3)] have "I s3" by simp
  have "\<exists>s'. wait_op dev svc s3 = Some s' \<and> I s' \<and> proceeds s3 s'"
  proof (rule wait_op_returns [OF assms(2)])
    show "I s3 \<and> proceeds s3 s3" using \<open>I s3\<close> by (simp add: proceeds_still)
    show "\<exists>r'. svc r = Some r' \<and> (I r' \<and> proceeds s3 r') \<and> clock r \<le> clock r'" if "I r \<and> proceeds s3 r" for r
      using svc [of r] that by (metis proceeds_trans proceeds_def)
    show "I (tick 1 r) \<and> proceeds s3 (tick 1 r)" if "I r \<and> proceeds s3 r" for r
      using ticks [of r] that by (auto simp: proceeds_def)
  qed
  then obtain s4 where s4: "wait_op dev svc s3 = Some s4" "I s4" "proceeds s3 s4" by blast
  then obtain qs where qs: "trace s4 = trace s3 @ qs" "list_all quiet qs" by (auto simp: proceeds_def)
  define out where "out = op_errors dev (wr NVMCONCLR 0x4000 s4)"
  have "NVMOpWithAudioService dev ie svc nvmop s = Some (fst out, snd out)"
    unfolding NVMOpWithAudioService_def Let_def by (simp add: s1(1) s4(1) flip: s3_def out_def)
  moreover have "I (snd out)" using ticks [OF writes [OF s4(2)]] by (simp add: out_def op_errors_def)
  moreover have "does_op nvmop ie s (snd out)"
  proof -
    have tr: "trace (snd out) = trace s @ es @ qs @ [Wr NVMCONCLR 0x4000]"
      using qs(1) s3(1) by (simp add: out_def)
    have "ops (nvm_run es v) = ops v @ [(nvmop, addr v, word0 v, src v)] \<and> addr (nvm_run es v) = addr v \<and>
        word0 (nvm_run es v) = word0 v \<and> src (nvm_run es v) = src v \<and> masked (nvm_run es v) = (\<not> ie)" for v
      by (simp add: es_def nvm_event_def)
    then show ?thesis
      unfolding does_op_def Let_def tr using quiet_run [OF qs(2)] by (simp add: nvm_event_def)
  qed
  ultimately show ?thesis by blast
qed

end
