(* ===== verification/Display_Refresh.thy ===== *)
theory Display_Refresh
  imports Display
begin

text \<open>
  How the display behaves over many steps of its loop: the polled transfer of a frame, the blanking
  timer, and drawing text.
\<close>

section \<open>The polled transfer\<close>

definition transfer_steps :: "device \<Rightarrow> nat \<Rightarrow> 'a display_scheme \<Rightarrow> 'a display_scheme" where
  "transfer_steps dev n = ((\<lambda>s. snd (transfer_step dev s)) ^^ n)"

lemma transfer_steps_Suc: "transfer_steps dev (Suc n) s = snd (transfer_step dev (transfer_steps dev n s))"
  by (simp add: transfer_steps_def)

text \<open>\<open>s'\<close> is \<open>s\<close> later, with \<open>j\<close> of the \<open>m\<close> outstanding bytes still to go, or with the frame complete.\<close>

definition transferring :: "'a display_scheme \<Rightarrow> nat \<Rightarrow> nat \<Rightarrow> 'a display_scheme \<Rightarrow> bool" where
  "transferring s m j s' \<longleftrightarrow> j \<le> m \<and> (\<exists>t\<ge>clock s. s' = s\<lparr>clock := t,
     trace := trace s @ concat (map (pair_events s) [512 - m..<512 - j]), displayBytesToSend := int j\<rparr>)"

definition transferred :: "'a display_scheme \<Rightarrow> nat \<Rightarrow> 'a display_scheme \<Rightarrow> bool" where
  "transferred s m s' \<longleftrightarrow> (\<exists>t. s' = s\<lparr>clock := t,
     trace := trace s @ concat (map (pair_events s) [512 - m..<512]) @ [Wr PORTASET (BIT 0), Wr PORTJSET (BIT 3)],
     displayBytesToSend := -1\<rparr>)"

lemma pair_events_frame:
  "pair_events (s\<lparr>clock := t, trace := tr, displayBytesToSend := m\<rparr>) = pair_events s"
  by (simp add: fun_eq_iff pair_events_def get_screen_def split: screen_ref.splits)

lemma store_pair:
  "count_down (store1 (store5 (s\<lparr>trace := tr, displayBytesToSend := m, clock := t\<rparr>))) =
     s\<lparr>clock := t, trace := tr @ pair_events s (nat (512 - m)), displayBytesToSend := m - 1\<rparr>"
  by (simp add: count_down_def store1_def store5_def wr_def emit_def pair_events_def get_screen_def
      split: screen_ref.splits)

lemma transfer_step_cases:
  assumes "transferring s m j s'" and "m \<le> 512"
  shows "transferring s m j (snd (transfer_step dev s')) \<or>
     (\<exists>i. j = Suc i \<and> transferring s m i (snd (transfer_step dev s'))) \<or>
     j = 0 \<and> transferred s m (snd (transfer_step dev s'))"
    and "clock s' < clock (snd (transfer_step dev s')) \<and> clock (snd (transfer_step dev s')) \<le> clock s' + 2"
    and "idle_at dev (clock s') \<Longrightarrow> idle_at dev (Suc (clock s')) \<Longrightarrow>
     (\<exists>i. j = Suc i \<and> transferring s m i (snd (transfer_step dev s'))) \<or>
     j = 0 \<and> transferred s m (snd (transfer_step dev s'))"
proof -
  let ?tr = "trace s @ concat (map (pair_events s) [512 - m..<512 - j])"
  obtain t where t: "clock s \<le> t" "j \<le> m" "s' = s\<lparr>clock := t, trace := ?tr, displayBytesToSend := int j\<rparr>"
    using assms(1) by (auto simp: transferring_def)
  define f g where "f = (if j = 0 then SPI5_SPIBUSY else SPI5_SPITBF)" and
    "g = (if j = 0 then SPI1_SPIBUSY else SPI1_SPITBF)"
  let ?at = "\<lambda>t. s\<lparr>clock := t, trace := ?tr, displayBytesToSend := int j\<rparr>"
  let ?done = "if j = 0
    then s\<lparr>clock := t + 2, trace := ?tr @ [Wr PORTASET (BIT 0), Wr PORTJSET (BIT 3)], displayBytesToSend := -1\<rparr>
    else s\<lparr>clock := t + 2, trace := ?tr @ pair_events s (512 - j), displayBytesToSend := int j - 1\<rparr>"
  have step: "snd (transfer_step dev s') =
      (if dev f t then ?at (t + 1) else if dev g (t + 1) then ?at (t + 2) else ?done)"
  proof (cases "j = 0")
    case True
    then show ?thesis
      by (simp add: transfer_step_def poll_flag_def t(3) tick_def f_def g_def Let_def wr_def emit_def)
  next
    case False
    have n: "nat (512 - int j) = 512 - j" by simp
    show ?thesis
      using False store_pair [where s = s and t = "t + 2" and tr = ?tr and m = "int j"]
      by (simp add: transfer_step_def poll_flag_def t(3) tick_def f_def g_def Let_def n)
  qed
  have at: "transferring s m j (?at u)" if "t \<le> u" for u
    unfolding transferring_def using that t(1,2) by (intro conjI exI [of _ u]) simp_all
  have fin: "(\<exists>i. j = Suc i \<and> transferring s m i ?done) \<or> j = 0 \<and> transferred s m ?done"
  proof (cases j)
    case 0
    then show ?thesis by (auto simp: transferred_def)
  next
    case (Suc i)
    have "[512 - m..<512 - i] = [512 - m..<512 - j] @ [512 - j]"
    proof -
      have "512 - i = Suc (512 - j)" "512 - m \<le> 512 - j" using Suc t(2) assms(2) by auto
      then show ?thesis by simp
    qed
    then have "transferring s m i ?done"
      unfolding transferring_def using Suc t(1,2) by (intro conjI exI [of _ "t + 2"]) simp_all
    with Suc show ?thesis by blast
  qed
  show "transferring s m j (snd (transfer_step dev s')) \<or>
     (\<exists>i. j = Suc i \<and> transferring s m i (snd (transfer_step dev s'))) \<or>
     j = 0 \<and> transferred s m (snd (transfer_step dev s'))"
    unfolding step using at [of "t + 1"] at [of "t + 2"] fin by (simp split: if_split)
  show "clock s' < clock (snd (transfer_step dev s')) \<and> clock (snd (transfer_step dev s')) \<le> clock s' + 2"
    unfolding step by (simp add: t(3))
  show "(\<exists>i. j = Suc i \<and> transferring s m i (snd (transfer_step dev s'))) \<or>
     j = 0 \<and> transferred s m (snd (transfer_step dev s'))"
    if "idle_at dev (clock s')" "idle_at dev (Suc (clock s'))"
  proof -
    have "\<not> dev f t" "\<not> dev g (t + 1)"
      using idle_atD(1) [OF that(1), of f] idle_atD(1) [OF that(2), of g] by (simp_all add: f_def g_def t(3))
    then show ?thesis unfolding step using fin by simp
  qed
qed


lemma transfer_step_done: "displayBytesToSend s < 0 \<Longrightarrow> transfer_step dev s = (True, s)"
  by (simp add: transfer_step_def)

lemma transferring_steps:
  assumes "transferring s m j s'" and "m \<le> 512"
  shows "(\<exists>i\<le>j. transferring s m i (transfer_steps dev n s')) \<or> transferred s m (transfer_steps dev n s')"
proof (induction n)
  case 0
  then show ?case using assms(1) by (auto simp: transfer_steps_def)
next
  case (Suc n)
  then show ?case
  proof (elim disjE exE conjE)
    fix i assume i: "i \<le> j" "transferring s m i (transfer_steps dev n s')"
    from transfer_step_cases(1) [OF i(2) assms(2), of dev] i(1) show ?thesis
      unfolding transfer_steps_Suc by (metis le_trans nat_le_linear not_less_eq_eq)
  next
    assume d: "transferred s m (transfer_steps dev n s')"
    then have "displayBytesToSend (transfer_steps dev n s') < 0" by (auto simp: transferred_def)
    with d show ?thesis by (simp add: transfer_steps_Suc transfer_step_done)
  qed
qed

lemma transfer_progress:
  assumes "responsive dev" and "transferring s m j s'" and "m \<le> 512"
  shows "\<exists>n. (\<exists>i. j = Suc i \<and> transferring s m i (transfer_steps dev n s')) \<or>
     j = 0 \<and> transferred s m (transfer_steps dev n s')"
proof -
  obtain t' where t': "t' \<ge> clock s'" "\<And>u. t' \<le> u \<Longrightarrow> u < t' + 12 \<Longrightarrow> idle_at dev u"
    using assms(1) unfolding responsive_def by blast
  have "\<exists>n. (\<exists>i. j = Suc i \<and> transferring s m i (transfer_steps dev n r)) \<or>
     j = 0 \<and> transferred s m (transfer_steps dev n r)"
    if "clock r \<le> Suc t'" "transferring s m j r" for r
    using that
  proof (induction "Suc t' - clock r" arbitrary: r rule: less_induct)
    case less
    note cases = transfer_step_cases [OF less.prems(2) assms(3), of dev]
    show ?case
    proof (cases "clock r < t'")
      case True
      let ?r = "snd (transfer_step dev r)"
      have c: "clock r < clock ?r" "clock ?r \<le> Suc t'" using cases(2) True by auto
      from cases(1) show ?thesis
      proof (elim disjE)
        assume "transferring s m j ?r"
        moreover have "Suc t' - clock ?r < Suc t' - clock r" using c True by arith
        ultimately obtain n where
          "(\<exists>i. j = Suc i \<and> transferring s m i (transfer_steps dev n ?r)) \<or>
           j = 0 \<and> transferred s m (transfer_steps dev n ?r)" using less.hyps [of ?r] c by blast
        moreover have "transfer_steps dev (Suc n) r = transfer_steps dev n ?r"
          by (simp add: transfer_steps_def funpow_Suc_right del: funpow.simps)
        ultimately show ?thesis by metis
      qed (rule exI [of _ "1 :: nat"], simp add: transfer_steps_def)+
    next
      case False
      then have "idle_at dev (clock r)" "idle_at dev (Suc (clock r))"
        using less.prems(1) by (auto intro!: t'(2))
      from cases(3) [OF this] show ?thesis by - (rule exI [of _ "1 :: nat"], simp add: transfer_steps_def)
    qed
  qed
  with t'(1) assms(2) show ?thesis by auto
qed

text \<open>
  C9: the transfer that the display loop polls: at every moment both panels have been sent exactly the
  first bytes of their frames, pairwise and in order, and they are deselected only after the last byte; and
  on a responsive device the frame is completed after finitely many iterations.
\<close>

theorem polled_transfer:
  assumes "responsive dev" and "displayBytesToSend s = 512"
  shows "(\<forall>n. (\<exists>j. transferring s 512 j (transfer_steps dev n s)) \<or> transferred s 512 (transfer_steps dev n s)) \<and>
     (\<exists>n. transferred s 512 (transfer_steps dev n s))"
proof -
  have s: "transferring s 512 512 s"
    unfolding transferring_def using assms(2) by (intro conjI exI [of _ "clock s"]) simp_all
  have "\<exists>n. transferred s 512 (transfer_steps dev n s')" if "transferring s 512 j s'" for j s'
    using that
  proof (induction j arbitrary: s')
    case 0
    then show ?case using transfer_progress [OF assms(1) 0] by auto
  next
    case (Suc j)
    from transfer_progress [OF assms(1) Suc.prems] obtain n where
      "transferring s 512 j (transfer_steps dev n s')" by auto
    from Suc.IH [OF this] obtain n' where "transferred s 512 (transfer_steps dev n' (transfer_steps dev n s'))" by blast
    moreover have "transfer_steps dev n' (transfer_steps dev n s') = transfer_steps dev (n' + n) s'"
      by (simp add: transfer_steps_def funpow_add)
    ultimately show ?case by metis
  qed
  then show ?thesis using transferring_steps [OF s, of dev] s by blast
qed

lemma polled_transfer_witness:
  "\<exists>n. transferred (demo_display\<lparr>displayBytesToSend := 512\<rparr>) 512
     (transfer_steps ready_device n (demo_display\<lparr>displayBytesToSend := 512\<rparr>))"
  using polled_transfer [OF responsive_ready_device, of "demo_display\<lparr>displayBytesToSend := 512\<rparr>"] by simp

section \<open>The blanking timer\<close>

text \<open>The events of switching both panels off and on, and those of the timer's step.\<close>

definition off_events :: "event list" where
  "off_events = Wr PORTJCLR (BIT 9 OR BIT 2) # send_events Internal 0xae @ send_events External 0xae @
     [Wr PORTJSET (BIT 9 OR BIT 2)]"

definition on_events :: "event list" where
  "on_events = Wr PORTJCLR (BIT 9 OR BIT 2) # concat (map (send_events Internal) [0x22, 0x00, 0x03, 0xaf]) @
     send_events External 0xaf @ [Wr PORTJSET (BIT 9 OR BIT 2)]"

definition blank_events :: "bool \<Rightarrow> int \<Rightarrow> event list" where
  "blank_events on c =
     (if on then (if c \<le> 3200 then off_events else []) else if c \<noteq> 0 then on_events else [])"

lemma blanking_step:
  assumes "responsive dev"
  shows "\<exists>t. blanking dev s = Some (s\<lparr>clock := t, trace := trace s @ blank_events (displayIsOn s) (displayBlankCountdown s),
     displayBlankCountdown := (if displayIsOn s then max 0 (displayBlankCountdown s - 3200) else displayBlankCountdown s),
     displayIsOn := (if displayIsOn s then 3200 < displayBlankCountdown s else displayBlankCountdown s \<noteq> 0)\<rparr>)"
proof -
  have k: "kDisplayRefreshCount = 3200" by (simp add: kDisplayRefreshCount_def SAMPLE_RATE_def)
  let ?s1 = "s\<lparr>displayBlankCountdown := displayBlankCountdown s - 3200\<rparr>"
  obtain t1 where off: "turnOffDisplay dev ?s1 = Some (?s1\<lparr>clock := t1, trace := trace ?s1 @ off_events\<rparr>)"
    using emits_update [OF emits_turnOffDisplay [OF assms], of ?s1] unfolding off_events_def by blast
  obtain t2 where on: "turnOnDisplay dev s = Some (s\<lparr>clock := t2, trace := trace s @ on_events\<rparr>)"
    using emits_update [OF emits_turnOnDisplay [OF assms], of s] unfolding on_events_def by blast
  consider (stays) "displayIsOn s" "3200 < displayBlankCountdown s" | (ends) "displayIsOn s" "displayBlankCountdown s \<le> 3200"
    | (dark) "\<not> displayIsOn s" "displayBlankCountdown s = 0" | (wakes) "\<not> displayIsOn s" "displayBlankCountdown s \<noteq> 0"
    by linarith
  then show ?thesis
  proof cases
    case ends
    with off show ?thesis by (intro exI [of _ t1]) (simp add: blanking_def blank_events_def k Let_def)
  next
    case wakes
    with on show ?thesis by (intro exI [of _ t2]) (simp add: blanking_def blank_events_def)
  qed (intro exI [of _ "clock s"], simp add: blanking_def blank_events_def k Let_def)+
qed

section \<open>Text stays in its rows and on the screen\<close>

lemma plot_column_effect:
  assumes "0 \<le> y" and "y \<le> 24" and "length (screen s) = 128"
  shows "\<exists>xs. plot_column x y index i s = Some (s\<lparr>screen := xs\<rparr>) \<and> length xs = 128 \<and>
     (\<forall>c<128. \<forall>k. (int k < y \<or> y + 8 \<le> int k \<longrightarrow> bit (xs ! c) k = bit (screen s ! c) k) \<and>
        (bit (screen s ! c) k \<longrightarrow> bit (xs ! c) k))"
proof -
  let ?x = "word_of_int (x + int i) :: u32"
  let ?g = "push_bit (nat y) (ucast (font_8x8 ! index ! i)) :: u32"
  show ?thesis
  proof (cases "?x < 128")
    case True
    then have lt': "uint ?x < 128" by (simp add: word_less_def)
    from True have lt: "nat (uint ?x) < 128" by (simp add: word_less_nat_alt)
    have out: "\<not> bit ?g k" if "int k < y \<or> y + 8 \<le> int k" for k
      using that assms(1) by (auto simp: bit_simps nat_le_iff not_le dest: bit_imp_le_length)
    let ?xs = "(screen s)[nat (uint ?x) := screen s ! nat (uint ?x) OR ?g]"
    have "plot_column x y index i s = Some (s\<lparr>screen := ?xs\<rparr>)"
      using True assms lt'
      by (simp add: plot_column_def modify_column_def get_screen_def set_screen_def Let_def nat_less_iff)
    moreover have "bit (?xs ! c) k = bit (screen s ! c) k" if "int k < y \<or> y + 8 \<le> int k" "c < 128" for c k
      using out [OF that(1)] that(2) assms(3) lt by (cases "c = nat (uint ?x)") (simp_all add: bit_or_iff)
    moreover have "bit (?xs ! c) k" if "bit (screen s ! c) k" "c < 128" for c k
      using that assms(3) lt by (cases "c = nat (uint ?x)") (simp_all add: bit_or_iff)
    ultimately show ?thesis using assms(3) by (intro exI [of _ ?xs]) simp
  next
    case False
    then show ?thesis using assms(3) by (intro exI [of _ "screen s"]) (simp add: plot_column_def Let_def)
  qed
qed

text \<open>\<open>draws y s s'\<close>: only the screen's bits \<open>y..y+7\<close> may have changed in the drawing state, and only from 0 to 1.\<close>

definition draws :: "int \<Rightarrow> 'a display_scheme \<Rightarrow> 'a display_scheme \<Rightarrow> bool" where
  "draws y s s' \<longleftrightarrow> drawing (s'\<lparr>screen := screen s\<rparr>) = drawing s \<and> length (screen s') = 128 \<and>
     (\<forall>c<128. \<forall>k. (int k < y \<or> y + 8 \<le> int k \<longrightarrow> bit (screen s' ! c) k = bit (screen s ! c) k) \<and>
        (bit (screen s ! c) k \<longrightarrow> bit (screen s' ! c) k))"

lemma draws_refl: "length (screen s) = 128 \<Longrightarrow> draws y s s"
  by (simp add: draws_def)

lemma draws_trans: "draws y s s' \<Longrightarrow> draws y s' s'' \<Longrightarrow> draws y s s''"
  by (auto simp: draws_def drawing_def)

context audio_frame
begin

lemma glyph_draws:
  assumes "0 \<le> y" and "y \<le> 24" and "I s" and "length (screen s) = 128"
  shows "\<exists>s'. fold_opt (\<lambda>i s. Option.bind (plot_column x y index i s) svc) is s = Some s' \<and> I s' \<and> draws y s s'"
  using assms(3,4)
proof (induction "is" arbitrary: s)
  case Nil
  then show ?case by (simp add: draws_refl)
next
  case (Cons i "is")
  obtain xs where xs: "plot_column x y index i s = Some (s\<lparr>screen := xs\<rparr>)" "length xs = 128"
     "\<forall>c<128. \<forall>k. (int k < y \<or> y + 8 \<le> int k \<longrightarrow> bit (xs ! c) k = bit (screen s ! c) k) \<and>
        (bit (screen s ! c) k \<longrightarrow> bit (xs ! c) k)"
    using plot_column_effect [OF assms(1,2) Cons.prems(2)] by blast
  have "I (s\<lparr>screen := xs\<rparr>)" using undisturbed [OF Cons.prems(1), of Screen xs] by (simp add: set_screen_def)
  then obtain s1 where s1: "svc (s\<lparr>screen := xs\<rparr>) = Some s1" "I s1" "drawing s1 = drawing (s\<lparr>screen := xs\<rparr>)"
    by (rule servesE)
  have d1: "draws y s s1" using xs(2,3) s1(3) by (auto simp: draws_def drawing_def)
  then have "length (screen s1) = 128" by (simp add: draws_def)
  from Cons.IH [OF s1(2) this] obtain s2 where
    "fold_opt (\<lambda>i s. Option.bind (plot_column x y index i s) svc) is s1 = Some s2" "I s2" "draws y s1 s2" by blast
  then show ?case using xs(1) s1(1) draws_trans [OF d1] by auto
qed

lemma drawString88_draws:
  assumes "0 \<le> y" and "y \<le> 24" and "I s" and "length (screen s) = 128" and "0 \<in> set str"
  shows "\<exists>s'. drawString88 svc x y str s = Some s' \<and> I s' \<and> draws y s s'"
  using assms(3-5)
proof (induction str arbitrary: x s)
  case Nil
  then show ?case by simp
next
  case (Cons c str)
  show ?case
  proof (cases "c = 0")
    case True
    then show ?thesis using Cons.prems(1,2) by (simp add: draws_refl)
  next
    case False
    then have str: "0 \<in> set str" using Cons.prems(3) by simp
    show ?thesis
    proof (cases "sint c - 32 < 0 \<or> sint c - 32 \<ge> 96")
      case True
      then show ?thesis using False Cons.IH [OF Cons.prems(1,2) str] by (simp add: Let_def)
    next
      case visible: False
      obtain s1 where s1: "fold_opt (\<lambda>i s. Option.bind (plot_column x y (nat (sint c - 32)) i s) svc) [0..<8] s = Some s1"
          "I s1" "draws y s s1"
        using glyph_draws [OF assms(1,2) Cons.prems(1,2)] by blast
      then have "length (screen s1) = 128" by (simp add: draws_def)
      from Cons.IH [OF s1(2) this str] obtain s2
        where "drawString88 svc (x + 8) y str s1 = Some s2" "I s2" "draws y s1 s2" by blast
      moreover have "drawString88 svc x y (c # str) s = drawString88 svc (x + 8) y str s1"
        using False visible s1(1) by (simp add: Let_def del: upt_Suc)
      ultimately show ?thesis using draws_trans [OF s1(3)] by auto
    qed
  qed
qed

end

text \<open>
  \<open>drawString88\<close> of a NUL-terminated string at any column, also one that starts or runs off the screen, and at
  any row that leaves room for a character, returns, stays within the frame buffer, sets bits
  only in its eight rows, clears none, and leaves everything else that drawing works on alone.
\<close>

theorem drawString88_confined:
  assumes "audio_frame I svc" and "0 \<le> y" and "y \<le> 24" and "I s" and "length (screen s) = 128" and "0 \<in> set str"
  shows "\<exists>s'. drawString88 svc x y str s = Some s' \<and> I s' \<and> draws y s s'"
  by (rule audio_frame.drawString88_draws [OF assms])

lemma drawString88_confined_witness:
  "\<exists>s'. drawString88 Some 120 8 [0x4F, 0x4B, 0] demo_display = Some s' \<and> draws 8 demo_display s'"
  using drawString88_confined [OF idle.audio_frame_axioms, of 8 demo_display "[0x4F, 0x4B, 0]" 120]
  by (simp add: demo_display_def)

end
