(* ===== verification/Settings.thy ===== *)
theory Settings
  imports Audio Nvm Display_Refresh
begin

text \<open>
  The rest of \<open>algorithm.cc\<close>: the user interface on the program's state, the settings written to the flash
  memory when they have changed (\<open>algorithm_idle\<close>), and the page that shows them
  (\<open>algorithm_display\<close>). \<open>buf_addr\<close> is the address the linker gives \<open>pageBuffer\<close>.
\<close>

section \<open>The user interface\<close>

definition algorithm_UI :: "peaks_lib \<Rightarrow> int list \<Rightarrow> ('f, 'a) app_scheme \<Rightarrow> ('f, 'a) app_scheme option" where
  "algorithm_UI pk enc s =
     map_option (\<lambda>a. s\<lparr>algorithmData := a\<rparr>)
       (user_interface pk (encSW (halfState s ! 0) \<noteq> 0, encSW (halfState s ! 1) \<noteq> 0) enc
          [adc_value (Z (adcs s) ! 0), adc_value (Z (adcs s) ! 1)] (algorithmData s))"

section \<open>Saving the settings\<close>

text \<open>A 32-bit word in memory, least significant byte first; \<open>put_words\<close> stores words from the start of a buffer.\<close>

definition le_bytes :: "u32 \<Rightarrow> u8 list" where
  "le_bytes w = [ucast w, ucast (drop_bit 8 w), ucast (drop_bit 16 w), ucast (drop_bit 24 w)]"

definition put_words :: "u32 list \<Rightarrow> u8 list \<Rightarrow> u8 list" where
  "put_words ws buf = concat (map le_bytes ws) @ drop (4 * length ws) buf"

definition get_word :: "u8 list \<Rightarrow> nat \<Rightarrow> u32" where
  "get_word buf k = ucast (buf ! (4 * k)) OR push_bit 8 (ucast (buf ! (4 * k + 1))) OR
     push_bit 16 (ucast (buf ! (4 * k + 2))) OR push_bit 24 (ucast (buf ! (4 * k + 3)))"

definition settings_words :: "algorithm_data \<Rightarrow> u32 list" where
  "settings_words a = [kPeaksMagic, word_of_int (edit_mode a), word_of_int (settings_function a ! 0),
     word_of_int (settings_function a ! 1)]"

definition erase_settings ::
    "device \<Rightarrow> bool \<Rightarrow> (('f, 'a) app_scheme \<Rightarrow> ('f, 'a) app_scheme option) \<Rightarrow> ('f, 'a) app_scheme \<Rightarrow>
     ('f, 'a) app_scheme option" where
  "erase_settings dev ie svc s =
     map_option snd (NVMOpWithAudioService dev ie svc 0x4004 (wr NVMADDR (PEAKS_NVM_BASE AND 0x1FFFFFFF) s))"

definition prepare_settings :: "('f, 'a) app_scheme \<Rightarrow> ('f, 'a) app_scheme" where
  "prepare_settings s = s\<lparr>pageBuffer := put_words (settings_words (algorithmData s)) (pageBuffer s)\<rparr>"

definition write_settings ::
    "device \<Rightarrow> bool \<Rightarrow> (('f, 'a) app_scheme \<Rightarrow> ('f, 'a) app_scheme option) \<Rightarrow> u32 \<Rightarrow> ('f, 'a) app_scheme \<Rightarrow>
     ('f, 'a) app_scheme option" where
  "write_settings dev ie svc buf_addr s =
     map_option snd (NVMOpWithAudioService dev ie svc 0x4003
       (wr NVMADDR (PEAKS_NVM_BASE AND 0x1FFFFFFF) (wr NVMSRCADDR (buf_addr AND 0x1FFFFFFF) s)))"

definition algorithm_idle ::
    "device \<Rightarrow> bool \<Rightarrow> (('f, 'a) app_scheme \<Rightarrow> ('f, 'a) app_scheme option) \<Rightarrow> u32 \<Rightarrow> ('f, 'a) app_scheme \<Rightarrow>
     ('f, 'a) app_scheme option" where
  "algorithm_idle dev ie svc buf_addr s =
     (if writeToFlash (algorithmData s)
      then do {
        s \<leftarrow> erase_settings dev ie svc (s\<lparr>algorithmData := (algorithmData s)\<lparr>writeToFlash := False\<rparr>\<rparr>);
        write_settings dev ie svc buf_addr (prepare_settings s) }
      else Some s)"

section \<open>Showing the settings\<close>

definition c_str :: "string \<Rightarrow> u8 list" where "c_str cs = map of_char cs @ [0]"

definition editModeStrings :: "string list" where
  "editModeStrings = [''TWIN'', ''SPLIT'', ''EXPERT 1'', ''EXPERT 2'']"

definition functionStrings :: "string list" where
  "functionStrings = [''ENVELOPE'', ''LFO'', ''TAP_LFO'', ''BASSDRUM'', ''SNARE'', ''HIGHHAT'', ''FM DRUM'', ''SHAPER'',
     ''RANDOMIZ'', ''BOUNCING'', ''MINISEQ'', ''NUMBERS'']"

text \<open>\<open>sprintf\<close> of an unsigned 16-bit value with the format \<open>%04X\<close>: four digits.\<close>

definition hex_digit :: "u16 \<Rightarrow> u8" where
  "hex_digit n = (if n < 10 then 0x30 + ucast n else 0x37 + ucast n)"

definition format_04X :: "u16 \<Rightarrow> u8 list" where
  "format_04X w = map (\<lambda>k. hex_digit (drop_bit (4 * k) w AND 0xF)) [3, 2, 1, 0] @ [0]"

text \<open>The string at an index of a table, if there is one.\<close>

definition table_entry :: "string list \<Rightarrow> int \<Rightarrow> u8 list option" where
  "table_entry strs i = (if 0 \<le> i \<and> i < int (length strs) then Some (c_str (strs ! nat i)) else None)"

definition show_processor ::
    "peaks_lib \<Rightarrow> (('f, 'a) app_scheme \<Rightarrow> ('f, 'a) app_scheme option) \<Rightarrow> nat \<Rightarrow> ('f, 'a) app_scheme \<Rightarrow>
     ('f, 'a) app_scheme option" where
  "show_processor pk svc i s = do {
     name \<leftarrow> table_entry functionStrings (processor_function pk (processor_calls (algorithmData s)) i);
     s \<leftarrow> drawString88 svc 64 (int i * 8) name s;
     fold_opt (\<lambda>j s. drawString88 svc (int j * 32) (16 + int i * 8)
         (format_04X (processorParams (algorithmData s) ! i ! j)) s) [0..<4] s }"

definition algorithm_display ::
    "peaks_lib \<Rightarrow> (('f, 'a) app_scheme \<Rightarrow> ('f, 'a) app_scheme option) \<Rightarrow> ('f, 'a) app_scheme \<Rightarrow>
     ('f, 'a) app_scheme option" where
  "algorithm_display pk svc s = do {
     mode \<leftarrow> table_entry editModeStrings (edit_mode (algorithmData s));
     s \<leftarrow> drawString88 svc 0 0 mode s;
     fold_opt (show_processor pk svc) [0..<2] s }"

section \<open>A round trip through the flash memory\<close>

lemma get_word_head: "get_word (le_bytes w @ ys) 0 = w"
proof (rule bit_word_eqI)
  fix n assume "n < LENGTH(32)"
  then consider "n < 8" | "8 \<le> n \<and> n < 16" | "16 \<le> n \<and> n < 24" | "24 \<le> n \<and> n < 32" by fastforce
  then show "bit (get_word (le_bytes w @ ys) 0) n = bit w n"
    by cases (auto simp: get_word_def le_bytes_def bit_simps)
qed

lemma get_word_tail: "get_word (le_bytes w @ ys) (Suc k) = get_word ys k"
  by (simp add: get_word_def le_bytes_def add.commute [of "4 * k" 3])

lemma get_put_word:
  assumes "k < length ws" shows "get_word (put_words ws buf) k = ws ! k"
  using assms
proof (induction ws arbitrary: k buf)
  case Nil
  then show ?case by simp
next
  case (Cons w ws)
  have "put_words (w # ws) buf = le_bytes w @ put_words ws (drop 4 buf)"
    by (simp add: put_words_def add.commute)
  with Cons show ?case by (cases k) (simp_all add: get_word_head get_word_tail)
qed

text \<open>
  C33: the settings survive being saved and read back: whatever the page buffer held, the words that
  \<open>algorithm_idle\<close> stores in it let \<open>algorithm_init\<close> restore the edit mode and, in the expert modes, both functions.
  In the twin and split modes both functions come back as the second one (\<open>SetFunction\<close> sets both in those modes, so the
  first is lost when they differ, as they can after a hold of the left button has left the expert modes).
\<close>

theorem settings_roundtrip:
  assumes "peaks_enums pk" and "alg_inv a" and "settings_function a = [f0, f1]"
  shows "\<exists>a'. algorithm_init pk (get_word (put_words (settings_words a) buf)) b = Some a' \<and>
     edit_mode a' = edit_mode a \<and> settings_function a' = (if edit_mode a < 2 then [f1, f1] else [f0, f1]) \<and>
     \<not> writeToFlash a'"
proof -
  define flash where "flash = get_word (put_words (settings_words a) buf)"
  have "flash 0 = kPeaksMagic" "flash 1 = word_of_int (edit_mode a)" "flash 2 = word_of_int f0" "flash 3 = word_of_int f1"
    unfolding flash_def using assms(3) by (simp_all add: get_put_word settings_words_def)
  from algorithm_init_restores [OF assms this, of b] show ?thesis
    unfolding flash_def [symmetric]
    by (auto simp: algorithm_init_def Let_def SetFunction_def zero_data_def pcall_def split: if_splits bind_splits)
qed

lemma settings_roundtrip_witness:
  "\<exists>a'. algorithm_init demo_peaks (get_word (put_words (settings_words (demo_alg\<lparr>edit_mode := 3, settings_function := [4, 7]\<rparr>)) [])) demo_alg
     = Some a' \<and> edit_mode a' = 3 \<and> settings_function a' = [4, 7]"
proof -
  have "alg_inv (demo_alg\<lparr>edit_mode := 3, settings_function := [4, 7]\<rparr>)" by (simp add: alg_inv_def demo_alg_def)
  from settings_roundtrip [OF demo_alg_ok(1) this, of 4 7 "[]" demo_alg] show ?thesis by auto
qed

section \<open>The page buffer is shared\<close>

lemma busy_work_eq: "busy_work t = 401 * t"
proof -
  have "((\<lambda>x. x + t) ^^ n) x = x + of_nat n * t" for n x
    by (induction n) (simp_all add: algebra_simps)
  then show ?thesis by (simp add: busy_work_def algebra_simps)
qed

lemma low_byte: "ucast (get_word buf 0) = buf ! 0"
  by (rule bit_word_eqI) (auto simp: get_word_def bit_simps)

lemma load_loop_overwrites:
  assumes "counter_runs inp" and "uint (inp CP0_COUNT (clock s) - t0) < 5353"
  shows "\<exists>s'. load_loop inp t0 s = Some s' \<and> pageBuffer s' = (pageBuffer s)[0 := ucast (busy_work (time s))]"
proof -
  let ?s = "(tick 1 s)\<lparr>pageBuffer := (pageBuffer s)[0 := ucast (busy_work (time s))]\<rparr>"
  let ?e = "inp CP0_COUNT (clock s) - t0" and ?d = "inp CP0_COUNT (Suc (clock s)) - inp CP0_COUNT (clock s)"
  have d: "uint ?d \<le> 2 ^ 24" using assms(1) by (simp add: counter_runs_def)
  have "\<not> cpuLoad ?e > 50" using assms(2) load_threshold [of ?e] by simp
  then have run: "load_loop inp t0 s = load_loop inp t0 ?s"
    by (subst load_loop.simps) (simp add: Let_def tick_def)
  have "inp CP0_COUNT (clock ?s) - t0 = ?e + ?d" by (simp add: tick_def)
  moreover have "uint (?e + ?d) = uint ?e + uint ?d"
    using assms(2) d by (subst uint_add_lem [THEN iffD1]) simp_all
  ultimately have "uint (inp CP0_COUNT (clock ?s) - t0) < 5353 + 2 ^ 24" using assms(2) d by simp
  from load_loop_returns [OF assms(1) this] obtain s' where s': "load_loop inp t0 ?s = Some s'" "spun ?s s'" by blast
  have "pageBuffer s' = (pageBuffer s)[0 := ucast (busy_work (time s))]"
    using s'(2) by (elim spunE) (auto simp: tick_def)
  with run s'(1) show ?thesis by metis
qed

text \<open>
  C40: the busy work of an audio step overwrites the settings while they are being saved: the page buffer from which the row is
  programmed is also the target of the dummy stores of \<open>algorithm_step\<close>. When a service during the programming
  finds less than half of the load used up, the first byte of the page buffer becomes the low byte of
  401 times the sample clock; a controller that reads it after that stores a wrong magic number
  (unless the byte happens to be \<open>0xAC\<close>), and the next start-up discards the settings.
\<close>

theorem busy_work_overwrites_settings:
  assumes "counter_runs inp" and "uint (inp CP0_COUNT (Suc (clock s)) - inp CP0_COUNT (clock s)) < 5353"
    and "get_word (pageBuffer s) 0 = kPeaksMagic" and "pageBuffer s \<noteq> []" and "(ucast (401 * time s) :: u8) \<noteq> 0xAC"
  shows "\<exists>s'. algorithm_step pk fl inp ping s = Some s' \<and> get_word (pageBuffer s') 0 \<noteq> kPeaksMagic \<and>
     (\<exists>a. algorithm_init pk (get_word (pageBuffer s')) b = Some a \<and> edit_mode a = EDIT_MODE_TWIN pk \<and>
        settings_function a = [FUNCTION_ENVELOPE pk, FUNCTION_ENVELOPE pk])"
proof -
  let ?h = "process_half pk fl ping (tick 1 s)"
  have "uint (inp CP0_COUNT (clock ?h) - inp CP0_COUNT (clock s)) < 5353"
    using assms(2) by (simp add: process_half_frame)
  from load_loop_overwrites [OF assms(1) this]
  obtain s' where s': "algorithm_step pk fl inp ping s = Some s'" "pageBuffer s' = (pageBuffer ?h)[0 := ucast (busy_work (time ?h))]"
    by (auto simp: algorithm_step_def Let_def)
  have "pageBuffer ?h = pageBuffer s" "time ?h = time s" by (simp_all add: process_half_frame tick_def)
  with s'(2) assms(4) have "pageBuffer s' ! 0 = ucast (401 * time s)" by (simp add: busy_work_eq)
  moreover have "(ucast kPeaksMagic :: u8) = 0xAC" by (simp add: kPeaksMagic_def)
  ultimately have "get_word (pageBuffer s') 0 \<noteq> kPeaksMagic"
    using low_byte [of "pageBuffer s'"] assms(5) by metis
  then show ?thesis using s'(1) by (simp add: algorithm_init_def Let_def)
qed

lemma busy_work_overwrites_settings_witness:
  "\<exists>s'. algorithm_step demo_peaks demo_fl demo_input 0 (prepare_settings demo_app) = Some s' \<and>
     get_word (pageBuffer s') 0 \<noteq> kPeaksMagic"
proof -
  let ?s = "prepare_settings demo_app"
  have "time ?s = 0"
    by (simp add: prepare_settings_def demo_app_def receive.defs demo_receive_def i2c.defs demo_i2c_def recall.defs
        demo_recall_def midi_in.defs demo_in_def midi_out.defs demo_midi_def display.defs demo_display_def)
  moreover have "get_word (pageBuffer ?s) 0 = kPeaksMagic"
    by (simp add: prepare_settings_def get_put_word settings_words_def)
  moreover have "pageBuffer ?s \<noteq> []" by (simp add: prepare_settings_def put_words_def settings_words_def le_bytes_def)
  moreover have "clock ?s = 0" by (simp add: prepare_settings_def)
  moreover have "uint (demo_input CP0_COUNT (Suc 0) - demo_input CP0_COUNT 0) < 5353" by (simp add: demo_input_def)
  ultimately show ?thesis
    using busy_work_overwrites_settings [OF demo_counter_runs, of ?s demo_peaks demo_fl 0 demo_alg] by auto
qed

end
