(* ===== verification/Audio_Service.thy ===== *)
theory Audio_Service
  imports Settings
begin

text \<open>
  The audio service of \<open>app.c\<close>: what the program does each time the DMA channels have filled both halves of the
  audio blocks. It runs the two audio steps with the incoming messages between them, drives the LEDs and
  the MIDI output, and every tenth time reads the controls. \<open>serviceAudioSingle\<close> then also
  saves the settings; while that waits for the flash memory only the internal service runs.
\<close>

section \<open>The environment\<close>

text \<open>
  The parameters of the program: the device and its data registers, the signal processors, the
  floating-point unit, the interrupt enable bit, and the address of the page buffer.
\<close>

record 'f env =
  dev :: device
  inp :: input
  peaks :: peaks_lib
  fpu :: "'f float_ops"
  irq_on :: bool
  buffer_addr :: u32

section \<open>The operations\<close>

definition service_half :: "'f env \<Rightarrow> nat \<Rightarrow> ('f, 'a) app_scheme \<Rightarrow> ('f, 'a) app_scheme option" where
  "service_half e ping s = do {
     let s = wr PORTBSET (BIT 4) (s\<lparr>time := time s + word_of_int k_framesPerBlock\<rparr>);
     s \<leftarrow> algorithm_step (peaks e) (fpu e) (inp e) ping s;
     FlushMIDIRx (dev e) DefaultMIDIMessageHandler (wr PORTBCLR (BIT 4) s) }"

definition service_blocks :: "'f env \<Rightarrow> ('f, 'a) app_scheme \<Rightarrow> ('f, 'a) app_scheme option" where
  "service_blocks e s =
     (if doServiceAudio s
      then do {
        s \<leftarrow> service_half e (nat (k_framesPerBlock * 2)) s;
        s \<leftarrow> wait_until (dev e) DCH5_HALF_DONE (wr DCH5INTCLR (BIT 4 OR BIT 5) s);
        service_half e 0 s }
      else Some s)"

text \<open>The brightness of a Z LED from an input code and its zero: an arithmetic shift by 13, limited to ten bits.\<close>

definition led_duty :: "int \<Rightarrow> int \<Rightarrow> int" where
  "led_duty code zero = APPLY_RANGE (512 + i32 (code - zero) div 2 ^ 13) 0 1023"

definition update_leds :: "('f, 'a) app_scheme \<Rightarrow> ('f, 'a) app_scheme" where
  "update_leds s =
     (let s = wr OC9RS (word_of_int (led_duty (blocks_in s ! 2 ! 0) (A (calibration s ! 1) ! 2))) s
      in wr OC8RS (word_of_int (led_duty (blocks_in s ! 2 ! 1) (A (calibration s ! 0) ! 2))) s)"

definition poll_controls :: "'f env \<Rightarrow> ('f, 'a) app_scheme \<Rightarrow> ('f, 'a) app_scheme option" where
  "poll_controls e s =
     (let s = s\<lparr>slowTimeCountdown := slowTimeCountdown s - 2 * k_framesPerBlock\<rparr> in
      if slowTimeCountdown s \<le> 0
      then let ph = inp e PORTH_in (clock s); pb = inp e PORTB_in (clock s + 1);
               (enc, s) = update_controls ph pb (tick 2 (s\<lparr>slowTimeCountdown := kSlowTimeRatio\<rparr>))
        in algorithm_UI (peaks e) enc s
      else Some s)"

definition serviceAudioInternalSingle :: "'f env \<Rightarrow> ('f, 'a) app_scheme \<Rightarrow> ('f, 'a) app_scheme option" where
  "serviceAudioInternalSingle e s = do {
     let s = wr PORTJINV (BIT 11) (readAndTriggerADCs (dev e) (inp e) (wr PORTJINV (BIT 11) s));
     s \<leftarrow> service_blocks e s;
     let s = update_leds s;
     let s = (if midiOutPending s then snd (HandleMIDIOut (dev e) s) else s);
     poll_controls e s }"

text \<open>\<open>CHECK_SERVICE_AUDIO\<close> and \<open>CHECK_SERVICE_AUDIO_INTERNAL\<close>: the service runs when a block is complete.\<close>

definition when_pending ::
    "device \<Rightarrow> (('f, 'a) app_scheme \<Rightarrow> ('f, 'a) app_scheme option) \<Rightarrow> ('f, 'a) app_scheme \<Rightarrow> ('f, 'a) app_scheme option" where
  "when_pending dv svc s =
     (let (pending, s) = poll_flag dv DCH5_BLOCK_DONE s in
      if pending then svc (wr DCH5INTCLR (BIT 3 OR BIT 4 OR BIT 5) s) else Some s)"

definition CheckServiceAudioInternal :: "'f env \<Rightarrow> ('f, 'a) app_scheme \<Rightarrow> ('f, 'a) app_scheme option" where
  "CheckServiceAudioInternal e = when_pending (dev e) (serviceAudioInternalSingle e)"

definition serviceAudioSingle :: "'f env \<Rightarrow> ('f, 'a) app_scheme \<Rightarrow> ('f, 'a) app_scheme option" where
  "serviceAudioSingle e s = do {
     s \<leftarrow> serviceAudioInternalSingle e s;
     algorithm_idle (dev e) (irq_on e) (CheckServiceAudioInternal e) (buffer_addr e) s }"

definition CheckServiceAudio :: "'f env \<Rightarrow> ('f, 'a) app_scheme \<Rightarrow> ('f, 'a) app_scheme option" where
  "CheckServiceAudio e = when_pending (dev e) (serviceAudioSingle e)"

definition WaitForAudioInterrupt :: "'f env \<Rightarrow> ('f, 'a) app_scheme \<Rightarrow> ('f, 'a) app_scheme option" where
  "WaitForAudioInterrupt e s =
     map_option (wr DCH5INTCLR (BIT 3 OR BIT 4 OR BIT 5)) (wait_until (dev e) DCH5_BLOCK_DONE s)"

section \<open>The invariant\<close>

definition pot_ok :: "adc_channel \<Rightarrow> bool" where
  "pot_ok ch \<longleftrightarrow> channel_inv ch \<and> (\<forall>x\<in>set (adc_samples ch). 0 \<le> x \<and> x < 4096)"

definition app_inv :: "('f, 'a) app_scheme \<Rightarrow> bool" where
  "app_inv s \<longleftrightarrow> rx_inv s \<and> audio_blocks s \<and> alg_inv (algorithmData s) \<and>
     length (Z (adcs s)) = 2 \<and> (\<forall>ch\<in>set (Z (adcs s)). pot_ok ch) \<and> length (halfState s) = 2"

text \<open>
  What the service relies on: the peripherals keep responding, the cycle counter runs, the converters
  deliver 12-bit values, and the library numbers the edit modes as it documents and has the twelve
  processor functions that \<open>algorithm_display\<close> names.
\<close>

definition env_ok :: "'f env \<Rightarrow> bool" where
  "env_ok e \<longleftrightarrow> responsive (dev e) \<and> counter_runs (inp e) \<and> peaks_enums (peaks e) \<and>
     (\<forall>t. inp e ADCDATA38 t < 4096 \<and> inp e ADCDATA39 t < 4096) \<and>
     (\<forall>cs i. 0 \<le> processor_function (peaks e) cs i \<and> processor_function (peaks e) cs i < 12)"

text \<open>
  What the service promises its callers: it keeps the invariant, leaves the drawing state and the flash
  controller alone, lets time pass, and leaves no unsaved settings unmarked.
\<close>

definition settings_of :: "algorithm_data \<Rightarrow> int \<times> int list" where
  "settings_of a = (edit_mode a, settings_function a)"

definition marked :: "algorithm_data \<Rightarrow> algorithm_data \<Rightarrow> bool" where
  "marked a a' \<longleftrightarrow> (writeToFlash a \<longrightarrow> writeToFlash a') \<and> (settings_of a' = settings_of a \<or> writeToFlash a')"

definition undamaged :: "('f, 'a) app_scheme \<Rightarrow> ('f, 'a) app_scheme \<Rightarrow> bool" where
  "undamaged s s' \<longleftrightarrow> app_inv s' \<and> drawing s' = drawing s \<and> app.more s' = app.more s"

definition serviced :: "('f, 'a) app_scheme \<Rightarrow> ('f, 'a) app_scheme \<Rightarrow> bool" where
  "serviced s s' \<longleftrightarrow> undamaged s s' \<and> marked (algorithmData s) (algorithmData s') \<and> proceeds s s'"

lemmas serviced_defs = serviced_def undamaged_def

lemma serviced_trans: "serviced s s' \<Longrightarrow> serviced s' s'' \<Longrightarrow> serviced s s''"
  by (auto simp: serviced_defs marked_def intro: proceeds_trans)

lemma serviced_refl: "app_inv s \<Longrightarrow> serviced s s"
  by (simp add: serviced_defs marked_def proceeds_still)

lemma servicedD: "serviced s s' \<Longrightarrow> app_inv s'"
  by (simp add: serviced_defs)

section \<open>Each part keeps the promise\<close>

lemma app_more_eq:
  assumes "receive.more s' = receive.more (s :: ('f, 'a) app_scheme)"
  shows "adcs s' = adcs s" "blocks_in s' = blocks_in s" "blocks_out s' = blocks_out s"
    "algorithmData s' = algorithmData s" "app.more s' = app.more s"
    "doServiceAudio s' = doServiceAudio s" "slowTimeCountdown s' = slowTimeCountdown s"
  using assms by (cases s; cases s'; simp)+

lemma rx_serviced:
  assumes "app_inv s" and "rx_inv s'" and "proceeds s s'" and "rx_frame s' = rx_frame s"
  shows "serviced s s'" and "time s' = time s" and "doServiceAudio s' = doServiceAudio s"
    and "slowTimeCountdown s' = slowTimeCountdown s" and "blocks_in s' = blocks_in s" and "blocks_out s' = blocks_out s"
proof -
  have f: "receive.more s' = receive.more s" "halfState s' = halfState s" "time s' = time s" "drawing s' = drawing s"
    using assms(4) by (simp_all add: rx_frame_def drawing_def)
  note m = app_more_eq [OF f(1)]
  show "serviced s s'"
    using assms(1-3) f(2,4) m by (simp add: serviced_defs app_inv_def audio_blocks_def marked_def)
  show "time s' = time s" "doServiceAudio s' = doServiceAudio s" "slowTimeCountdown s' = slowTimeCountdown s"
    "blocks_in s' = blocks_in s" "blocks_out s' = blocks_out s"
    using f m by simp_all
qed

lemma serviced_wr: "app_inv s \<Longrightarrow> quiet (Wr r v) \<Longrightarrow> serviced s (wr r v s)"
  by (simp add: serviced_defs app_inv_def audio_blocks_def kept_defs marked_def drawing_def wr_def emit_def)

lemma serviced_tick: "app_inv s \<Longrightarrow> serviced s (tick n s)"
  by (simp add: serviced_defs app_inv_def audio_blocks_def kept_defs marked_def drawing_def tick_def)

lemma serviced_later: "app_inv s \<Longrightarrow> later s s' \<Longrightarrow> serviced s s'"
  by (auto simp: later_def serviced_defs app_inv_def audio_blocks_def kept_defs marked_def drawing_def)

lemma serviced_state:
  assumes "app_inv s"
  shows "serviced s (s\<lparr>time := t\<rparr>)" and "serviced s (s\<lparr>slowTimeCountdown := n\<rparr>)"
    and "serviced s (s\<lparr>doServiceAudio := b\<rparr>)" and "serviced s (s\<lparr>displayBlankCountdown := n\<rparr>)"
  using assms by (simp_all add: serviced_defs app_inv_def audio_blocks_def kept_defs marked_def drawing_def)

text \<open>The converters.\<close>

lemma pot_ok_process: "pot_ok ch \<Longrightarrow> 0 \<le> raw \<Longrightarrow> raw < 4096 \<Longrightarrow> pot_ok (process_Z raw ch)"
  using process_Z_window(1) [of ch raw]
  by (auto simp: pot_ok_def process_Z_def dest!: set_update_subset_insert [THEN subsetD])

lemma i16_small: "w < 4096 \<Longrightarrow> 0 \<le> i16 w \<and> i16 w < 4096"
proof -
  assume "w < 4096"
  then have u: "uint w < 4096" by (simp add: word_less_def)
  then have "uint (ucast w :: 16 word) = uint w" by (simp add: unsigned_ucast_eq take_bit_int_eq_self)
  moreover have "- 32768 \<le> uint w" using uint_ge_0 [of w] by linarith
  ultimately have "i16 w = uint w" using u by (simp add: i16_def sint_uint signed_take_bit_int_eq_self)
  with u show ?thesis by simp
qed

lemma serviced_adcs:
  assumes "env_ok e" and "app_inv s" shows "serviced s (readAndTriggerADCs (dev e) (inp e) s)"
proof (cases "dev e ADC_ARDY39 (clock s)")
  case False
  then show ?thesis using serviced_tick [OF assms(2), of 1] by (simp add: readAndTriggerADCs_def poll_flag_def)
next
  case True
  let ?z = "inp e ADCDATA38 (clock s + 3)" and ?z' = "inp e ADCDATA39 (clock s + 4)"
  let ?a = "processADCZs ((adcs s)\<lparr>CV := i16 (inp e ADCDATA27 (clock s + 1)), Gate := i16 (inp e ADCDATA28 (clock s + 2)),
      rawZ := [i16 ?z, i16 ?z']\<rparr>)"
  have eq: "readAndTriggerADCs (dev e) (inp e) s = (wr ADCCON3_GSWTRG 1 (tick 5 s))\<lparr>adcs := ?a\<rparr>"
    using True by (simp add: readAndTriggerADCs_def poll_flag_def Let_def eval_nat_numeral tick_def)
  have raw: "0 \<le> i16 ?z \<and> i16 ?z < 4096" "0 \<le> i16 ?z' \<and> i16 ?z' < 4096"
    using assms(1) by (auto simp: env_ok_def intro!: i16_small)
  obtain c d where z: "Z (adcs s) = [c, d]" "pot_ok c" "pot_ok d"
    using assms(2) by (auto simp: app_inv_def numeral_2_eq_2 length_Suc_conv)
  have "Z ?a = [process_Z (i16 ?z) c, process_Z (i16 ?z') d]" by (simp add: processADCZs_def z(1))
  with z raw have a: "length (Z ?a) = 2 \<and> (\<forall>ch\<in>set (Z ?a). pot_ok ch)"
    by (simp add: pot_ok_process)
  have "serviced s (s\<lparr>clock := t, trace := trace s @ [Wr ADCCON3_GSWTRG 1], adcs := ad\<rparr>)"
    if "length (Z ad) = 2 \<and> (\<forall>ch\<in>set (Z ad). pot_ok ch)" "clock s \<le> t" for ad t
    using assms(2) that
    by (simp add: serviced_defs app_inv_def audio_blocks_def kept_defs marked_def drawing_def quiet_def)
  from this [OF a, of "clock s + 5"] show ?thesis
    unfolding eq by (simp add: wr_def emit_def tick_def)
qed

text \<open>The audio steps.\<close>

lemma serviced_step:
  assumes "env_ok e" and "app_inv s" and "ping = 0 \<or> ping = 16"
  shows "\<exists>s'. algorithm_step (peaks e) (fpu e) (inp e) ping s = Some s' \<and> serviced s s' \<and> time s' = time s \<and>
     doServiceAudio s' = doServiceAudio s \<and> slowTimeCountdown s' = slowTimeCountdown s \<and> blocks_in s' = blocks_in s"
proof -
  have b: "counter_runs (inp e)" "audio_blocks s" using assms(1,2) by (simp_all add: env_ok_def app_inv_def)
  obtain s' c x a outs where s': "algorithm_step (peaks e) (fpu e) (inp e) ping s = Some s'"
      "s' = s\<lparr>clock := c, pageBuffer := (pageBuffer s)[0 := x], algorithmData := a, blocks_out := outs\<rparr>"
      "clock s < c" "audio_blocks s'"
      "alg_inv (algorithmData s) \<longrightarrow> alg_inv a \<and> settings_function a = settings_function (algorithmData s) \<and>
        edit_mode a = edit_mode (algorithmData s) \<and> writeToFlash a = writeToFlash (algorithmData s)"
    using algorithm_step_effect [OF b assms(3), of "peaks e" "fpu e"] by (elim exE conjE) (rule that)
  have "alg_inv (algorithmData s)" using assms(2) by (simp add: app_inv_def)
  then have "serviced s s'"
    using s'(3-5) assms(2)
    by (simp add: s'(2) serviced_defs app_inv_def kept_defs drawing_def marked_def settings_of_def)
  with s'(1) show ?thesis by (simp add: s'(2))
qed

text \<open>What the blocks of a service have in common with it: the sample clock moves on by \<open>n\<close> frames.\<close>

definition served :: "nat \<Rightarrow> ('f, 'a) app_scheme \<Rightarrow> ('f, 'a) app_scheme \<Rightarrow> bool" where
  "served n s s' \<longleftrightarrow> serviced s s' \<and> time s' = time s + of_nat n \<and> doServiceAudio s' = doServiceAudio s \<and>
     slowTimeCountdown s' = slowTimeCountdown s"

lemma served_trans: "served m s s' \<Longrightarrow> served n s' s'' \<Longrightarrow> served (m + n) s s''"
  by (auto simp: served_def intro: serviced_trans)

lemma served_then: "served n s s' \<Longrightarrow> served 0 s' s'' \<Longrightarrow> served n s s''"
  using served_trans [of n s s' 0 s''] by simp

lemma served_inv: "served n s s' \<Longrightarrow> app_inv s'"
  by (simp add: served_def serviced_defs)

lemma served_wr: "app_inv s \<Longrightarrow> quiet (Wr r v) \<Longrightarrow> served 0 s (wr r v s)"
  by (simp add: served_def serviced_wr) (simp add: wr_def emit_def)

lemma served_half:
  assumes "env_ok e" and "app_inv s" and "ping = 0 \<or> ping = 16"
  shows "\<exists>s'. service_half e ping s = Some s' \<and> served 8 s s'"
proof -
  let ?s1 = "s\<lparr>time := time s + word_of_int k_framesPerBlock\<rparr>" and ?s2 = "wr PORTBSET (BIT 4) (s\<lparr>time := time s + word_of_int k_framesPerBlock\<rparr>)"
  have s1: "served 8 s ?s1"
    using serviced_state(1) [OF assms(2)] by (simp add: served_def k_framesPerBlock_def)
  have s2: "served 8 s ?s2"
    using served_trans [OF s1 served_wr [OF served_inv [OF s1]], of PORTBSET "BIT 4"] by (simp add: quiet_def)
  obtain s3 where s3: "algorithm_step (peaks e) (fpu e) (inp e) ping ?s2 = Some s3" "served 0 ?s2 s3"
    using serviced_step [OF assms(1) served_inv [OF s2] assms(3)] by (auto simp: served_def)
  let ?s4 = "wr PORTBCLR (BIT 4) s3"
  have s4: "served 0 s3 ?s4"
    using served_wr [OF served_inv [OF s3(2)], of PORTBCLR "BIT 4"] by (simp add: quiet_def)
  have r: "responsive (dev e)" "rx_inv ?s4"
    using assms(1) served_inv [OF s4] by (simp_all add: env_ok_def app_inv_def)
  obtain s5 where s5: "FlushMIDIRx (dev e) DefaultMIDIMessageHandler ?s4 = Some s5" "rx_inv s5" "proceeds ?s4 s5"
      "rx_frame s5 = rx_frame ?s4"
    using default_rx.FlushMIDIRx_returns [OF r] by blast
  have "served 0 ?s4 s5"
    using rx_serviced [OF served_inv [OF s4] s5(2-4)] by (simp add: served_def)
  with s2 s3(2) s4 have "served 8 s s5" by (blast intro: served_then)
  with s3(1) s5(1) show ?thesis by (simp add: service_half_def Let_def)
qed

lemma served_blocks:
  assumes "env_ok e" and "app_inv s"
  shows "\<exists>s'. service_blocks e s = Some s' \<and> served (if doServiceAudio s then 16 else 0) s s'"
proof (cases "doServiceAudio s")
  case False
  with serviced_refl [OF assms(2)] show ?thesis by (simp add: service_blocks_def served_def)
next
  case True
  have ping: "nat (k_framesPerBlock * 2) = 16" by (simp add: k_framesPerBlock_def)
  obtain s1 where s1: "service_half e 16 s = Some s1" "served 8 s s1"
    using served_half [OF assms] by blast
  let ?s2 = "wr DCH5INTCLR (BIT 4 OR BIT 5) s1"
  have s2: "served 0 s1 ?s2"
    using served_wr [OF served_inv [OF s1(2)], of DCH5INTCLR] by (simp add: quiet_def)
  obtain s3 where s3: "wait_until (dev e) DCH5_HALF_DONE ?s2 = Some s3" "later ?s2 s3"
    using wait_until_returns [of "dev e" DCH5_HALF_DONE ?s2] assms(1) by (auto simp: env_ok_def)
  have "served 0 ?s2 s3"
    using serviced_later [OF served_inv [OF s2] s3(2)] s3(2) by (auto simp: served_def later_def)
  then have s3': "served 8 s s3" using s1(2) s2 by (blast intro: served_then)
  obtain s4 where s4: "service_half e 0 s3 = Some s4" "served 8 s3 s4"
    using served_half [OF assms(1) served_inv [OF s3']] by blast
  then have "served 16 s s4" using served_trans [OF s3' s4(2)] by simp
  with True s1(1) s3(1) s4(1) show ?thesis by (simp add: service_blocks_def ping)
qed

text \<open>The LEDs, the MIDI output and the controls.\<close>

lemma served_leds: "app_inv s \<Longrightarrow> served 0 s (update_leds s)"
  unfolding update_leds_def Let_def
  by (rule served_then [OF served_wr served_wr [OF served_inv [OF served_wr]]]) (simp_all add: quiet_def)

lemma served_midi:
  assumes "app_inv s" shows "served 0 s (if midiOutPending s then snd (HandleMIDIOut dv s) else s)"
proof -
  have "kept s (snd (HandleMIDIOut dv s))" using assms by (intro HandleMIDIOut_kept) (simp add: app_inv_def)
  then have "served 0 s (snd (HandleMIDIOut dv s))"
    using rx_serviced [OF assms] by (simp add: served_def kept_def)
  with serviced_refl [OF assms] show ?thesis by (simp add: served_def)
qed

lemma marked_trans: "marked a b \<Longrightarrow> marked b c \<Longrightarrow> marked a c"
  by (auto simp: marked_def)

lemma marked_buttons:
  "marked a (left_button pk sw a)"
  "right_button pk sw a = Some a' \<Longrightarrow> marked a a'"
proof -
  show "marked a (left_button pk sw a)"
    by (simp add: left_button_def left_edge_def left_hold_def marked_def settings_of_def Let_def)
  have sel: "marked b c" if "select_function pk f b = Some c" for f b c
    using that by (auto simp: select_function_def marked_def)
  show "marked a a'" if "right_button pk sw a = Some a'"
    using that unfolding right_button_def Let_def
    by (auto split: if_split_asm bind_split_asm dest!: sel simp: marked_def settings_of_def)
qed

lemma marked_knobs: "marked a (encoder pk i enc a)" "marked a (move_pot pk i pot a)"
  by (simp_all add: encoder_def move_pot_def set_param_def pcall_def marked_def settings_of_def Let_def)

lemma marked_user_interface: "user_interface pk sw enc z a = Some a' \<Longrightarrow> marked a a'"
  unfolding user_interface_def Let_def
  by (auto simp: bind_eq_Some_conv)
    (blast intro: marked_trans [OF marked_trans [OF marked_buttons(1) marked_buttons(2)]]
      marked_trans [OF marked_knobs(1)] marked_trans [OF marked_knobs(2)] marked_knobs(2))

lemma pot_ok_value: "pot_ok ch \<Longrightarrow> 0 \<le> adc_value ch \<and> adc_value ch < 32768"
proof -
  assume p: "pot_ok ch"
  have "0 \<le> sum_list xs \<and> sum_list xs \<le> 4095 * int (length xs)" if "\<forall>x\<in>set xs. 0 \<le> x \<and> x < (4096 :: int)" for xs
    using that by (induction xs) auto
  from this [of "adc_samples ch"] p show ?thesis by (simp add: pot_ok_def channel_inv_def)
qed

lemma serviced_UI:
  assumes "env_ok e" and "app_inv s"
  shows "\<exists>s'. algorithm_UI (peaks e) enc s = Some s' \<and> served 0 s s'"
proof -
  let ?z = "[adc_value (Z (adcs s) ! 0), adc_value (Z (adcs s) ! 1)]"
  have "pot_ok (Z (adcs s) ! 0)" "pot_ok (Z (adcs s) ! 1)" using assms(2) by (simp_all add: app_inv_def)
  then have "0 \<le> ?z ! 0" "?z ! 0 < 32768" "0 \<le> ?z ! 1" "?z ! 1 < 32768" by (simp_all add: pot_ok_value)
  moreover have "peaks_enums (peaks e)" "alg_inv (algorithmData s)"
    using assms by (simp_all add: env_ok_def app_inv_def)
  ultimately obtain a where a: "user_interface (peaks e) (encSW (halfState s ! 0) \<noteq> 0, encSW (halfState s ! 1) \<noteq> 0) enc ?z
      (algorithmData s) = Some a" "alg_inv a"
    using user_interface_inv by blast
  then have "served 0 s (s\<lparr>algorithmData := a\<rparr>)"
    using assms(2) marked_user_interface [OF a(1)]
    by (simp add: served_def serviced_defs app_inv_def audio_blocks_def kept_defs drawing_def)
  with a(1) show ?thesis by (simp add: algorithm_UI_def)
qed

lemma update_controls_serviced:
  assumes "app_inv s" and "update_controls ph pb s = (enc, s')"
  shows "served 0 s s'"
proof -
  have upd: "served 0 s (s\<lparr>halfState := [h0, h1]\<rparr>)" "served 0 s (s\<lparr>halfState := [h0, h1], displayBlankCountdown := n\<rparr>)" for h0 h1 n
    using assms(1) by (simp_all add: served_def serviced_defs app_inv_def audio_blocks_def kept_defs drawing_def marked_def)
  with assms(2) show ?thesis by (auto simp: update_controls_def Let_def split: prod.splits if_split_asm)
qed

text \<open>
  The countdown of the controls: \<open>countdown_after\<close> is its value after a service, and the controls are read
  exactly when it is reloaded.
\<close>

definition countdown_after :: "int \<Rightarrow> int" where
  "countdown_after n = (if n \<le> 16 then 160 else n - 16)"

lemma controls_served:
  assumes "env_ok e" and "app_inv s"
  shows "\<exists>s'. poll_controls e s = Some s' \<and> serviced s s' \<and> time s' = time s \<and> doServiceAudio s' = doServiceAudio s \<and>
    slowTimeCountdown s' = countdown_after (slowTimeCountdown s)"
proof -
  have k: "k_framesPerBlock = 8" "kSlowTimeRatio = 160"
    by (simp_all add: k_framesPerBlock_def kSlowTimeRatio_def SAMPLE_RATE_def SLOW_RATE_def)
  show ?thesis
  proof (cases "slowTimeCountdown s \<le> 16")
    case False
    then show ?thesis
      using serviced_state(2) [OF assms(2)] by (simp add: poll_controls_def k countdown_after_def)
  next
    case True
    let ?s1 = "s\<lparr>slowTimeCountdown := 160\<rparr>" and ?s2 = "tick 2 (s\<lparr>slowTimeCountdown := 160\<rparr>)"
    obtain enc s3 where u: "update_controls (inp e PORTH_in (clock s)) (inp e PORTB_in (clock s + 1)) ?s2 = (enc, s3)"
      by fastforce
    have s1: "serviced s ?s1" using serviced_state(2) [OF assms(2)] .
    have s2: "serviced s ?s2" by (rule serviced_trans [OF s1 serviced_tick [OF servicedD [OF s1]]])
    have s3: "served 0 ?s2 s3" by (rule update_controls_serviced [OF servicedD [OF s2] u])
    obtain s4 where s4: "algorithm_UI (peaks e) enc s3 = Some s4" "served 0 s3 s4"
      using serviced_UI [OF assms(1) served_inv [OF s3]] by blast
    have "poll_controls e s = Some s4"
      using True u s4(1) by (simp add: poll_controls_def k Let_def)
    then show ?thesis
      using serviced_trans [OF s2, of s4] served_then [OF s3 s4(2)] True
      by (auto simp: served_def countdown_after_def tick_def)
  qed
qed

lemma internal_serviced:
  assumes "env_ok e" and "app_inv s"
  shows "\<exists>s'. serviceAudioInternalSingle e s = Some s' \<and> serviced s s' \<and> doServiceAudio s' = doServiceAudio s \<and>
     time s' = time s + (if doServiceAudio s then 16 else 0) \<and>
     slowTimeCountdown s' = countdown_after (slowTimeCountdown s)"
proof -
  let ?s1 = "wr PORTJINV (BIT 11) s"
  let ?s2 = "readAndTriggerADCs (dev e) (inp e) ?s1"
  let ?s3 = "wr PORTJINV (BIT 11) ?s2"
  have s1: "served 0 s ?s1" using served_wr [OF assms(2)] by (simp add: quiet_def)
  have s2: "served 0 ?s1 ?s2"
    using serviced_adcs [OF assms(1) served_inv [OF s1]]
    by (simp add: served_def readAndTriggerADCs_def poll_flag_def Let_def wr_def emit_def tick_def)
  have s3: "served 0 ?s2 ?s3" using served_wr [OF served_inv [OF s2]] by (simp add: quiet_def)
  then have s3': "served 0 s ?s3" using s1 s2 by (blast intro: served_then)
  then have do: "doServiceAudio ?s3 = doServiceAudio s" by (simp add: served_def)
  obtain s4 where s4: "service_blocks e ?s3 = Some s4" "served (if doServiceAudio s then 16 else 0) ?s3 s4"
    using served_blocks [OF assms(1) served_inv [OF s3]] unfolding do by blast
  let ?s5 = "update_leds s4"
  have s5: "served 0 s4 ?s5" by (rule served_leds [OF served_inv [OF s4(2)]])
  let ?s6 = "if midiOutPending ?s5 then snd (HandleMIDIOut (dev e) ?s5) else ?s5"
  have s6: "served 0 ?s5 ?s6" by (rule served_midi [OF served_inv [OF s5]])
  have all: "served (if doServiceAudio s then 16 else 0) s ?s6"
    using served_then [OF served_then [OF served_trans [OF s3' s4(2)] s5] s6] by (simp only: add_0)
  obtain s7 where s7: "poll_controls e ?s6 = Some s7" "serviced ?s6 s7" "time s7 = time ?s6"
      "doServiceAudio s7 = doServiceAudio ?s6" "slowTimeCountdown s7 = countdown_after (slowTimeCountdown ?s6)"
    using controls_served [OF assms(1) served_inv [OF s6]] by blast
  have "serviceAudioInternalSingle e s = Some s7"
    using s4(1) s7(1) by (simp add: serviceAudioInternalSingle_def Let_def)
  with all s7(2-5) show ?thesis
    by (intro exI [of _ s7]) (auto simp: served_def intro: serviced_trans)
qed

section \<open>The service between interrupts\<close>

lemma internal_check_serviced:
  assumes "env_ok e" and "app_inv s"
  shows "\<exists>s'. CheckServiceAudioInternal e s = Some s' \<and> serviced s s'"
proof -
  let ?s1 = "tick 1 s" and ?s2 = "wr DCH5INTCLR (BIT 3 OR BIT 4 OR BIT 5) (tick 1 s)"
  have s1: "serviced s ?s1" by (rule serviced_tick [OF assms(2)])
  have s2: "serviced s ?s2"
    by (rule serviced_trans [OF s1 serviced_wr [OF servicedD [OF s1]]]) (simp add: quiet_def)
  obtain s3 where "serviceAudioInternalSingle e ?s2 = Some s3" "serviced ?s2 s3"
    using internal_serviced [OF assms(1) servicedD [OF s2]] by blast
  with s1 serviced_trans [OF s2] show ?thesis
    by (auto simp: CheckServiceAudioInternal_def when_pending_def poll_flag_def)
qed

lemma undamaged_trans: "undamaged s s' \<Longrightarrow> undamaged s' s'' \<Longrightarrow> undamaged s s''"
  by (simp add: undamaged_def)

lemma flash_op_serviced:
  assumes "env_ok e" and "finishes (dev e)" and "app_inv s"
  shows "\<exists>x s'. NVMOpWithAudioService (dev e) (irq_on e) (CheckServiceAudioInternal e) nvmop s = Some (x, s') \<and>
     undamaged s s' \<and> marked (algorithmData s) (algorithmData s') \<and> does_op nvmop (irq_on e) s s'"
proof -
  have r: "responsive (dev e)" using assms(1) by (simp add: env_ok_def)
  let ?I = "\<lambda>r. undamaged s r \<and> marked (algorithmData s) (algorithmData r)"
  have "\<exists>x s'. NVMOpWithAudioService (dev e) (irq_on e) (CheckServiceAudioInternal e) nvmop s = Some (x, s') \<and>
     ?I s' \<and> does_op nvmop (irq_on e) s s'"
  proof (rule NVMOp_returns [OF r assms(2)])
    show "?I (s\<lparr>clock := t, trace := trace s @ es\<rparr>)" for es t
      using assms(3) by (simp add: undamaged_def app_inv_def audio_blocks_def kept_defs drawing_def marked_def)
    show "\<exists>r'. CheckServiceAudioInternal e r = Some r' \<and> ?I r' \<and> proceeds r r'" if "?I r" for r
      using internal_check_serviced [OF assms(1), of r] that marked_trans undamaged_trans
      by (auto simp: serviced_def undamaged_def)
    show "?I (tick 1 r)" if "?I r" for r
      using that serviced_tick [of r 1] by (auto simp: serviced_defs intro: marked_trans)
    show "?I (wr NVMCONCLR v r)" if "?I r" for r v
      using that by (simp add: undamaged_def app_inv_def audio_blocks_def kept_defs drawing_def marked_def wr_def emit_def)
  qed
  then show ?thesis by blast
qed

lemma idle_effect:
  assumes "env_ok e" and "finishes (dev e)" and "app_inv s" and "writeToFlash (algorithmData s)"
  defines "svc \<equiv> CheckServiceAudioInternal e"
  shows "\<exists>s1 s'. erase_settings (dev e) (irq_on e) svc (s\<lparr>algorithmData := (algorithmData s)\<lparr>writeToFlash := False\<rparr>\<rparr>) = Some s1 \<and>
     write_settings (dev e) (irq_on e) svc (buffer_addr e) (prepare_settings s1) = Some s' \<and>
     undamaged s s1 \<and> undamaged s s' \<and> marked (algorithmData s1) (algorithmData s') \<and>
     (\<forall>v0. let v = nvm_run (trace s) v0; v' = nvm_run (trace s') v0
       in ops v' = ops v @ [(0x4004, 0x1D100000, word0 v, src v),
                            (0x4003, 0x1D100000, word0 v, buffer_addr e AND 0x1FFFFFFF)] \<and> masked v' = (\<not> irq_on e))"
proof -
  have addr: "PEAKS_NVM_BASE AND 0x1FFFFFFF = 0x1D100000" by (simp add: PEAKS_NVM_BASE_def)
  let ?a = "s\<lparr>algorithmData := (algorithmData s)\<lparr>writeToFlash := False\<rparr>\<rparr>"
  let ?b = "wr NVMADDR 0x1D100000 ?a"
  have b: "undamaged s ?b"
    using assms(3) by (simp add: undamaged_def app_inv_def audio_blocks_def kept_defs drawing_def wr_def emit_def inv_intros)
  then obtain x s1 where s1: "NVMOpWithAudioService (dev e) (irq_on e) svc 0x4004 ?b = Some (x, s1)" "undamaged ?b s1"
      "does_op 0x4004 (irq_on e) ?b s1"
    unfolding svc_def using flash_op_serviced [OF assms(1,2), of ?b "0x4004"] by (auto simp: undamaged_def)
  have s1': "undamaged s s1" by (rule undamaged_trans [OF b s1(2)])
  let ?c = "prepare_settings s1"
  let ?d = "wr NVMADDR 0x1D100000 (wr NVMSRCADDR (buffer_addr e AND 0x1FFFFFFF) ?c)"
  have d: "undamaged s1 ?d" "algorithmData ?d = algorithmData s1"
    using s1(2) by (simp_all add: undamaged_def app_inv_def audio_blocks_def kept_defs drawing_def wr_def emit_def prepare_settings_def)
  then obtain y s' where s': "NVMOpWithAudioService (dev e) (irq_on e) svc 0x4003 ?d = Some (y, s')" "undamaged ?d s'"
      "marked (algorithmData s1) (algorithmData s')" "does_op 0x4003 (irq_on e) ?d s'"
    unfolding svc_def using flash_op_serviced [OF assms(1,2), of ?d "0x4003"] by (auto simp: undamaged_def)
  have "erase_settings (dev e) (irq_on e) svc ?a = Some s1" using s1(1) by (simp add: erase_settings_def addr)
  moreover have "write_settings (dev e) (irq_on e) svc (buffer_addr e) ?c = Some s'"
    using s'(1) by (simp add: write_settings_def addr)
  moreover have "undamaged s s'" by (rule undamaged_trans [OF undamaged_trans [OF s1' d(1)] s'(2)])
  moreover have "trace ?c = trace s1" "trace ?a = trace s" by (simp_all add: prepare_settings_def)
  then have "let v = nvm_run (trace s) v0; v' = nvm_run (trace s') v0
       in ops v' = ops v @ [(0x4004, 0x1D100000, word0 v, src v),
                            (0x4003, 0x1D100000, word0 v, buffer_addr e AND 0x1FFFFFFF)] \<and> masked v' = (\<not> irq_on e)" for v0
    using s1(3) s'(4) by (simp add: does_op_def Let_def nvm_event_def)
  ultimately show ?thesis using s1' s'(3) by blast
qed

lemma idle_undamaged:
  assumes "env_ok e" and "finishes (dev e)" and "app_inv s"
  shows "\<exists>s'. algorithm_idle (dev e) (irq_on e) (CheckServiceAudioInternal e) (buffer_addr e) s = Some s' \<and> undamaged s s'"
proof (cases "writeToFlash (algorithmData s)")
  case True
  from idle_effect [OF assms True] True show ?thesis by (auto simp: algorithm_idle_def)
next
  case False
  with assms(3) show ?thesis by (simp add: algorithm_idle_def undamaged_def)
qed

lemma single_undamaged:
  assumes "env_ok e" and "finishes (dev e)" and "app_inv s"
  shows "\<exists>s'. serviceAudioSingle e s = Some s' \<and> undamaged s s'"
proof -
  obtain s1 where s1: "serviceAudioInternalSingle e s = Some s1" "serviced s s1"
    using internal_serviced [OF assms(1,3)] by blast
  obtain s2 where s2: "algorithm_idle (dev e) (irq_on e) (CheckServiceAudioInternal e) (buffer_addr e) s1 = Some s2" "undamaged s1 s2"
    using idle_undamaged [OF assms(1,2) servicedD [OF s1(2)]] by blast
  from s1(2) have "undamaged s s1" by (simp add: serviced_def)
  with s1(1) s2 undamaged_trans show ?thesis by (auto simp: serviceAudioSingle_def)
qed

lemma check_undamaged:
  assumes "env_ok e" and "finishes (dev e)" and "app_inv s"
  shows "\<exists>s'. CheckServiceAudio e s = Some s' \<and> undamaged s s'"
proof -
  let ?s2 = "wr DCH5INTCLR (BIT 3 OR BIT 4 OR BIT 5) (tick 1 s)"
  have s1: "serviced s (tick 1 s)" by (rule serviced_tick [OF assms(3)])
  then have s2: "serviced s ?s2"
    by (rule serviced_trans [OF _ serviced_wr [OF servicedD [OF s1]]]) (simp add: quiet_def)
  obtain s3 where "serviceAudioSingle e ?s2 = Some s3" "undamaged ?s2 s3"
    using single_undamaged [OF assms(1,2) servicedD [OF s2]] by blast
  with s1 s2 undamaged_trans show ?thesis
    by (auto simp: CheckServiceAudio_def when_pending_def poll_flag_def serviced_def)
qed

lemma app_inv_set_screen [simp]: "app_inv (set_screen r xs s) = app_inv s"
  by (cases r) (simp_all add: set_screen_def app_inv_def audio_blocks_def kept_defs)

text \<open>Both checks keep the contract that drawing relies on.\<close>

interpretation internal: audio_frame "\<lambda>s. env_ok e \<and> app_inv s" "CheckServiceAudioInternal e" for e
proof unfold_locales
  fix s :: "('a, 'b) app_scheme"
  assume "env_ok e \<and> app_inv s"
  then show "\<exists>s'. CheckServiceAudioInternal e s = Some s' \<and> (env_ok e \<and> app_inv s') \<and> drawing s' = drawing s"
    using internal_check_serviced [of e s] by (auto simp: serviced_defs)
qed simp

interpretation checked: audio_frame "\<lambda>s. env_ok e \<and> finishes (dev e) \<and> app_inv s" "CheckServiceAudio e" for e
proof unfold_locales
  fix s :: "('a, 'b) app_scheme"
  assume "env_ok e \<and> finishes (dev e) \<and> app_inv s"
  then show "\<exists>s'. CheckServiceAudio e s = Some s' \<and> (env_ok e \<and> finishes (dev e) \<and> app_inv s') \<and> drawing s' = drawing s"
    using check_undamaged [of e s] by (auto simp: undamaged_def)
qed simp

section \<open>The properties of the service\<close>

text \<open>A board on which everything is ready, and the state of \<open>demo_app\<close>.\<close>

definition demo_env :: "int env" where
  "demo_env = \<lparr>dev = ready_device, inp = demo_input, peaks = demo_peaks, fpu = demo_fl, irq_on = True,
     buffer_addr = 0x80001000\<rparr>"

lemma demo_env_simps [simp]:
  "dev demo_env = ready_device" "inp demo_env = demo_input" "peaks demo_env = demo_peaks" "fpu demo_env = demo_fl"
  "irq_on demo_env" "buffer_addr demo_env = 0x80001000"
  by (simp_all add: demo_env_def)

lemma demo_env_ok: "env_ok demo_env" "finishes (dev demo_env)"
  by (simp_all add: env_ok_def responsive_ready_device demo_counter_runs demo_input_def finishes_def ready_device_def
      demo_peaks_def peaks_enums_def)

lemma demo_app_inv: "app_inv demo_app"
proof -
  have "rx_inv demo_app"
    using demo_receive_inv by (simp add: demo_app_def receive.defs kept_defs)
  moreover have "pot_ok zero_channel"
    using zero_channel_inv by (simp add: pot_ok_def) (simp add: zero_channel_def)
  moreover have "length (halfState demo_app) = 2"
    by (simp add: demo_app_def receive.defs demo_receive_def i2c.defs demo_i2c_def recall.defs demo_recall_def
        midi_in.defs demo_in_def midi_out.defs demo_midi_def display.defs demo_display_def)
  ultimately show ?thesis using demo_blocks by (simp add: app_inv_def)
qed

text \<open>
  C28: the audio service always completes: from every well-formed state, on a board whose peripherals respond, it returns,
  in a well-formed state. It advances the sample clock by
  sixteen frames when audio is running, leaves the drawing state and the flash controller alone, and marks
  every change of the settings for saving.
\<close>

theorem audio_service_total:
  assumes "env_ok e" and "app_inv s"
  shows "\<exists>s'. serviceAudioInternalSingle e s = Some s' \<and> app_inv s' \<and> drawing s' = drawing s \<and>
     time s' = time s + (if doServiceAudio s then 16 else 0) \<and> proceeds s s' \<and>
     (settings_of (algorithmData s') = settings_of (algorithmData s) \<or> writeToFlash (algorithmData s'))"
  using internal_serviced [OF assms] by (auto simp: serviced_defs marked_def)

lemma audio_service_total_witness:
  "\<exists>s'. serviceAudioInternalSingle demo_env demo_app = Some s' \<and> time s' = time demo_app + 16"
  using audio_service_total [OF demo_env_ok(1) demo_app_inv] by auto

text \<open>
  the controls are read at the slow rate: after \<open>n\<close> services from the initial countdown, with audio running, the sample clock has
  advanced by \<open>16 * n\<close> frames and the countdown stands at \<open>160 - 16 * (n mod 10)\<close>: it has been reloaded, and the
  controls read, in every tenth service and in no other, once in \<open>SAMPLE_RATE div SLOW_RATE\<close> frames.
\<close>

theorem controls_at_slow_rate:
  assumes "env_ok e" and "app_inv s" and "slowTimeCountdown s = kSlowTimeRatio" and "doServiceAudio s"
  shows "\<exists>s'. fold_opt (\<lambda>_. serviceAudioInternalSingle e) [0..<n] s = Some s' \<and> app_inv s' \<and>
     time s' = time s + of_nat (16 * n) \<and> slowTimeCountdown s' = kSlowTimeRatio - 16 * int (n mod 10)"
proof -
  have k: "kSlowTimeRatio = 160" by (simp add: kSlowTimeRatio_def SAMPLE_RATE_def SLOW_RATE_def)
  have "\<exists>s'. fold_opt (\<lambda>_. serviceAudioInternalSingle e) [0..<n] s = Some s' \<and> app_inv s' \<and> doServiceAudio s' \<and>
     time s' = time s + of_nat (16 * n) \<and> slowTimeCountdown s' = 160 - 16 * int (n mod 10)"
  proof (induction n)
    case 0
    then show ?case using assms by (simp add: k)
  next
    case (Suc n)
    then obtain s1 where s1: "fold_opt (\<lambda>_. serviceAudioInternalSingle e) [0..<n] s = Some s1" "app_inv s1" "doServiceAudio s1"
       "time s1 = time s + of_nat (16 * n)" "slowTimeCountdown s1 = 160 - 16 * int (n mod 10)" by blast
    obtain s2 where s2: "serviceAudioInternalSingle e s1 = Some s2" "serviced s1 s2" "doServiceAudio s2"
       "time s2 = time s1 + 16" "slowTimeCountdown s2 = countdown_after (slowTimeCountdown s1)"
      using internal_serviced [OF assms(1) s1(2)] s1(3) by auto
    have "n mod 10 < 10" by simp
    then have "countdown_after (160 - 16 * int (n mod 10)) = 160 - 16 * int (Suc n mod 10)"
      by (auto simp: countdown_after_def mod_Suc)
    then show ?case
      using s1 s2 servicedD [OF s2(2)] by (auto simp: fold_opt_append)
  qed
  then show ?thesis by (auto simp: k)
qed

lemma controls_at_slow_rate_witness:
  "\<exists>s'. fold_opt (\<lambda>_. serviceAudioInternalSingle demo_env) [0..<23] demo_app = Some s' \<and> slowTimeCountdown s' = 112"
proof -
  have k: "kSlowTimeRatio = 160" by (simp add: kSlowTimeRatio_def SAMPLE_RATE_def SLOW_RATE_def)
  with controls_at_slow_rate [OF demo_env_ok(1) demo_app_inv, of 23] show ?thesis by (auto simp del: upt_Suc)
qed

text \<open>
  C30: saving the settings: when they are marked, \<open>algorithm_idle\<close> has the flash controller erase the settings page and then program
  the row from the page buffer, in which the settings stand at that moment; audio is serviced all the while and
  the interrupts are as before. A change of the settings during the programming is not lost: they are marked
  again, so that the next service saves them.
\<close>

theorem settings_saved:
  assumes "env_ok e" and "finishes (dev e)" and "app_inv s" and "writeToFlash (algorithmData s)"
  shows "\<exists>s1 s'. algorithm_idle (dev e) (irq_on e) (CheckServiceAudioInternal e) (buffer_addr e) s = Some s' \<and> app_inv s' \<and>
     write_settings (dev e) (irq_on e) (CheckServiceAudioInternal e) (buffer_addr e) (prepare_settings s1) = Some s' \<and>
     (\<forall>k<4. get_word (pageBuffer (prepare_settings s1)) k = settings_words (algorithmData s1) ! k) \<and>
     (settings_of (algorithmData s') = settings_of (algorithmData s1) \<or> writeToFlash (algorithmData s')) \<and>
     (\<forall>v0. let v = nvm_run (trace s) v0; v' = nvm_run (trace s') v0
       in ops v' = ops v @ [(0x4004, 0x1D100000, word0 v, src v),
                            (0x4003, 0x1D100000, word0 v, buffer_addr e AND 0x1FFFFFFF)] \<and> masked v' = (\<not> irq_on e))"
proof -
  obtain s1 s' where r: "erase_settings (dev e) (irq_on e) (CheckServiceAudioInternal e)
        (s\<lparr>algorithmData := (algorithmData s)\<lparr>writeToFlash := False\<rparr>\<rparr>) = Some s1"
      "write_settings (dev e) (irq_on e) (CheckServiceAudioInternal e) (buffer_addr e) (prepare_settings s1) = Some s'"
      "undamaged s s'" "marked (algorithmData s1) (algorithmData s')" and
    ops: "\<forall>v0. let v = nvm_run (trace s) v0; v' = nvm_run (trace s') v0
       in ops v' = ops v @ [(0x4004, 0x1D100000, word0 v, src v),
                            (0x4003, 0x1D100000, word0 v, buffer_addr e AND 0x1FFFFFFF)] \<and> masked v' = (\<not> irq_on e)"
    using idle_effect [OF assms] by blast
  have "get_word (pageBuffer (prepare_settings s1)) k = settings_words (algorithmData s1) ! k" if "k < 4" for k
    using that by (simp add: prepare_settings_def get_put_word settings_words_def [of "algorithmData s1"])
  with r ops assms(4) show ?thesis
    by (intro exI [of _ s1] exI [of _ s']) (simp add: algorithm_idle_def undamaged_def marked_def del: Let_def)
qed

lemma settings_saved_witness:
  "\<exists>s'. algorithm_idle ready_device True (CheckServiceAudioInternal demo_env) 0x80001000
       (demo_app\<lparr>algorithmData := demo_alg\<lparr>writeToFlash := True\<rparr>\<rparr>) = Some s' \<and>
     ops (nvm_run (trace s') demo_view) = [(0x4004, 0x1D100000, 0, 0), (0x4003, 0x1D100000, 0, 0x1000)]"
proof -
  let ?s = "demo_app\<lparr>algorithmData := demo_alg\<lparr>writeToFlash := True\<rparr>\<rparr>"
  have "app_inv ?s"
    using demo_app_inv by (simp add: app_inv_def audio_blocks_def kept_defs inv_intros)
  moreover have "writeToFlash (algorithmData ?s)" by simp
  ultimately obtain s' where s': "algorithm_idle ready_device True (CheckServiceAudioInternal demo_env) 0x80001000 ?s = Some s'"
    "let v = nvm_run (trace ?s) demo_view; v' = nvm_run (trace s') demo_view
       in ops v' = ops v @ [(0x4004, 0x1D100000, word0 v, src v),
                            (0x4003, 0x1D100000, word0 v, 0x80001000 AND 0x1FFFFFFF)] \<and> masked v' = (\<not> True)"
    using settings_saved [OF demo_env_ok, of ?s] by (metis demo_env_simps(1,5,6))
  then show ?thesis by (intro exI [of _ s']) (simp add: Let_def demo_view_def)
qed

end
