(* ===== verification/Main_Loop.thy ===== *)
theory Main_Loop
  imports Audio_Service
begin

text \<open>
  The display loop at work: drawing the settings page, refreshing the display and the loop itself, with the
  audio service running in between as \<open>CHECK_SERVICE_AUDIO\<close> lets it.
\<close>

section \<open>The text of a parameter\<close>

definition digit_value :: "u8 \<Rightarrow> nat" where
  "digit_value c = (if c < 0x3A then unat (c - 0x30) else unat (c - 0x37))"

lemma digit_value_hex:
  assumes "n < 16" shows "digit_value (hex_digit n) = unat n"
proof -
  have "list_all (\<lambda>m. digit_value (hex_digit (of_nat m)) = m) [0..<16]" by code_simp
  then have "digit_value (hex_digit (of_nat m)) = m" if "m < 16" for m using that by (simp add: list_all_iff)
  from this [of "unat n"] assms show ?thesis by (simp add: word_less_nat_alt)
qed

lemma unat_nibble: "unat (drop_bit (4 * k) (w :: u16) AND 0xF) = unat w div 16 ^ k mod 16"
proof -
  have "drop_bit (4 * k) w AND 0xF = take_bit 4 (drop_bit (4 * k) w)"
    by (simp add: take_bit_eq_mask mask_eq_exp_minus_1)
  then have "unat (drop_bit (4 * k) w AND 0xF) = take_bit 4 (drop_bit (4 * k) (unat w))"
    by (auto intro!: bit_eqI simp: bit_simps dest: bit_imp_le_length)
  also have "\<dots> = unat w div 16 ^ k mod 16"
    by (simp add: take_bit_eq_mod drop_bit_eq_div power_mult)
  finally show ?thesis .
qed

text \<open>
  The digits shown for a parameter are its value: the text that \<open>sprintf\<close> makes of any 16-bit value is four
  hexadecimal digits and a NUL, and read as a number it is the value again, so that different values never look alike.
\<close>

theorem parameter_text:
  "length (format_04X w) = 5 \<and> last (format_04X w) = 0 \<and>
   foldl (\<lambda>v c. 16 * v + digit_value c) 0 (butlast (format_04X w)) = unat w"
proof -
  have lt: "drop_bit (4 * k) w AND 0xF < 16" for k
  proof -
    have "unat (drop_bit (4 * k) w AND 0xF) < 16" unfolding unat_nibble by simp
    then show ?thesis by (simp add: word_less_nat_alt)
  qed
  have d: "digit_value (hex_digit (drop_bit (4 * k) w AND 0xF)) = unat w div 16 ^ k mod 16" for k
    using digit_value_hex [OF lt] unat_nibble by simp
  have "unat w < 65536" using unsigned_less [of w] by simp
  moreover have "m = 16 * (m div 16) + m mod 16" for m :: nat by simp
  moreover have "unat w div 16 div 16 = unat w div 256" "unat w div 256 div 16 = unat w div 4096"
    by (simp_all add: div_mult2_eq [symmetric])
  moreover have "unat w div 4096 mod 16 = unat w div 4096"
    using calculation(1) by (simp add: less_mult_imp_div_less)
  ultimately have "unat w = 16 * (16 * (16 * (unat w div 4096 mod 16) + unat w div 256 mod 16) + unat w div 16 mod 16) + unat w mod 16"
    by metis
  then show ?thesis
    using d [of 3] d [of 2] d [of 1] d [of 0] by (simp add: format_04X_def)
qed

section \<open>Drawing with the audio service\<close>

text \<open>The invariant of the loop: that of the service, and frame buffers and messages as drawing needs them.\<close>

definition loop_inv :: "('f, 'a) app_scheme \<Rightarrow> bool" where
  "loop_inv s \<longleftrightarrow> app_inv s \<and> length (screen s) = 128 \<and> length (screen2 s) = 128 \<and>
     -1 \<le> displayBytesToSend s \<and> displayBytesToSend s \<le> 512 \<and>
     length (message4x16 s) = 4 \<and> (\<forall>row\<in>set (message4x16 s). 0 \<in> set row)"

definition good_env :: "'f env \<Rightarrow> bool" where
  "good_env e \<longleftrightarrow> env_ok e \<and> finishes (dev e)"

lemma loop_inv_app: "loop_inv s \<Longrightarrow> app_inv s"
  by (simp add: loop_inv_def)

lemma loop_inv_drawing: "loop_inv s \<Longrightarrow> app_inv s' \<Longrightarrow> drawing s' = drawing s \<Longrightarrow> loop_inv s'"
  by (simp add: loop_inv_def drawing_def)

lemma loop_inv_draws: "loop_inv s \<Longrightarrow> app_inv s' \<Longrightarrow> draws y s s' \<Longrightarrow> loop_inv s'"
  by (simp add: loop_inv_def draws_def drawing_def)

lemma loop_inv_upd_range:
  "loop_inv s \<Longrightarrow> app_inv s' \<Longrightarrow> drawing s' = drawing (set_screen Screen (upd_range x0 x1 f (get_screen Screen s)) s) \<Longrightarrow>
   loop_inv s'"
  by (simp add: loop_inv_def drawing_def set_screen_def get_screen_def upd_range_def)


text \<open>Loops over a fixed list of indices whose body keeps the invariant.\<close>

lemma loop_returns:
  assumes "loop_inv s \<and> T s"
    and "\<And>x s. x \<in> set xs \<Longrightarrow> loop_inv s \<and> T s \<Longrightarrow> \<exists>s'. f x s = Some s' \<and> loop_inv s' \<and> T s'"
  shows "\<exists>s'. fold_opt f xs s = Some s' \<and> loop_inv s' \<and> T s'"
  by (rule fold_opt_total) (use assms in auto)

lemma table_entry_Some: "0 \<le> i \<Longrightarrow> i < int (length strs) \<Longrightarrow> table_entry strs i = Some (c_str (strs ! nat i))"
  by (simp add: table_entry_def)

lemma c_str_ends: "0 \<in> set (c_str cs)"
  by (simp add: c_str_def)

lemma format_04X_ends: "0 \<in> set (format_04X w)"
  by (simp add: format_04X_def)

lemma app_inv_display:
  "app_inv s \<Longrightarrow> app_inv (s\<lparr>clock := t, trace := tr, displayBlankCountdown := n, displayIsOn := b\<rparr>)"
  "app_inv s \<Longrightarrow> app_inv (s\<lparr>screen2ptr := p\<rparr>)"
  "app_inv s \<Longrightarrow> app_inv (s\<lparr>displayBytesToSend := n\<rparr>)"
  by (simp_all add: app_inv_def audio_blocks_def kept_defs)

lemma loop_inv_hw [simp]:
  "loop_inv (tick n s) = loop_inv s" "loop_inv (wr r v s) = loop_inv s"
  by (simp_all add: loop_inv_def app_inv_def audio_blocks_def kept_defs tick_def wr_def emit_def)

lemma loop_inv_count: "loop_inv s \<Longrightarrow> -1 \<le> n \<Longrightarrow> n \<le> 512 \<Longrightarrow> loop_inv (s\<lparr>displayBytesToSend := n\<rparr>)"
  by (simp add: loop_inv_def app_inv_display)

lemma transfer_step_keeps:
  assumes "loop_inv s" shows "loop_inv (snd (transfer_step dv s))"
proof -
  have b: "-1 \<le> displayBytesToSend s" "displayBytesToSend s \<le> 512" using assms by (simp_all add: loop_inv_def)
  have sel: "displayBytesToSend (tick n r) = displayBytesToSend r" "displayBytesToSend (wr rg v r) = displayBytesToSend r"
    for n rg v and r :: "'z display_scheme"
    by (simp_all add: tick_def wr_def emit_def)
  have down: "loop_inv (count_down (store1 (store5 r)))" if "loop_inv r" "0 < displayBytesToSend r" for r :: "('a, 'b) app_scheme"
    unfolding count_down_def
  proof (rule loop_inv_count)
    show "loop_inv (store1 (store5 r))" using that(1) by (simp add: store1_def store5_def)
    show "-1 \<le> displayBytesToSend (store1 (store5 r)) - 1" "displayBytesToSend (store1 (store5 r)) - 1 \<le> 512"
      using that by (simp_all add: store1_def store5_def sel loop_inv_def)
  qed
  show ?thesis
    using assms b by (auto simp: transfer_step_def poll_flag_def Let_def sel intro!: down loop_inv_count)
qed

text \<open>
  Drawing needs of the audio service only that it returns, keeps \<open>app_inv\<close> and leaves the drawing alone. The lemmas of this
  block hold of every such service: the code's own, and the same with interrupts around it (\<open>Program\<close>). \<open>T\<close> is any further
  property that the service keeps and that does not depend on the drawing: then the drawing keeps it too.
\<close>

locale loop_service = audio_frame "\<lambda>s. good_env e \<and> app_inv s \<and> T s" svc
  for e :: "'f env" and T :: "('f, 'a) app_scheme \<Rightarrow> bool" and svc :: "('f, 'a) app_scheme \<Rightarrow> ('f, 'a) app_scheme option" +
  assumes pointer: "T s \<Longrightarrow> T (s\<lparr>screen2ptr := p\<rparr>)"
begin

lemma draw_returns:
  assumes "good_env e" and "loop_inv s \<and> T s" and "0 \<le> y" and "y \<le> 24" and "0 \<in> set str"
  shows "\<exists>s'. drawString88 svc x y str s = Some s' \<and> loop_inv s' \<and> T s'"
proof -
  have "good_env e \<and> app_inv s \<and> T s" "length (screen s) = 128"
    using assms(1,2) by (simp_all add: loop_inv_def)
  from drawString88_draws [OF assms(3,4) this assms(5), of x]
  obtain s' where "drawString88 svc x y str s = Some s'" "app_inv s'" "T s'" "draws y s s'" by blast
  with loop_inv_draws assms(2) show ?thesis by blast
qed

lemma range_returns:
  assumes "good_env e" and "loop_inv s \<and> T s" and "0 \<le> x0" and "x1 < 128"
  shows "\<exists>s'. modify_range svc Screen x0 x1 f s = Some s' \<and> loop_inv s' \<and> T s'"
proof -
  have "good_env e \<and> app_inv s \<and> T s" "x1 < int (length (get_screen Screen s))"
    using assms by (simp_all add: loop_inv_def get_screen_def)
  from modify_range_effect [OF this(1) assms(3) this(2), of f]
  obtain s' where "modify_range svc Screen x0 x1 f s = Some s'" "app_inv s'" "T s'"
      "drawing s' = drawing (set_screen Screen (upd_range x0 x1 f (get_screen Screen s)) s)" by blast
  with loop_inv_upd_range assms(2) show ?thesis by blast
qed

lemma show_processor_returns:
  assumes "good_env e" and "loop_inv s \<and> T s" and "i < 2"
  shows "\<exists>s'. show_processor (peaks e) svc i s = Some s' \<and> loop_inv s' \<and> T s'"
proof -
  let ?f = "processor_function (peaks e) (processor_calls (algorithmData s)) i"
  have f: "0 \<le> ?f" "?f < int (length functionStrings)"
    using assms(1) by (simp_all add: good_env_def env_ok_def functionStrings_def)
  obtain s1 where s1: "drawString88 svc 64 (int i * 8) (c_str (functionStrings ! nat ?f)) s = Some s1" "loop_inv s1 \<and> T s1"
    using draw_returns [OF assms(1,2) _ _ c_str_ends, of "int i * 8"] assms(3) by fastforce
  have "\<exists>s'. fold_opt (\<lambda>j s. drawString88 svc (int j * 32) (16 + int i * 8)
         (format_04X (processorParams (algorithmData s) ! i ! j)) s) [0..<4] s1 = Some s' \<and> loop_inv s' \<and> T s'"
  proof (rule loop_returns [where T = T, OF s1(2)])
    fix j and r :: "('f, 'a) app_scheme"
    assume "loop_inv r \<and> T r"
    then show "\<exists>r'. drawString88 svc (int j * 32) (16 + int i * 8)
         (format_04X (processorParams (algorithmData r) ! i ! j)) r = Some r' \<and> loop_inv r' \<and> T r'"
      by (rule draw_returns [OF assms(1)]) (use assms(3) in \<open>simp_all add: format_04X_ends\<close>)
  qed
  with f s1(1) show ?thesis by (simp add: show_processor_def table_entry_Some)
qed

lemma algorithm_display_returns:
  assumes "good_env e" and "loop_inv s \<and> T s"
  shows "\<exists>s'. algorithm_display (peaks e) svc s = Some s' \<and> loop_inv s' \<and> T s'"
proof -
  let ?m = "edit_mode (algorithmData s)"
  have m: "0 \<le> ?m" "?m < int (length editModeStrings)"
    using assms(2) by (simp_all add: loop_inv_def app_inv_def alg_inv_def editModeStrings_def)
  obtain s1 where s1: "drawString88 svc 0 0 (c_str (editModeStrings ! nat ?m)) s = Some s1" "loop_inv s1 \<and> T s1"
    using draw_returns [OF assms _ _ c_str_ends, of 0] by fastforce
  have "\<exists>s'. fold_opt (show_processor (peaks e) svc) [0..<2] s1 = Some s' \<and> loop_inv s' \<and> T s'"
    by (rule loop_returns [where T = T, OF s1(2)]) (rule show_processor_returns [OF assms(1)], simp_all)
  with m s1(1) show ?thesis by (simp add: algorithm_display_def table_entry_Some)
qed

lemma highlight_returns:
  assumes "good_env e" and "loop_inv s \<and> T s" and "0 \<le> x0" and "x1 < 128"
  shows "\<exists>s'. highlight svc i sw x0 x1 msk s = Some s' \<and> loop_inv s' \<and> T s'"
  using range_returns [OF assms] assms(2) by (simp add: highlight_def xorScreen_def xorScreenPtr_def)

lemma updateDisplay_after:
  assumes "good_env e" and "blanking (dev e) s = Some s1" and "loop_inv s1 \<and> T s1"
  shows "\<exists>s'. updateDisplay (dev e) svc (algorithm_display (peaks e) svc) s = Some s' \<and> loop_inv s' \<and> T s'"
proof -
  let ?s2 = "s1\<lparr>screen2ptr := Screen\<rparr>"
  have "loop_inv ?s2 \<and> T ?s2" using assms(3) by (simp add: loop_inv_def app_inv_display(2) pointer)
  then obtain s3 where s3: "modify_range svc Screen 0 127 (\<lambda>_. 0) ?s2 = Some s3" "loop_inv s3 \<and> T s3"
    using range_returns [OF assms(1), of ?s2 0 127 "\<lambda>_. 0"] by auto
  have "\<exists>s'. (case displayMode s3 of
        kDisplayModeNormal \<Rightarrow> do {
          s \<leftarrow> algorithm_display (peaks e) svc s3;
          s \<leftarrow> highlight svc 0 encSW 0 63 0x000000ff s;
          s \<leftarrow> highlight svc 1 encSW 64 127 0x000000ff s;
          s \<leftarrow> highlight svc 0 potSW 0 63 0xff000000 s;
          highlight svc 1 potSW 64 127 0xff000000 s }
      | kDisplayModeMessage4x16 \<Rightarrow>
          fold_opt (\<lambda>i s. drawString88 svc 0 (8 * int i) (message4x16 s ! i) s) [0..<4] s3) = Some s' \<and>
      loop_inv s' \<and> T s'"
  proof (cases "displayMode s3")
    case kDisplayModeNormal
    obtain s4 where s4: "algorithm_display (peaks e) svc s3 = Some s4" "loop_inv s4 \<and> T s4"
      using algorithm_display_returns [OF assms(1) s3(2)] by blast
    note h = highlight_returns [OF assms(1)]
    obtain s5 where s5: "highlight svc 0 encSW 0 63 0x000000ff s4 = Some s5" "loop_inv s5 \<and> T s5"
      using h [OF s4(2), of 0 63] by fastforce
    obtain s6 where s6: "highlight svc 1 encSW 64 127 0x000000ff s5 = Some s6" "loop_inv s6 \<and> T s6"
      using h [OF s5(2), of 64 127] by fastforce
    obtain s7 where s7: "highlight svc 0 potSW 0 63 0xff000000 s6 = Some s7" "loop_inv s7 \<and> T s7"
      using h [OF s6(2), of 0 63] by fastforce
    obtain s8 where "highlight svc 1 potSW 64 127 0xff000000 s7 = Some s8" "loop_inv s8 \<and> T s8"
      using h [OF s7(2), of 64 127] by fastforce
    with kDisplayModeNormal s4 s5 s6 s7 show ?thesis by simp
  next
    case kDisplayModeMessage4x16
    have "\<exists>s'. fold_opt (\<lambda>i s. drawString88 svc 0 (8 * int i) (message4x16 s ! i) s) [0..<4] s3 = Some s' \<and>
      loop_inv s' \<and> T s'"
    proof (rule loop_returns [where T = T, OF s3(2)])
      fix i and r :: "('f, 'a) app_scheme"
      assume "i \<in> set [0..<4]" and r: "loop_inv r \<and> T r"
      then have "0 \<in> set (message4x16 r ! i)" "8 * int i \<le> 24" by (auto simp: loop_inv_def)
      with draw_returns [OF assms(1) r] show
        "\<exists>r'. drawString88 svc 0 (8 * int i) (message4x16 r ! i) r = Some r' \<and> loop_inv r' \<and> T r'" by simp
    qed
    with kDisplayModeMessage4x16 show ?thesis by simp
  qed
  with assms(2) s3(1) show ?thesis by (simp add: updateDisplay_def Let_def)
qed

end

text \<open>The loop itself needs no more of the service.\<close>

lemma loop_inv_blanked:
  "loop_inv s \<Longrightarrow> loop_inv (s\<lparr>clock := t, trace := tr, displayBlankCountdown := n, displayIsOn := b\<rparr>)"
  by (simp add: loop_inv_def app_inv_display(1))

locale display_service = loop_service e "\<lambda>_. True" svc
  for e :: "'f env" and svc :: "('f, 'a) app_scheme \<Rightarrow> ('f, 'a) app_scheme option"
begin

lemma updateDisplay_returns:
  assumes "good_env e" and "loop_inv s"
  shows "\<exists>s'. updateDisplay (dev e) svc (algorithm_display (peaks e) svc) s = Some s' \<and> loop_inv s'"
proof -
  have "responsive (dev e)" using assms(1) by (simp add: good_env_def env_ok_def)
  from blanking_step [OF this, of s] loop_inv_blanked [OF assms(2)]
  obtain s1 where "blanking (dev e) s = Some s1" "loop_inv s1" by blast
  with updateDisplay_after [OF assms(1)] show ?thesis by blast
qed

lemma iteration_returns:
  assumes "good_env e" and "loop_inv s"
  shows "\<exists>l' s'. displayLoop_iteration (dev e) svc (algorithm_display (peaks e) svc) (l, s) =
    Some (l', s') \<and> loop_inv s'"
proof -
  obtain s1 where s1: "svc s = Some s1" "app_inv s1" "drawing s1 = drawing s"
    using serves [of s] assms loop_inv_app by blast
  then have i1: "loop_inv s1" using loop_inv_drawing [OF assms(2)] by blast
  obtain go s2 where s2: "transfer_step (dev e) s1 = (go, s2)" "loop_inv s2"
    using transfer_step_keeps [OF i1, of "dev e"] by (cases "transfer_step (dev e) s1") auto
  obtain s3 where s3: "updateDisplay (dev e) svc (algorithm_display (peaks e) svc) s2 = Some s3"
      "loop_inv s3"
    using updateDisplay_returns [OF assms(1) s2(2)] by blast
  have "loop_inv (wr PORTJCLR (BIT 3) (wr PORTACLR (BIT 0) (s3\<lparr>displayBytesToSend := 512\<rparr>)))"
    using loop_inv_count [OF s3(2), of 512] by simp
  with s1(1) s2 s3(1) show ?thesis
    by (auto simp: displayLoop_iteration_def refresh_step_def Let_def)
qed

end

interpretation loop: display_service e "CheckServiceAudio e" for e
proof unfold_locales
  show "good_env e \<and> app_inv s \<and> True \<Longrightarrow>
      \<exists>s'. CheckServiceAudio e s = Some s' \<and> (good_env e \<and> app_inv s' \<and> True) \<and> drawing s' = drawing s"
    for s :: "('a, 'b) app_scheme"
    using checked.serves [of e s] by (simp add: good_env_def)
qed simp_all

section \<open>The loop\<close>

text \<open>
  C2: The main loop never gets stuck and never leaves its invariant: on a board whose peripherals respond, every iteration of
  \<open>displayLoop\<close>, with audio service, message handling, saving of the settings, drawing and the transfer to the panels as they
  come, returns, for any number of iterations from any well-formed state.
\<close>

theorem display_loop_runs:
  assumes "env_ok e" and "finishes (dev e)" and "loop_inv s"
  shows "\<exists>l' s'. fold_opt (\<lambda>_. displayLoop_iteration (dev e) (CheckServiceAudio e)
       (algorithm_display (peaks e) (CheckServiceAudio e))) [0..<n] (l, s) = Some (l', s') \<and> loop_inv s'"
proof -
  have "good_env e" using assms(1,2) by (simp add: good_env_def)
  have "\<exists>ls'. fold_opt (\<lambda>_. displayLoop_iteration (dev e) (CheckServiceAudio e)
       (algorithm_display (peaks e) (CheckServiceAudio e))) [0..<n] (l, s) = Some ls' \<and> loop_inv (snd ls')"
  proof (rule fold_opt_total)
    fix x and ls :: "loop_locals \<times> ('a, 'b) app_scheme"
    assume "loop_inv (snd ls)"
    with loop.iteration_returns [OF \<open>good_env e\<close>, of "snd ls" "fst ls"]
    show "\<exists>ls'. displayLoop_iteration (dev e) (CheckServiceAudio e) (algorithm_display (peaks e) (CheckServiceAudio e)) ls =
        Some ls' \<and> loop_inv (snd ls')" by fastforce
  qed (use assms(3) in simp)
  then show ?thesis by auto
qed

lemma demo_loop_inv: "loop_inv demo_app"
proof -
  have d: "screen demo_app = replicate 128 0" "screen2 demo_app = replicate 128 5" "displayBytesToSend demo_app = -1"
    "message4x16 demo_app = replicate 4 (replicate 17 0)"
    by (simp_all add: demo_app_def receive.defs demo_receive_def i2c.defs demo_i2c_def recall.defs demo_recall_def
        midi_in.defs demo_in_def midi_out.defs demo_midi_def display.defs demo_display_def)
  show ?thesis using demo_app_inv by (simp add: loop_inv_def d)
qed

lemma display_loop_runs_witness:
  "\<exists>l' s'. fold_opt (\<lambda>_. displayLoop_iteration ready_device (CheckServiceAudio demo_env)
       (algorithm_display demo_peaks (CheckServiceAudio demo_env))) [0..<100000]
       (\<lparr>refreshCount = 0, displayLastTime = 0\<rparr>, demo_app) = Some (l', s') \<and> loop_inv s'"
  using display_loop_runs [OF demo_env_ok demo_loop_inv, of 100000] by simp

end
