(* ===== verification/Calibrate.thy ===== *)
theory Calibrate
  imports App_State "HOL-Library.Signed_Division"
begin

text \<open>
  \<open>calibrate.c\<close>: checking the calibration stored in the flash memory and computing from it the
  conversion factors of the inputs and outputs, in integers (division truncates towards zero, \<open>int\<close>
  and \<open>int64_t\<close> wrap) and in floating point. The double-precision operations are a parameter, as
  the single-precision ones are.
\<close>

section \<open>Data\<close>

record InputCalibrationData =
  zeroIn :: int
  threeVolt :: int

record OutputCalibrationData =
  zeroOut :: int
  halfOut :: int

record Settings =
  m_version :: u32
  m_editable :: "int list"
  m_editableBytes :: "u8 list"
  inData :: "InputCalibrationData list"
  outData :: "OutputCalibrationData list"

record ('d, 'f) double_ops =
  d_of_int :: "int \<Rightarrow> 'd"
  d_mul :: "'d \<Rightarrow> 'd \<Rightarrow> 'd"
  d_div :: "'d \<Rightarrow> 'd \<Rightarrow> 'd"
  d_is_zero :: "'d \<Rightarrow> bool"
  d_to_int :: "'d \<Rightarrow> int"
  d_to_float :: "'d \<Rightarrow> 'f"

definition s64 :: "int \<Rightarrow> int" where "s64 x = sint (word_of_int x :: 64 word)"

section \<open>Validity\<close>

definition checkValidRange :: "int \<Rightarrow> int \<Rightarrow> int \<Rightarrow> bool" where
  "checkValidRange v mn mx = (\<not> (v < mn \<or> v > mx))"

definition checkValidRanges :: "int \<Rightarrow> int \<Rightarrow> int \<Rightarrow> int \<Rightarrow> bool" where
  "checkValidRanges zi zo ho tv =
     (checkValidRange zi (-0x100000) 0x100000 \<and> checkValidRange zo (-0x100000) 0x100000 \<and>
      checkValidRange ho 0x200000 0x600000 \<and> checkValidRange tv 0x100000 0x380000)"

text \<open>One turn of each of the two loops of \<open>CheckValidCalibration\<close>: whether the entry was bad, and the entry as fixed.\<close>

definition check_input :: "bool \<Rightarrow> InputCalibrationData \<Rightarrow> bool \<times> InputCalibrationData" where
  "check_input fix_it d =
     (let bad1 = \<not> checkValidRange (zeroIn d) (-0x100000) 0x100000;
          d = (if bad1 \<and> fix_it then d\<lparr>zeroIn := 0\<rparr> else d);
          bad2 = \<not> checkValidRange (threeVolt d) 0x100000 0x380000;
          d = (if bad2 \<and> fix_it then d\<lparr>threeVolt := 0x266666\<rparr> else d)
      in (bad1 \<or> bad2, d))"

definition check_output :: "bool \<Rightarrow> OutputCalibrationData \<Rightarrow> bool \<times> OutputCalibrationData" where
  "check_output fix_it d =
     (let bad1 = \<not> checkValidRange (zeroOut d) (-0x100000) 0x100000;
          d = (if bad1 \<and> fix_it then d\<lparr>zeroOut := 0\<rparr> else d);
          bad2 = \<not> checkValidRange (halfOut d) 0x200000 0x600000;
          d = (if bad2 \<and> fix_it then d\<lparr>halfOut := 0x400000\<rparr> else d)
      in (bad1 \<or> bad2, d))"

definition CheckValidCalibration :: "bool \<Rightarrow> Settings \<Rightarrow> bool \<times> Settings" where
  "CheckValidCalibration fix_it st =
     (let ins = map (check_input fix_it) (inData st);
          outs = map (check_output fix_it) (outData st)
      in (\<not> ((\<exists>r\<in>set ins. fst r) \<or> (\<exists>r\<in>set outs. fst r)),
          st\<lparr>inData := map snd ins, outData := map snd outs\<rparr>))"

text \<open>The calibration used when the settings have been wiped (a word of flash that is all zeros or all ones).\<close>

definition default_calibration :: "Settings \<Rightarrow> Settings" where
  "default_calibration st =
     st\<lparr>inData := replicate 6 \<lparr>zeroIn = 0, threeVolt = 0x266666\<rparr>,
        outData := replicate 4 \<lparr>zeroOut = 0, halfOut = 0x400000\<rparr>\<rparr>"

definition unless_wiped :: "Settings \<Rightarrow> Settings" where
  "unless_wiped st =
     (if threeVolt (inData st ! 0) = 0 \<or> threeVolt (inData st ! 0) = -1 then default_calibration st else st)"

section \<open>The conversion factors\<close>

text \<open>A third of the span between the codes of zero and of three volts, in integers and in floating point.\<close>

definition span_B :: "int \<Rightarrow> int \<Rightarrow> int" where
  "span_B zi tv = (let b = i32 (tv - zi) sdiv 3 in if b = 0 then 0xCCCCC else b)"

definition span_Bf :: "('d, 'f) double_ops \<Rightarrow> int \<Rightarrow> int \<Rightarrow> 'd" where
  "span_Bf dp zi tv =
     (let b = d_of_int dp (i32 (tv - zi));
          b = (if d_is_zero dp b then d_div dp (d_of_int dp (3 * 2 ^ 23)) (d_of_int dp 10) else b)
      in d_div dp b (d_of_int dp 3))"

definition reciprocal :: "int \<Rightarrow> int" where "reciprocal b = 0x80000000000 sdiv b"

definition out_span :: "OutputCalibrationData \<Rightarrow> int" where
  "out_span od = (let n = i32 (halfOut od - zeroOut od) in if n = 0 then 0x399999 else n)"

definition inputMap :: "nat list list" where "inputMap = [[0, 1, 4], [2, 3, 5]]"

text \<open>What the body of the double loop stores into \<open>halfState[d]\<close>, first for every input, then for the outputs.\<close>

definition store_input ::
    "('d, 'f) double_ops \<Rightarrow> InputCalibrationData \<Rightarrow> nat \<Rightarrow> 'f half_calibration \<Rightarrow> 'f half_calibration" where
  "store_input dp inp i h =
     h\<lparr>A := (A h)[i := zeroIn inp],
       Brf := (Brf h)[i := d_to_float dp (d_div dp (d_of_int dp 1) (span_Bf dp (zeroIn inp) (threeVolt inp)))],
       Br := (Br h)[i := i32 (reciprocal (span_B (zeroIn inp) (threeVolt inp)))]\<rparr>"

definition store_output ::
    "('d, 'f) double_ops \<Rightarrow> InputCalibrationData \<Rightarrow> OutputCalibrationData \<Rightarrow> nat \<Rightarrow> 'f half_calibration \<Rightarrow>
     'f half_calibration" where
  "store_output dp inp od i h =
     (let b = span_B (zeroIn inp) (threeVolt inp);
          bf = span_Bf dp (zeroIn inp) (threeVolt inp);
          n = out_span od;
          df = d_div dp (d_of_int dp (i32 (zeroOut od - zeroIn inp))) bf;
          ef = d_div dp (d_of_int dp n) (d_mul dp bf (d_of_int dp 0x400000));
          dd = d_div dp df ef
      in h\<lparr>D := (D h)[i := i32 (s64 (i32 (zeroOut od - zeroIn inp) * reciprocal b) div 2 ^ 24)],
           Er := (Er h)[i := i32 (s64 (b * 2 ^ 27) sdiv n)],
           Dd := (Dd h)[i := d_to_int dp dd],
           Ddf := (Ddf h)[i := d_to_float dp dd],
           Erf := (Erf h)[i := d_to_float dp (d_div dp (d_of_int dp 1) ef)]\<rparr>)"

text \<open>The state of the double loop: the two halves and the local array \<open>A[6]\<close>, and its body for half \<open>d\<close> and input \<open>i\<close>.\<close>

definition calibrate_input ::
    "('d, 'f) double_ops \<Rightarrow> Settings \<Rightarrow> nat \<times> nat \<Rightarrow> 'f half_calibration list \<times> int list \<Rightarrow>
     'f half_calibration list \<times> int list" where
  "calibrate_input dp st di ca =
     (let (d, i) = di; (cal, As) = ca; inp = inData st ! (3 * d + i);
          h = store_input dp inp i (cal ! d);
          h = (if i < 2 then store_output dp inp (outData st ! (2 * d + i)) i h else h)
      in (cal[d := h], As[inputMap ! d ! i := zeroIn inp]))"

text \<open>
  The last loop. (The first one also stores \<open>Brf\<close> into \<open>inputCalibrations\<close>; the last overwrites all six entries.)
\<close>

definition half_of :: "nat list" where "half_of = [0, 0, 1, 1, 0, 1]"
definition in_of :: "nat list" where "in_of = [0, 1, 0, 1, 2, 2]"

definition input_entry :: "'f float_ops \<Rightarrow> 'f half_calibration list \<Rightarrow> int list \<Rightarrow> nat \<Rightarrow> 'f input_calibration" where
  "input_entry fl cal As w =
     (let brf = Brf (cal ! (half_of ! w)) ! (in_of ! w)
      in \<lparr>in_Brf = brf, in_mABrf = f_mul fl (f_of_int fl (i32 (- As ! w))) brf\<rparr>)"

definition bad_message :: "u8 list \<times> u8 list" where
  "bad_message = (map of_char ''Bad calibration data'' @ [0], map of_char ''Using defaults'' @ [0])"

definition ReadCalibrationFromSettings ::
    "('d, 'f) double_ops \<Rightarrow> 'f float_ops \<Rightarrow> Settings \<Rightarrow> ('f, 'a) app_scheme \<Rightarrow> Settings \<times> ('f, 'a) app_scheme" where
  "ReadCalibrationFromSettings dp fl nvm_settings s =
     (let (ok, st) = CheckValidCalibration True (unless_wiped nvm_settings);
          s = (if ok then s else displayMessage4x16 (fst bad_message) (snd bad_message) [0] [0] s);
          (cal, As) = fold (calibrate_input dp st) [(0, 0), (0, 1), (0, 2), (1, 0), (1, 1), (1, 2)]
            (calibration s, [0, 0, 0, 0, 0, 0])
      in (st, s\<lparr>calibration := cal, inputCalibrations := map (input_entry fl cal As) [0..<6]\<rparr>))"

section \<open>Checking repairs the calibration\<close>

definition valid_input :: "InputCalibrationData \<Rightarrow> bool" where
  "valid_input d \<longleftrightarrow> -0x100000 \<le> zeroIn d \<and> zeroIn d \<le> 0x100000 \<and> 0x100000 \<le> threeVolt d \<and> threeVolt d \<le> 0x380000"

definition valid_output :: "OutputCalibrationData \<Rightarrow> bool" where
  "valid_output d \<longleftrightarrow> -0x100000 \<le> zeroOut d \<and> zeroOut d \<le> 0x100000 \<and> 0x200000 \<le> halfOut d \<and> halfOut d \<le> 0x600000"

definition valid_settings :: "Settings \<Rightarrow> bool" where
  "valid_settings st \<longleftrightarrow> (\<forall>d\<in>set (inData st). valid_input d) \<and> (\<forall>d\<in>set (outData st). valid_output d)"

lemma check_entry:
  "fst (check_input f d) = (\<not> valid_input d)" "valid_input (snd (check_input True d))"
  "valid_input d \<Longrightarrow> snd (check_input f d) = d" "snd (check_input False d) = d"
  by (auto simp: check_input_def valid_input_def checkValidRange_def Let_def)

lemma check_out_entry:
  "fst (check_output f d) = (\<not> valid_output d)" "valid_output (snd (check_output True d))"
  "valid_output d \<Longrightarrow> snd (check_output f d) = d" "snd (check_output False d) = d"
  by (auto simp: check_output_def valid_output_def checkValidRange_def Let_def)

text \<open>
  C36: Checking the calibration reports whether every entry is in range, and with \<open>fix\<close> it repairs it: afterwards every
  entry is in range, entries that were are unchanged, and a second check reports no error and changes
  nothing. Without \<open>fix\<close> it changes nothing at all.
\<close>

theorem calibration_repaired:
  "fst (CheckValidCalibration f st) = valid_settings st \<and> snd (CheckValidCalibration False st) = st \<and>
   valid_settings (snd (CheckValidCalibration True st)) \<and>
   (\<forall>k<length (inData st). valid_input (inData st ! k) \<longrightarrow> inData (snd (CheckValidCalibration True st)) ! k = inData st ! k) \<and>
   (\<forall>k<length (outData st). valid_output (outData st ! k) \<longrightarrow> outData (snd (CheckValidCalibration True st)) ! k = outData st ! k) \<and>
   CheckValidCalibration f (snd (CheckValidCalibration True st)) = (True, snd (CheckValidCalibration True st))"
proof -
  have id: "map (\<lambda>d. snd (check_input f d)) xs = xs" if "\<forall>d\<in>set xs. valid_input d" for f xs
    using that by (induction xs) (simp_all add: check_entry)
  have id': "map (\<lambda>d. snd (check_output f d)) xs = xs" if "\<forall>d\<in>set xs. valid_output d" for f xs
    using that by (induction xs) (simp_all add: check_out_entry)
  have keep: "CheckValidCalibration f t = (True, t)" if "valid_settings t" for f t
    using that by (simp add: CheckValidCalibration_def valid_settings_def check_entry check_out_entry id id' o_def)
  have fixed: "valid_settings (snd (CheckValidCalibration True st))"
    by (simp add: CheckValidCalibration_def valid_settings_def check_entry check_out_entry)
  have "fst (CheckValidCalibration f st) = valid_settings st"
    by (auto simp: CheckValidCalibration_def valid_settings_def check_entry check_out_entry)
  moreover have "snd (CheckValidCalibration False st) = st"
    by (simp add: CheckValidCalibration_def check_entry check_out_entry o_def)
  ultimately show ?thesis
    using fixed keep [OF fixed] by (simp add: CheckValidCalibration_def check_entry check_out_entry)
qed

lemma unless_wiped_lengths:
  "length (inData st) = 6 \<Longrightarrow> length (outData st) = 4 \<Longrightarrow>
   length (inData (unless_wiped st)) = 6 \<and> length (outData (unless_wiped st)) = 4"
  by (simp add: unless_wiped_def default_calibration_def)

definition wiped_settings :: Settings where
  "wiped_settings = \<lparr>m_version = 0xffffffff, m_editable = replicate 16 (-1), m_editableBytes = replicate 16 0xff,
     inData = replicate 6 \<lparr>zeroIn = -1, threeVolt = -1\<rparr>, outData = replicate 4 \<lparr>zeroOut = -1, halfOut = -1\<rparr>\<rparr>"

lemma calibration_repaired_witness:
  "\<not> fst (CheckValidCalibration True wiped_settings) \<and>
   outData (snd (CheckValidCalibration True (wiped_settings\<lparr>outData := replicate 4 \<lparr>zeroOut = 5, halfOut = 0x400001\<rparr>\<rparr>))) ! 2 =
     \<lparr>zeroOut = 5, halfOut = 0x400001\<rparr>"
proof -
  have "\<not> valid_settings wiped_settings" by (simp add: wiped_settings_def valid_settings_def valid_input_def)
  with calibration_repaired [of True wiped_settings] have "\<not> fst (CheckValidCalibration True wiped_settings)" by blast
  moreover have "valid_output \<lparr>zeroOut = 5, halfOut = 0x400001\<rparr>" by (simp add: valid_output_def)
  ultimately show ?thesis
    using calibration_repaired [of True "wiped_settings\<lparr>outData := replicate 4 \<lparr>zeroOut = 5, halfOut = 0x400001\<rparr>\<rparr>"]
    by simp
qed

section \<open>Every factor reaches its channel\<close>

definition half_shape :: "'f half_calibration \<Rightarrow> bool" where
  "half_shape h \<longleftrightarrow> length (A h) = 3 \<and> length (Br h) = 3 \<and> length (Brf h) = 3 \<and> length (Er h) = 2 \<and> length (D h) = 2 \<and>
     length (Erf h) = 2 \<and> length (Ddf h) = 2 \<and> length (Dd h) = 2"

lemma store_input_fields [simp]:
  "A (store_input dp inp i h) = (A h)[i := zeroIn inp]"
  "Brf (store_input dp inp i h) = (Brf h)[i := d_to_float dp (d_div dp (d_of_int dp 1) (span_Bf dp (zeroIn inp) (threeVolt inp)))]"
  "Br (store_input dp inp i h) = (Br h)[i := i32 (reciprocal (span_B (zeroIn inp) (threeVolt inp)))]"
  "Er (store_input dp inp i h) = Er h" "D (store_input dp inp i h) = D h" "Erf (store_input dp inp i h) = Erf h"
  "Ddf (store_input dp inp i h) = Ddf h" "Dd (store_input dp inp i h) = Dd h"
  by (simp_all add: store_input_def)

definition input_gain :: "('d, 'f) double_ops \<Rightarrow> InputCalibrationData \<Rightarrow> 'f" where
  "input_gain dp inp = d_to_float dp (d_div dp (d_of_int dp 1) (span_Bf dp (zeroIn inp) (threeVolt inp)))"

text \<open>
  What an input channel \<open>inp\<close> and an output channel \<open>od\<close> determine: the offset between the two zeros and the ratio of
  the two spans, in double precision.
\<close>

definition output_offset :: "('d, 'f) double_ops \<Rightarrow> InputCalibrationData \<Rightarrow> OutputCalibrationData \<Rightarrow> 'd" where
  "output_offset dp inp od = d_div dp (d_of_int dp (i32 (zeroOut od - zeroIn inp))) (span_Bf dp (zeroIn inp) (threeVolt inp))"

definition output_ratio :: "('d, 'f) double_ops \<Rightarrow> InputCalibrationData \<Rightarrow> OutputCalibrationData \<Rightarrow> 'd" where
  "output_ratio dp inp od =
     d_div dp (d_of_int dp (out_span od)) (d_mul dp (span_Bf dp (zeroIn inp) (threeVolt inp)) (d_of_int dp 0x400000))"

lemma store_output_fields [simp]:
  "A (store_output dp inp od i h) = A h" "Brf (store_output dp inp od i h) = Brf h" "Br (store_output dp inp od i h) = Br h"
  "D (store_output dp inp od i h) = (D h)[i := i32 (s64 (i32 (zeroOut od - zeroIn inp) *
     reciprocal (span_B (zeroIn inp) (threeVolt inp))) div 2 ^ 24)]"
  "Er (store_output dp inp od i h) = (Er h)[i := i32 (s64 (span_B (zeroIn inp) (threeVolt inp) * 2 ^ 27) sdiv out_span od)]"
  "Dd (store_output dp inp od i h) = (Dd h)[i := d_to_int dp (d_div dp (output_offset dp inp od) (output_ratio dp inp od))]"
  "Ddf (store_output dp inp od i h) = (Ddf h)[i := d_to_float dp (d_div dp (output_offset dp inp od) (output_ratio dp inp od))]"
  "Erf (store_output dp inp od i h) = (Erf h)[i := d_to_float dp (d_div dp (d_of_int dp 1) (output_ratio dp inp od))]"
  by (simp_all add: store_output_def Let_def output_offset_def output_ratio_def)

text \<open>A half that holds, at position \<open>i\<close>, the three factors of one input, or the five of one output.\<close>

definition holds_input :: "('d, 'f) double_ops \<Rightarrow> 'f half_calibration \<Rightarrow> nat \<Rightarrow> InputCalibrationData \<Rightarrow> bool" where
  "holds_input dp h i inp \<longleftrightarrow>
     A h ! i = zeroIn inp \<and> Br h ! i = i32 (reciprocal (span_B (zeroIn inp) (threeVolt inp))) \<and> Brf h ! i = input_gain dp inp"

definition holds_output ::
    "('d, 'f) double_ops \<Rightarrow> 'f half_calibration \<Rightarrow> nat \<Rightarrow> InputCalibrationData \<Rightarrow> OutputCalibrationData \<Rightarrow> bool" where
  "holds_output dp h i inp od \<longleftrightarrow>
     D h ! i = i32 (s64 (i32 (zeroOut od - zeroIn inp) * reciprocal (span_B (zeroIn inp) (threeVolt inp))) div 2 ^ 24) \<and>
     Er h ! i = i32 (s64 (span_B (zeroIn inp) (threeVolt inp) * 2 ^ 27) sdiv out_span od) \<and>
     Dd h ! i = d_to_int dp (d_div dp (output_offset dp inp od) (output_ratio dp inp od)) \<and>
     Ddf h ! i = d_to_float dp (d_div dp (output_offset dp inp od) (output_ratio dp inp od)) \<and>
     Erf h ! i = d_to_float dp (d_div dp (d_of_int dp 1) (output_ratio dp inp od))"

definition calibrate_half ::
    "('d, 'f) double_ops \<Rightarrow> Settings \<Rightarrow> nat \<Rightarrow> 'f half_calibration \<Rightarrow> 'f half_calibration" where
  "calibrate_half dp st d h =
     (let inp = (\<lambda>i. inData st ! (3 * d + i)); out = (\<lambda>i. outData st ! (2 * d + i));
          h = store_output dp (inp 0) (out 0) 0 (store_input dp (inp 0) 0 h);
          h = store_output dp (inp 1) (out 1) 1 (store_input dp (inp 1) 1 h)
      in store_input dp (inp 2) 2 h)"

lemma calibrate_all:
  "fold (calibrate_input dp st) [(0, 0), (0, 1), (0, 2), (1, 0), (1, 1), (1, 2)] ([c0, c1], [x0, x1, x2, x3, x4, x5]) =
     ([calibrate_half dp st 0 c0, calibrate_half dp st 1 c1],
      map (\<lambda>w. zeroIn (inData st ! (3 * (half_of ! w) + in_of ! w))) [0..<6])"
proof -
  have "[0..<6] = [0 :: nat, 1, 2, 3, 4, 5]" by (simp add: upt_rec)
  then show ?thesis
    by (simp add: calibrate_input_def calibrate_half_def Let_def inputMap_def half_of_def in_of_def eval_nat_numeral)
qed

lemma calibrate_half_inputs:
  assumes "half_shape h" and "i < 3" shows "holds_input dp (calibrate_half dp st d h) i (inData st ! (3 * d + i))"
proof -
  have "i = 0 \<or> i = 1 \<or> i = 2" using assms(2) by auto
  then show ?thesis
    using assms(1) by (elim disjE; simp add: calibrate_half_def Let_def half_shape_def holds_input_def input_gain_def)
qed

lemma calibrate_half_outputs:
  assumes "half_shape h" and "i < 2"
  shows "holds_output dp (calibrate_half dp st d h) i (inData st ! (3 * d + i)) (outData st ! (2 * d + i))"
proof -
  have "i = 0 \<or> i = 1" using assms(2) by auto
  then show ?thesis
    using assms(1) by (elim disjE; simp add: calibrate_half_def Let_def half_shape_def holds_output_def)
qed

text \<open>
  C37: Every conversion factor is computed from, and used for, the same channel: after \<open>ReadCalibrationFromSettings\<close> the settings in use
  are in range; half \<open>d\<close> holds at \<open>i\<close> the three factors of input \<open>3 d + i\<close> (the zero, and the gain in integers and in
  floating point) and the five factors of output \<open>2 d + i\<close> against that input (offset and ratio, in integers and in floating
  point, \<open>D\<close>, \<open>Er\<close>, \<open>Dd\<close>, \<open>Ddf\<close>, \<open>Erf\<close>); and each of the six entries that the audio step
  reads has the gain of the input it is wired to and the offset made of that same input's zero and gain, although the code
  reaches it through two different tables. When an entry had to be repaired a message says so.
\<close>

theorem calibration_routed:
  assumes "length (inData nvm) = 6" and "length (outData nvm) = 4" and "calibration s = [c0, c1]"
    and "half_shape c0" and "half_shape c1"
  shows "let (st, s') = ReadCalibrationFromSettings dp fl nvm s
     in valid_settings st \<and>
       (\<forall>d<2. \<forall>i<3. holds_input dp (calibration s' ! d) i (inData st ! (3 * d + i))) \<and>
       (\<forall>d<2. \<forall>i<2. holds_output dp (calibration s' ! d) i (inData st ! (3 * d + i)) (outData st ! (2 * d + i))) \<and>
       (\<forall>w<6. let inp = inData st ! (3 * half_of ! w + in_of ! w)
          in inputCalibrations s' ! w = \<lparr>in_Brf = input_gain dp inp,
               in_mABrf = f_mul fl (f_of_int fl (i32 (- zeroIn inp))) (input_gain dp inp)\<rparr>) \<and>
       (displayMode s' = kDisplayModeMessage4x16 \<or> displayMode s' = displayMode s \<and> st = unless_wiped nvm)"
proof -
  define st where "st = snd (CheckValidCalibration True (unless_wiped nvm))"
  let ?t = "if fst (CheckValidCalibration True (unless_wiped nvm)) then s
    else displayMessage4x16 (fst bad_message) (snd bad_message) [0] [0] s"
  have c: "calibration ?t = [c0, c1]" by (simp add: displayMessage4x16_def assms(3))
  obtain s' where r: "ReadCalibrationFromSettings dp fl nvm s = (st, s')"
      "calibration s' = [calibrate_half dp st 0 c0, calibrate_half dp st 1 c1]"
      "inputCalibrations s' = map (input_entry fl [calibrate_half dp st 0 c0, calibrate_half dp st 1 c1]
         (map (\<lambda>w. zeroIn (inData st ! (3 * (half_of ! w) + in_of ! w))) [0..<6])) [0..<6]"
      "displayMode s' = (if fst (CheckValidCalibration True (unless_wiped nvm)) then displayMode s else kDisplayModeMessage4x16)"
    unfolding ReadCalibrationFromSettings_def Let_def split_beta c calibrate_all st_def [symmetric] fst_conv snd_conv
    by (simp add: displayMessage4x16_def)
  have fix_all: "valid_settings st"
    by (simp add: st_def CheckValidCalibration_def valid_settings_def check_entry check_out_entry)
  have same: "st = unless_wiped nvm" if "fst (CheckValidCalibration True (unless_wiped nvm))"
  proof -
    have "map (\<lambda>d. snd (check_input True d)) xs = xs" if "\<forall>d\<in>set xs. valid_input d" for xs
      using that by (induction xs) (simp_all add: check_entry)
    moreover have "map (\<lambda>d. snd (check_output True d)) xs = xs" if "\<forall>d\<in>set xs. valid_output d" for xs
      using that by (induction xs) (simp_all add: check_out_entry)
    ultimately show ?thesis
      using that by (simp add: st_def CheckValidCalibration_def check_entry check_out_entry o_def)
  qed
  have halves: "calibration s' ! d = calibrate_half dp st d (if d = 0 then c0 else c1)" if "d < 2" for d
    using that r(2) by (auto simp: less_2_cases_iff)
  have inputs: "holds_input dp (calibration s' ! d) i (inData st ! (3 * d + i))" if "d < 2" "i < 3" for d i
    using that assms(4,5) by (simp add: halves calibrate_half_inputs)
  have outputs: "holds_output dp (calibration s' ! d) i (inData st ! (3 * d + i)) (outData st ! (2 * d + i))"
    if "d < 2" "i < 2" for d i
    using that assms(4,5) by (simp add: halves calibrate_half_outputs)
  have entries: "inputCalibrations s' ! w = \<lparr>in_Brf = input_gain dp (inData st ! (3 * half_of ! w + in_of ! w)),
      in_mABrf = f_mul fl (f_of_int fl (i32 (- zeroIn (inData st ! (3 * half_of ! w + in_of ! w)))))
        (input_gain dp (inData st ! (3 * half_of ! w + in_of ! w)))\<rparr>" if "w < 6" for w
  proof -
    have "w = 0 \<or> w = 1 \<or> w = 2 \<or> w = 3 \<or> w = 4 \<or> w = 5" using that by arith
    then have "half_of ! w < 2" "in_of ! w < 3" by (elim disjE; simp add: half_of_def in_of_def)+
    from inputs [OF this] r(2) that show ?thesis by (simp add: r(3) input_entry_def Let_def holds_input_def)
  qed
  show ?thesis
    using fix_all inputs outputs entries same r(4) by (simp add: r(1) Let_def)
qed

definition demo_dp :: "(int, int) double_ops" where
  "demo_dp = \<lparr>d_of_int = (\<lambda>x. x), d_mul = (\<lambda>x y. x * y), d_div = (\<lambda>x y. x div y), d_is_zero = (\<lambda>x. x = 0),
     d_to_int = (\<lambda>x. x), d_to_float = (\<lambda>x. x)\<rparr>"

lemma calibration_routed_witness:
  "valid_settings (fst (ReadCalibrationFromSettings demo_dp demo_fl wiped_settings demo_app))"
proof -
  have "half_shape demo_half" by (simp add: half_shape_def demo_half_def)
  from calibration_routed [OF _ _ _ this this, of wiped_settings demo_app demo_dp demo_fl] show ?thesis
    by (simp add: wiped_settings_def split_beta Let_def)
qed

section \<open>The integer factors\<close>

lemma i32_small: "- (2 ^ 31) \<le> x \<Longrightarrow> x < 2 ^ 31 \<Longrightarrow> i32 x = x"
  by (simp add: i32_def int_word_sint)

lemma s64_small: "- (2 ^ 63) \<le> x \<Longrightarrow> x < 2 ^ 63 \<Longrightarrow> s64 x = x"
  by (simp add: s64_def int_word_sint)

lemma sdiv_pos: "0 \<le> (x :: int) \<Longrightarrow> 0 < y \<Longrightarrow> x sdiv y = x div y"
  by (cases "x = 0") (simp_all add: signed_divide_int_def)

lemma span_B_valid:
  assumes "valid_input inp" and "3 \<le> threeVolt inp - zeroIn inp"
  shows "span_B (zeroIn inp) (threeVolt inp) = (threeVolt inp - zeroIn inp) div 3"
    and "1 \<le> (threeVolt inp - zeroIn inp) div 3" and "(threeVolt inp - zeroIn inp) div 3 \<le> 0x180000"
proof -
  have d: "threeVolt inp - zeroIn inp \<le> 0x480000" using assms(1) by (simp add: valid_input_def)
  then have "i32 (threeVolt inp - zeroIn inp) = threeVolt inp - zeroIn inp" using assms(2) by (intro i32_small) simp_all
  moreover show b: "1 \<le> (threeVolt inp - zeroIn inp) div 3" using assms(2) by simp
  ultimately show "span_B (zeroIn inp) (threeVolt inp) = (threeVolt inp - zeroIn inp) div 3"
    using assms(2) by (simp add: span_B_def sdiv_pos Let_def)
  show "(threeVolt inp - zeroIn inp) div 3 \<le> 0x180000" using d by simp
qed

lemma reciprocal_bounds:
  assumes "1 \<le> b" shows "reciprocal b = 2 ^ 43 div b" and "0 \<le> reciprocal b" and "b \<le> 4096 \<longleftrightarrow> 2 ^ 31 \<le> reciprocal b"
proof -
  show r: "reciprocal b = 2 ^ 43 div b" using assms by (simp add: reciprocal_def sdiv_pos)
  show "0 \<le> reciprocal b" unfolding r using assms by (simp add: pos_imp_zdiv_nonneg_iff)
  have "2 ^ 31 \<le> (2 :: int) ^ 43 div b \<longleftrightarrow> 2 ^ 31 * b \<le> 2 ^ 43"
  proof
    assume "2 ^ 31 \<le> (2 :: int) ^ 43 div b"
    then have "2 ^ 31 * b \<le> 2 ^ 43 div b * b" using assms by (intro mult_right_mono) simp_all
    also have "\<dots> \<le> 2 ^ 43" using assms div_mult_mod_eq [of "2 ^ 43" b] pos_mod_sign [of b "2 ^ 43"] by linarith
    finally show "2 ^ 31 * b \<le> 2 ^ 43" .
  next
    assume "2 ^ 31 * b \<le> 2 ^ 43"
    then have "2 ^ 31 * b div b \<le> 2 ^ 43 div b" using assms by (intro zdiv_mono1) simp_all
    then show "2 ^ 31 \<le> (2 :: int) ^ 43 div b" using assms by simp
  qed
  then show "b \<le> 4096 \<longleftrightarrow> 2 ^ 31 \<le> reciprocal b" unfolding r by simp
qed

text \<open>
  The integer factors are exact: for a calibration in range whose span from zero to three volts is at least 12291 codes (a
  plausible one spans two million), none of the 32- and 64-bit computations wraps and none of the guards against
  a division by zero applies: the stored values are the quotients that the comment at the head of the file defines.
\<close>

theorem integer_factors_exact:
  assumes "valid_input inp" and "valid_output od" and "12291 \<le> threeVolt inp - zeroIn inp"
  shows "let b = (threeVolt inp - zeroIn inp) div 3; n = halfOut od - zeroOut od
     in span_B (zeroIn inp) (threeVolt inp) = b \<and> out_span od = n \<and> n \<noteq> 0 \<and>
       i32 (reciprocal b) = 2 ^ 43 div b \<and>
       i32 (s64 (b * 2 ^ 27) sdiv n) = b * 2 ^ 27 div n \<and>
       i32 (s64 (i32 (zeroOut od - zeroIn inp) * reciprocal b) div 2 ^ 24) =
         (zeroOut od - zeroIn inp) * (2 ^ 43 div b) div 2 ^ 24"
proof -
  define b where "b = (threeVolt inp - zeroIn inp) div 3"
  define n where "n = halfOut od - zeroOut od"
  define z where "z = zeroOut od - zeroIn inp"
  have b: "span_B (zeroIn inp) (threeVolt inp) = b" "4097 \<le> b" "b \<le> 0x180000"
    using span_B_valid [OF assms(1)] assms(3) by (simp_all add: b_def)
  have n: "0x100000 \<le> n" "n \<le> 0x700000" using assms(2) by (simp_all add: n_def valid_output_def)
  have z: "-0x200000 \<le> z" "z \<le> 0x200000" using assms(1,2) by (simp_all add: z_def valid_input_def valid_output_def)
  have "i32 n = n" "i32 z = z" using n z by (simp_all add: i32_small)
  then have span: "out_span od = n" using n by (simp add: out_span_def n_def Let_def)
  have r: "reciprocal b = 2 ^ 43 div b" "0 \<le> reciprocal b" "reciprocal b < 2 ^ 31"
    using reciprocal_bounds [of b] b(2) by linarith+
  have "i32 (reciprocal b) = 2 ^ 43 div b" using r by (simp add: i32_small)
  moreover have "i32 (s64 (b * 2 ^ 27) sdiv n) = b * 2 ^ 27 div n"
  proof -
    have "s64 (b * 2 ^ 27) = b * 2 ^ 27" using b by (intro s64_small) simp_all
    moreover have "b * 2 ^ 27 sdiv n = b * 2 ^ 27 div n" using b n by (intro sdiv_pos) simp_all
    moreover have "b * 2 ^ 27 div n \<le> b * 2 ^ 27 div 0x100000" using b n by (intro zdiv_mono2) simp_all
    moreover have "b * 2 ^ 27 div 0x100000 \<le> 0x180000 * 2 ^ 7" using b by simp
    moreover have "0 \<le> b * 2 ^ 27 div n" using b n by (simp add: pos_imp_zdiv_nonneg_iff)
    ultimately show ?thesis by (simp add: i32_small)
  qed
  moreover have "i32 (s64 (i32 z * reciprocal b) div 2 ^ 24) = z * (2 ^ 43 div b) div 2 ^ 24"
  proof -
    have "\<bar>z * reciprocal b\<bar> \<le> 0x200000 * 2 ^ 31"
      unfolding abs_mult using z r by (intro mult_mono) auto
    then have p: "- (2 ^ 52) \<le> z * reciprocal b" "z * reciprocal b \<le> 2 ^ 52" by simp_all
    then have "s64 (z * reciprocal b) = z * reciprocal b" by (intro s64_small) simp_all
    moreover have "i32 (z * reciprocal b div 2 ^ 24) = z * reciprocal b div 2 ^ 24" using p by (intro i32_small) simp_all
    ultimately show ?thesis using \<open>i32 z = z\<close> by (simp add: r(1))
  qed
  ultimately show ?thesis
    unfolding Let_def b_def [symmetric] n_def [symmetric] z_def [symmetric] using b(1) span n by simp
qed

lemma integer_factors_exact_witness:
  "i32 (reciprocal (span_B 100 2516682)) = 10485770"
proof -
  have "valid_input \<lparr>zeroIn = 100, threeVolt = 2516682\<rparr>" "valid_output \<lparr>zeroOut = 0, halfOut = 0x400000\<rparr>"
    by (simp_all add: valid_input_def valid_output_def)
  from integer_factors_exact [OF this] show ?thesis by (simp add: Let_def)
qed

text \<open>
  The range check does not ensure it: there are calibrations that it accepts, with a zero near its upper
  and three volts near its lower limit, for which the reciprocal of the span does not fit the 32-bit \<open>Br\<close> it is stored in.
\<close>

theorem reciprocal_overflows:
  assumes "valid_input inp" and "3 \<le> threeVolt inp - zeroIn inp" and "threeVolt inp - zeroIn inp < 12291"
  shows "reciprocal (span_B (zeroIn inp) (threeVolt inp)) = 2 ^ 43 div ((threeVolt inp - zeroIn inp) div 3) \<and>
     i32 (reciprocal (span_B (zeroIn inp) (threeVolt inp))) \<noteq> reciprocal (span_B (zeroIn inp) (threeVolt inp))"
proof -
  define b where "b = (threeVolt inp - zeroIn inp) div 3"
  have b: "span_B (zeroIn inp) (threeVolt inp) = b" "1 \<le> b" "b \<le> 4096"
    using span_B_valid [OF assms(1,2)] assms(3) by (simp_all add: b_def)
  have "i32 x < 2 ^ 31" for x using sint_lt [of "word_of_int x :: 32 word"] by (simp add: i32_def)
  with reciprocal_bounds [OF b(2)] b(3) have "i32 (reciprocal b) \<noteq> reciprocal b" by (metis not_less)
  with reciprocal_bounds(1) [OF b(2)] show ?thesis by (simp add: b(1) flip: b_def)
qed

lemma reciprocal_overflows_witness:
  "i32 (reciprocal (span_B 0x100000 0x100003)) \<noteq> reciprocal (span_B 0x100000 0x100003) \<and> checkValidRanges 0x100000 0 0x400000 0x100003"
proof -
  have "valid_input \<lparr>zeroIn = 0x100000, threeVolt = 0x100003\<rparr>" by (simp add: valid_input_def)
  from conjunct2 [OF reciprocal_overflows [OF this]] show ?thesis by (simp add: checkValidRanges_def checkValidRange_def)
qed

end
