(* ===== verification/Startup.thy ===== *)
theory Startup
  imports Ports I2C_Master Main_Loop Calibrate
begin

text \<open>
  The set-up of the board by \<open>APP_Initialize\<close> (\<open>app.c\<close>): the external memory, the serial ports with their DMA
  channels, the timers and converters, the displays, the calibration and the codec. The code is a long
  sequence of register writes and library calls; each part is the list of its events, with the waits and the
  changes of the program's state between them.
\<close>

section \<open>The board\<close>

text \<open>
  Besides the environment of the audio service: double-precision arithmetic, the calibration and the settings in
  flash, the addresses the linker chose, constants and calls outside the repository, and the external memory,
  an array of 32-bit words with a load and a store operation.
\<close>

record ('f, 'd, 'm) board =
  audio_env :: "'f env"
  double_unit :: "('d, 'f) double_ops"
  nvm_settings :: Settings
  flash_words :: "nat \<Rightarrow> u32"
  blocks_addr :: u32
  spi_buf_addr :: "spi_id \<Rightarrow> u32"
  I2C_WRITE_bit :: u8
  DMA_TRIGGER_SPI_6_RECEIVE :: u32
  has_wait_states :: bool
  has_prefetch :: bool
  ram_load :: "'m \<Rightarrow> nat \<Rightarrow> u32"
  ram_store :: "nat \<Rightarrow> u32 \<Rightarrow> 'm \<Rightarrow> 'm"

definition VirtToPhys :: "u32 \<Rightarrow> u32" where "VirtToPhys a = 0x1FFFFFFF AND a"

section \<open>The DMA channels of the audio blocks\<close>

text \<open>
  \<open>memset\<close> on the union \<open>_algorithm_blocks\<close>: of its words, numbered from \<open>32 * k\<close> for row \<open>k\<close>, the first \<open>n\<close> become zero.
\<close>

definition clear_rows :: "nat \<Rightarrow> nat \<Rightarrow> int list list \<Rightarrow> int list list" where
  "clear_rows n k rows =
     map (\<lambda>i. map (\<lambda>j. if 32 * (k + i) + j < n then 0 else rows ! i ! j) [0..<length (rows ! i)]) [0..<length rows]"

definition clear_blocks :: "nat \<Rightarrow> ('f, 'a) app_scheme \<Rightarrow> ('f, 'a) app_scheme" where
  "clear_blocks n s = s\<lparr>blocks_in := clear_rows n 0 (blocks_in s), blocks_out := clear_rows n 3 (blocks_out s)\<rparr>"

definition setupAudioDMAs ::
    "device \<Rightarrow> nat \<Rightarrow> u32 \<Rightarrow> ('f, 'a) app_scheme \<Rightarrow> ('f, 'a) app_scheme option" where
  "setupAudioDMAs dv framesPerBlock blocks s = do {
     let framesPerDMA = 2 * framesPerBlock;
     let s = emit_all (map (\<lambda>ch. Wr (DCHxECONSET ch) (BIT 6)) [DCH6, DCH0, DCH7, DCH3, DCH5, DCH4]) s;
     s \<leftarrow> wait_while_any dv (map CHBUSY [DCH6, DCH0, DCH7, DCH3, DCH5, DCH4]) s;
     let s = clear_blocks (6 * framesPerDMA * 8 div 4) s;
     let size = of_nat (framesPerDMA * 8);
     let next = (\<lambda>blocks :: u32. blocks + of_nat (4 * (framesPerDMA * 2)));
     let b1 = next blocks; let b2 = next b1; let b3 = next b2; let b4 = next b3; let b5 = next b4;
     Some (emit_all (
       [Wr SPI6CONCLR (BIT 15),
        Wr (DCHxDSA DCH5) (VirtToPhys blocks), Wr (DCHxDSIZ DCH5) size,
        Wr (DCHxDSA DCH6) (VirtToPhys b1), Wr (DCHxDSIZ DCH6) size,
        Wr (DCHxDSA DCH7) (VirtToPhys b2), Wr (DCHxDSIZ DCH7) size,
        Wr (DCHxSSA DCH3) (VirtToPhys b3), Wr (DCHxSSIZ DCH3) size,
        Wr (DCHxSSA DCH0) (VirtToPhys b4), Wr (DCHxSSIZ DCH0) size,
        Wr (DCHxSSA DCH4) (VirtToPhys b5), Wr (DCHxSSIZ DCH4) size] @
       map (\<lambda>ch. Wr (DCHxCONSET ch) (BIT 7)) [DCH6, DCH0, DCH7, DCH3, DCH5, DCH4] @
       [Wr SPI6CONSET (BIT 15)]) s) }"

section \<open>The converters\<close>

definition configureADC :: "device \<Rightarrow> input \<Rightarrow> 'a hw_scheme \<Rightarrow> 'a hw_scheme option" where
  "configureADC dv ins s = do {
     let s = emit_all [
       Setup ADC7CFG (ins DEVADC7 (clock s)),
       WrFields ADCCON1 [(SELRES, 3), (STRGSRC, 1)],
       WrFields ADCCON2 [(SAMC, 14), (ADCDIV, 1), (EOSIEN, 1)],
       WrFields ADCANCON [(WKUPCLKCNT, 0xA)],
       WrFields ADCCON3 [(CONCLKDIV, 8), (ADCSEL, 1)],
       Setup ADCIMCON2 0, Setup ADCIMCON3 0, Setup ADCTRGSNS 0,
       WrFields ADCCSS1 [(CSS27, 1), (CSS28, 1)],
       WrFields ADCCSS2 [(CSS38, 1), (CSS39, 1)],
       SetField ADCCON1 ADC_ON 1] (tick 1 s);
     s \<leftarrow> wait_until dv ADC_BGVRRDY s;
     s \<leftarrow> wait_while dv ADC_REFFLT s;
     s \<leftarrow> wait_until dv ADC_WKRDY7 (emit_all [SetField ADCANCON ANEN7 1] s);
     s \<leftarrow> delayMs dv 1 (emit_all [SetField ADCCON3 DIGEN7 1] s);
     Some (wr ADCCON3_GSWTRG 1 s) }"

section \<open>The parts of \<open>APP_Initialize\<close>\<close>

definition sram_config :: u32 where "sram_config = BIT 7 OR push_bit 5 3 OR BIT 4"

definition sram_last :: u32 where "sram_last = 0xE0000000 + 8 * 1024 * 1024 - 2"

definition setup_memory :: "input \<Rightarrow> ('f, 'a) app_scheme \<Rightarrow> ('f, 'a) app_scheme" where
  "setup_memory ins s =
     (let s = emit_all [
            Setup CFGEBIA 0x803FFFFF,
            Setup CFGEBIC (BIT 13 OR BIT 12 OR BIT 9 OR BIT 8 OR BIT 4 OR BIT 1 OR BIT 0),
            Setup EBICS0 0x20000000,
            Setup EBIMSK0 (push_bit 8 0 OR push_bit 5 1 OR push_bit 0 8),
            Setup EBISMT0 (push_bit 24 2 OR 0 OR push_bit 19 2 OR push_bit 16 0 OR push_bit 10 3 OR push_bit 8 1 OR
              push_bit 6 1 OR push_bit 0 6),
            Setup EBISMCON 0] s;
          s = (tick 1 s)\<lparr>pageBuffer := (pageBuffer s)[0 := ucast (ins SRAM_LAST_HALFWORD (clock s))]\<rparr>;
          s = (tick 1 s)\<lparr>pageBuffer := (pageBuffer s)[1 := ucast (ins SRAM_LAST_HALFWORD (clock s))]\<rparr>
      in emit_all [Store16 sram_last 0, Store16 sram_last (ucast sram_config),
           SetField EBISMT0 PAGEMODE 1, Lib PLIB_DMA_Enable] s)"

definition setup_expansion :: "event list" where
  "setup_expansion = [
     Lib (PLIB_PORTS_RemapOutput OUTPUT_FUNC_SDO1 RPD7),
     Lib (PLIB_PORTS_RemapOutput OUTPUT_FUNC_SS1 RPD4),
     Lib (PLIB_PORTS_RemapInput INPUT_FUNC_SDI1 RPD6),
     Lib (PLIB_SPI_MasterEnable SPI_ID_1),
     Lib (PLIB_SPI_PinEnable SPI_ID_1 SPI_PIN_DATA_IN),
     Lib (PLIB_SPI_PinEnable SPI_ID_1 SPI_PIN_SLAVE_SELECT),
     Lib (PLIB_SPI_CommunicationWidthSelect_32BITS SPI_ID_1),
     Lib (PLIB_SPI_SlaveSelectEnable SPI_ID_1),
     Lib (PLIB_SPI_BaudRateSet SPI_ID_1 SYS_CLK_BUS_PERIPHERAL_2 3000000),
     Lib (PLIB_SPI_Enable SPI_ID_1),
     Wr PORTJSET (BIT 1 OR BIT 3),
     Setup PORTDCLR (BIT 4),
     Lib (PLIB_SPI_Disable SPI_ID_1),
     Lib (PLIB_SPI_BaudRateSet SPI_ID_1 SYS_CLK_BUS_PERIPHERAL_2 800000),
     Setup (SPIxSTATCLR SPI_ID_1) 0x40,
     Setup (SPIxCON SPI_ID_1) 0x18130]"

text \<open>The read of \<open>SPI5BUF\<close>, whose value is dropped, is a tick.\<close>

definition setup_display :: "'a hw_scheme \<Rightarrow> 'a hw_scheme" where
  "setup_display s =
     emit_all [
       Lib (PLIB_SPI_BaudRateSet SPI_ID_5 SYS_CLK_BUS_PERIPHERAL_2 800000),
       Setup (SPIxSTATCLR SPI_ID_5) 0x40,
       Setup (SPIxCON SPI_ID_5) 0x18130] (tick 1
     (emit_all [
       Lib (PLIB_PORTS_RemapOutput OUTPUT_FUNC_SDO5 RPB10),
       WrFields IEC5CLR [(SPI5EIE, 1), (SPI5TXIE, 1), (SPI5RXIE, 1)],
       WrFields IFS5CLR_SPI5 [(SPI5EIF, 1), (SPI5TXIF, 1), (SPI5RXIF, 1)],
       Setup (SPIxCON SPI_ID_5) 0] s))"

text \<open>
  The receive and the transmit channel of an audio port, whose code is repeated three times, and the port itself. The trigger
  \<open>DMA_TRIGGER_SPI_6_RECEIVE\<close> is a device constant, an argument.
\<close>

definition receive_channel :: "u32 \<Rightarrow> dma_channel \<Rightarrow> u32 \<Rightarrow> event list" where
  "receive_channel trigger ch buf = [
     Setup (DCHxECON ch) (push_bit 8 trigger OR BIT 4), Setup (DCHxINT ch) 0,
     Wr (DCHxSSA ch) (VirtToPhys buf), Wr (DCHxSSIZ ch) 4, Wr (DCHxDSIZ ch) 8,
     Setup (DCHxCSIZ ch) 8, Setup (DCHxCON ch) (BIT 4 OR 1)]"

definition transmit_channel :: "u32 \<Rightarrow> dma_channel \<Rightarrow> u32 \<Rightarrow> event list" where
  "transmit_channel trigger ch buf = [
     Setup (DCHxECON ch) (push_bit 8 trigger OR BIT 4), Setup (DCHxINT ch) 0,
     Wr (DCHxDSA ch) (VirtToPhys buf), Wr (DCHxSSIZ ch) 8, Wr (DCHxDSIZ ch) 4,
     Setup (DCHxCSIZ ch) 8, Setup (DCHxCON ch) (BIT 4 OR 1)]"

definition audio_port :: "spi_id \<Rightarrow> event list" where
  "audio_port i = [
     Setup (SPIxCON2 i) (BIT 15 OR BIT 9 OR BIT 8 OR BIT 7 OR push_bit 0 1),
     Setup (SPIxCON i) (BIT 7 OR BIT 6 OR BIT 11 OR BIT 10 OR BIT 29 OR BIT 15 OR BIT 16 OR push_bit 2 3 OR push_bit 0 3)]"

definition setup_SPI3 :: "u32 \<Rightarrow> (spi_id \<Rightarrow> u32) \<Rightarrow> event list" where
  "setup_SPI3 trigger buf =
     receive_channel trigger DCH6 (buf SPI_ID_3) @ transmit_channel trigger DCH0 (buf SPI_ID_3) @
     [Lib (PLIB_PORTS_RemapOutput OUTPUT_FUNC_SDO3 RPC13),
      Lib (PLIB_PORTS_RemapInput INPUT_FUNC_SDI3 RPA14),
      Lib (PLIB_PORTS_RemapInput INPUT_FUNC_SS3 RPF12)] @ audio_port SPI_ID_3"

definition setup_SPI4 :: "u32 \<Rightarrow> (spi_id \<Rightarrow> u32) \<Rightarrow> event list" where
  "setup_SPI4 trigger buf =
     receive_channel trigger DCH7 (buf SPI_ID_4) @ transmit_channel trigger DCH3 (buf SPI_ID_4) @
     [Lib (PLIB_PORTS_RemapOutput OUTPUT_FUNC_SDO4 RPD11),
      Lib (PLIB_PORTS_RemapInput INPUT_FUNC_SDI4 RPA15),
      Lib (PLIB_PORTS_RemapInput INPUT_FUNC_SS4 RPB15)] @ audio_port SPI_ID_4"

definition setup_SPI2 :: "event list" where
  "setup_SPI2 = [
     Lib (PLIB_PORTS_RemapOutput OUTPUT_FUNC_SDO2 RPB5),
     Lib (PLIB_PORTS_RemapInput INPUT_FUNC_SDI2 RPB3)]"

definition setup_SPI6 :: "u32 \<Rightarrow> (spi_id \<Rightarrow> u32) \<Rightarrow> event list" where
  "setup_SPI6 trigger buf =
     receive_channel trigger DCH5 (buf SPI_ID_6) @ transmit_channel trigger DCH4 (buf SPI_ID_6) @
     [Lib (PLIB_PORTS_RemapOutput OUTPUT_FUNC_SDO6 RPD5),
      Lib (PLIB_PORTS_RemapInput INPUT_FUNC_SDI6 RPD0),
      Lib (PLIB_PORTS_RemapInput INPUT_FUNC_SS6 RPC14)] @ audio_port SPI_ID_6"

definition setup_UARTs :: "event list" where
  "setup_UARTs = [
     Lib (PLIB_PORTS_RemapInput INPUT_FUNC_U2RX RPB7),
     Lib (PLIB_PORTS_RemapOutput OUTPUT_FUNC_U2TX RPB6),
     Lib (PLIB_INT_VectorPrioritySet INT_VECTOR_UART2_RX 4),
     Lib (PLIB_INT_VectorSubPrioritySet INT_VECTOR_UART2_RX 0),
     Lib (PLIB_INT_SourceEnable INT_SOURCE_USART_2_RECEIVE),
     Lib (PLIB_USART_InitializeOperation USART_ID_2 USART_RECEIVE_FIFO_ONE_CHAR USART_TRANSMIT_FIFO_NOT_FULL
       USART_ENABLE_TX_RX_USED),
     Lib (PLIB_USART_TransmitterEnable USART_ID_2),
     Lib (PLIB_USART_ReceiverEnable USART_ID_2),
     Lib (PLIB_USART_BaudSetAndEnable USART_ID_2 SYS_CLK_BUS_PERIPHERAL_2 31250),
     Lib (PLIB_PORTS_RemapInput INPUT_FUNC_U4RX RPE8),
     Lib (PLIB_PORTS_RemapOutput OUTPUT_FUNC_U4TX RPE9),
     Lib (PLIB_INT_VectorPrioritySet INT_VECTOR_UART4_RX 1),
     Lib (PLIB_INT_VectorSubPrioritySet INT_VECTOR_UART4_RX 0),
     Lib (PLIB_INT_SourceEnable INT_SOURCE_USART_4_RECEIVE),
     Lib (PLIB_USART_InitializeOperation USART_ID_4 USART_RECEIVE_FIFO_ONE_CHAR USART_TRANSMIT_FIFO_NOT_FULL
       USART_ENABLE_TX_RX_USED),
     Lib (PLIB_USART_TransmitterEnable USART_ID_4),
     Lib (PLIB_USART_ReceiverEnable USART_ID_4),
     Lib (PLIB_USART_BaudSetAndEnable USART_ID_4 SYS_CLK_BUS_PERIPHERAL_2 31250)]"

definition setup_timers :: "event list" where
  "setup_timers = [
     Lib (PLIB_TMR_Mode16BitEnable TMR_ID_2),
     Lib (PLIB_TMR_PrescaleSelect TMR_ID_2 TMR_PRESCALE_VALUE_4),
     Lib (PLIB_TMR_Period16BitSet TMR_ID_2 1023),
     Lib (PLIB_TMR_Start TMR_ID_2),
     Lib (PLIB_TMR_Mode16BitEnable TMR_ID_3),
     Lib (PLIB_TMR_PrescaleSelect TMR_ID_3 TMR_PRESCALE_VALUE_64),
     Lib (PLIB_TMR_Period16BitSet TMR_ID_3 (SYS_CLK_BUS_PERIPHERAL_3 div 64 div 1000)),
     Lib (PLIB_TMR_Mode16BitEnable TMR_ID_5),
     Lib (PLIB_TMR_PrescaleSelect TMR_ID_5 TMR_PRESCALE_VALUE_1),
     Lib (PLIB_TMR_Period16BitSet TMR_ID_5 980),
     Lib (PLIB_TMR_Start TMR_ID_5)]"

definition setup_LEDs :: "event list" where
  "setup_LEDs = [
     Lib (PLIB_PORTS_RemapOutput OUTPUT_FUNC_OC8 RPF8),
     Lib (PLIB_PORTS_RemapOutput OUTPUT_FUNC_OC9 RPB2),
     Wr OC8RS 100, Setup OC8R 100, Setup OC8CON 0x8006,
     Wr OC9RS 100, Setup OC9R 100, Setup OC9CON 0x8006,
     Lib (PLIB_PORTS_RemapOutput OUTPUT_FUNC_REFCLKO4 RPD14),
     Osc (PLIB_OSC_ReferenceOscDisable 4)]"

text \<open>Both display resets: the display on the module, and the one on the expansion port.\<close>

definition reset_displays :: "device \<Rightarrow> 'a hw_scheme \<Rightarrow> 'a hw_scheme option" where
  "reset_displays dv s = do {
     s \<leftarrow> delayMs dv 10 s;
     s \<leftarrow> delayMs dv 10 (wr PORTJSET (BIT 8) s);
     s \<leftarrow> delayMs dv 10 (wr PORTJCLR (BIT 1) s);
     Some (wr PORTJSET (BIT 1) s) }"

definition start_displays :: "device \<Rightarrow> ('f, 'a) app_scheme \<Rightarrow> ('f, 'a) app_scheme option" where
  "start_displays dv s = do {
     s \<leftarrow> configureDisplay dv s;
     s \<leftarrow> configureDisplay2 dv s;
     s \<leftarrow> startupSequence dv s;
     s \<leftarrow> setDisplayContrast dv 128 s;
     setDisplayFlip dv 0 s }"

definition released_controls :: "('f, 'a) app_scheme \<Rightarrow> ('f, 'a) app_scheme" where
  "released_controls s =
     s\<lparr>halfState := map (\<lambda>h. h\<lparr>encA := 1, encB := 1, encSW := 1, potSW := 1, lastEncA := 1\<rparr>) (halfState s)\<rparr>"

text \<open>The ports and channels, up to the start of the audio transfer, and what follows it.\<close>

definition setup_ports ::
    "('f, 'd, 'm) board \<Rightarrow> ('f, 'a) app_scheme \<Rightarrow> ('f, 'a) app_scheme" where
  "setup_ports b s =
     (let trigger = DMA_TRIGGER_SPI_6_RECEIVE b;
          s = emit_all [Lib (PLIB_INT_SourceDisable INT_SOURCE_DMA_0), Lib pic32_flush_dcache]
                (s\<lparr>app_state := APP_STATE_INIT\<rparr>);
          s = setup_memory (inp (audio_env b)) s;
          s = setup_display (emit_all setup_expansion s)
      in emit_all (setup_SPI3 trigger (spi_buf_addr b) @ setup_SPI4 trigger (spi_buf_addr b) @ setup_SPI2 @
           setup_SPI6 trigger (spi_buf_addr b)) s)"

definition APP_Initialize ::
    "('f, 'd, 'm) board \<Rightarrow> ('f, 'a) app_scheme \<Rightarrow> ('f, 'a) app_scheme option" where
  "APP_Initialize b s = do {
     let e = audio_env b;
     s \<leftarrow> setupAudioDMAs (dev e) (nat k_framesPerBlock) (blocks_addr b) (setup_ports b s);
     s \<leftarrow> configureADC (dev e) (inp e) (emit_all (setup_UARTs @ setup_timers @ setup_LEDs) s);
     s \<leftarrow> reset_displays (dev e) s;
     s \<leftarrow> start_displays (dev e) (readAndTriggerADCs (dev e) (inp e) s);
     let (_, s) = ReadCalibrationFromSettings (double_unit b) (fpu e) (nvm_settings b) s;
     s \<leftarrow> delayMs (dev e) 1 (emit_all [Lib (PLIB_SPI_Disable SPI_ID_1), Setup PORTHSET (BIT 11)] s);
     s \<leftarrow> ConfigureCodec (I2C_WRITE_bit b) (dev e) s;
     Some (released_controls
       (emit_all [SetField LATB BIT11 1, SetField TRISB BIT11 0] (configureI2CSlave s))) }"

section \<open>The regions of the DMA channels\<close>

text \<open>The memory region of a channel as its controller has it after the events \<open>es\<close>: address and size.\<close>

definition destination :: "event list \<Rightarrow> dma_channel \<Rightarrow> nat \<times> nat" where
  "destination es ch = (unat (last (sent_on (DCHxDSA ch) es)), unat (last (sent_on (DCHxDSIZ ch) es)))"

definition source_region :: "event list \<Rightarrow> dma_channel \<Rightarrow> nat \<times> nat" where
  "source_region es ch = (unat (last (sent_on (DCHxSSA ch) es)), unat (last (sent_on (DCHxSSIZ ch) es)))"

lemma unat_VirtToPhys: "unat (VirtToPhys a) = unat a mod 2 ^ 29"
proof -
  have "VirtToPhys a = take_bit 29 a"
    by (simp add: VirtToPhys_def take_bit_eq_mask mask_eq_exp_minus_1 and.commute)
  then show ?thesis by (simp add: take_bit_eq_mod unat_mod)
qed

lemma VirtToPhys_offset:
  assumes "unat (VirtToPhys a) + m < 2 ^ 29"
  shows "unat (VirtToPhys (a + of_nat m)) = unat (VirtToPhys a) + m"
proof -
  have "unat (a + of_nat m) = (unat a + m) mod 2 ^ 32"
    using assms by (simp add: unat_word_ariths unat_of_nat mod_simps)
  then have "unat (VirtToPhys (a + of_nat m)) = (unat a + m) mod 2 ^ 29"
    unfolding unat_VirtToPhys by (simp add: mod_mod_cancel)
  also have "\<dots> = (unat a mod 2 ^ 29 + m) mod 2 ^ 29" by (simp add: mod_simps)
  also have "\<dots> = unat a mod 2 ^ 29 + m" using assms by (simp add: unat_VirtToPhys)
  finally show ?thesis by (simp add: unat_VirtToPhys)
qed

lemma clear_rows_length [simp]: "length (clear_rows n k rows) = length rows"
  by (simp add: clear_rows_def)

lemma clear_rows_row: "xs \<in> set (clear_rows n k rows) \<Longrightarrow> \<exists>ys\<in>set rows. length xs = length ys"
  by (auto simp: clear_rows_def)

lemma clear_all_rows:
  assumes "length rows = 3" and "\<forall>xs\<in>set rows. length xs = 32" and "32 * (k + 3) \<le> n"
  shows "clear_rows n k rows = replicate 3 (replicate 32 0)"
proof (rule nth_equalityI)
  show "length (clear_rows n k rows) = length (replicate 3 (replicate 32 (0 :: int)))" using assms(1) by simp
next
  fix i assume "i < length (clear_rows n k rows)"
  then have i: "i < 3" "length (rows ! i) = 32" using assms(1,2) by simp_all
  then have "clear_rows n k rows ! i = map (\<lambda>j. if 32 * (k + i) + j < n then 0 else rows ! i ! j) [0..<32]"
    using assms(1) by (simp add: clear_rows_def)
  also have "\<dots> = map (\<lambda>_. 0) [0..<32]" using i(1) assms(3) by (intro map_cong) auto
  finally show "clear_rows n k rows ! i = replicate 3 (replicate 32 0) ! i"
    using i(1) by (simp add: map_replicate_const)
qed

definition audio_channels :: "dma_channel list" where "audio_channels = [DCH6, DCH0, DCH7, DCH3, DCH5, DCH4]"

definition region_writes :: "nat \<Rightarrow> u32 \<Rightarrow> event list" where
  "region_writes n a =
     (let r = (\<lambda>k. VirtToPhys (a + of_nat (k * (16 * n)))); size = of_nat (16 * n)
      in [Wr (DCHxDSA DCH5) (r 0), Wr (DCHxDSIZ DCH5) size, Wr (DCHxDSA DCH6) (r 1), Wr (DCHxDSIZ DCH6) size,
          Wr (DCHxDSA DCH7) (r 2), Wr (DCHxDSIZ DCH7) size, Wr (DCHxSSA DCH3) (r 3), Wr (DCHxSSIZ DCH3) size,
          Wr (DCHxSSA DCH0) (r 4), Wr (DCHxSSIZ DCH0) size, Wr (DCHxSSA DCH4) (r 5), Wr (DCHxSSIZ DCH4) size])"

definition DMA_events :: "nat \<Rightarrow> u32 \<Rightarrow> event list" where
  "DMA_events n a = map (\<lambda>ch. Wr (DCHxECONSET ch) (BIT 6)) audio_channels @ Wr SPI6CONCLR (BIT 15) # region_writes n a @
     map (\<lambda>ch. Wr (DCHxCONSET ch) (BIT 7)) audio_channels @ [Wr SPI6CONSET (BIT 15)]"

lemma setupAudioDMAs_effect:
  fixes s :: "('f, 'a) app_scheme"
  assumes "responsive dv"
  shows "\<exists>t. setupAudioDMAs dv n a s = Some (clear_blocks (24 * n) (s\<lparr>clock := t, trace := trace s @ DMA_events n a\<rparr>))"
proof -
  let ?s = "emit_all (map (\<lambda>ch. Wr (DCHxECONSET ch) (BIT 6)) audio_channels) s"
  have "\<forall>f\<in>set (map CHBUSY audio_channels). busy_flag f" by (simp add: audio_channels_def)
  from wait_while_any_returns [OF assms this, of ?s] obtain t
    where "wait_while_any dv (map CHBUSY audio_channels) ?s = Some (?s\<lparr>clock := t\<rparr>)"
    by (auto simp: audio_channels_def later_def)
  moreover have "6 * (2 * n) * 8 div 4 = 24 * n" by simp
  ultimately show ?thesis
    by (intro exI [of _ t])
      (simp add: setupAudioDMAs_def audio_channels_def DMA_events_def region_writes_def Let_def emit_all_def clear_blocks_def
        algebra_simps)
qed

text \<open>
  C7: The DMA channels of the audio ports tile the audio blocks: after \<open>setupAudioDMAs\<close> the three input channels write, and the three
  output channels read, six adjacent regions of \<open>16 * n\<close> bytes that start at the physical address of the blocks, so that none
  overlaps another or leaves the object; each channel was aborted before and is enabled after its registers are
  written, and the port whose clock triggers them all is off in between. With the firmware's eight frames the
  regions are the rows of \<open>in\<close> and \<open>out\<close> (32 words each) and every word of them has been cleared.
\<close>

theorem audio_DMA_regions:
  fixes s :: "('f, 'a) app_scheme"
  assumes "responsive dv" and "unat (VirtToPhys a) + 96 * n < 2 ^ 29" and "audio_blocks s"
  shows "\<exists>s' es regs. setupAudioDMAs dv n a s = Some s' \<and> trace s' = trace s @ es \<and>
     map (destination es) [DCH5, DCH6, DCH7] @ map (source_region es) [DCH3, DCH0, DCH4] =
       map (\<lambda>k. (unat (VirtToPhys a) + k * (16 * n), 16 * n)) [0..<6] \<and>
     es = map (\<lambda>ch. Wr (DCHxECONSET ch) (BIT 6)) audio_channels @ Wr SPI6CONCLR (BIT 15) # regs @
       map (\<lambda>ch. Wr (DCHxCONSET ch) (BIT 7)) audio_channels @ [Wr SPI6CONSET (BIT 15)] \<and>
     set audio_channels = {DCH0, DCH3, DCH4, DCH5, DCH6, DCH7} \<and>
     (n = 8 \<longrightarrow> blocks_in s' = replicate 3 (replicate 32 0) \<and> blocks_out s' = replicate 3 (replicate 32 0))"
proof -
  obtain t where t: "setupAudioDMAs dv n a s = Some (clear_blocks (24 * n) (s\<lparr>clock := t, trace := trace s @ DMA_events n a\<rparr>))"
    using setupAudioDMAs_effect [OF assms(1)] by blast
  have adr: "unat (VirtToPhys (a + of_nat (k * (16 * n)))) = unat (VirtToPhys a) + k * (16 * n)" if "k < 6" for k
  proof (rule VirtToPhys_offset)
    have "k * (16 * n) \<le> 6 * (16 * n)" using that by (intro mult_right_mono) simp_all
    then show "unat (VirtToPhys a) + k * (16 * n) < 2 ^ 29" using assms(2) by linarith
  qed
  have size: "unat (of_nat (16 * n) :: u32) = 16 * n" unfolding unat_of_nat using assms(2) by (simp add: take_bit_nat_eq_self)
  have six: "[0..<6] = [0 :: nat, 1, 2, 3, 4, 5]" by (simp add: upt_rec)
  have regions: "map (destination (DMA_events n a)) [DCH5, DCH6, DCH7] @ map (source_region (DMA_events n a)) [DCH3, DCH0, DCH4] =
      map (\<lambda>k. (unat (VirtToPhys a) + k * (16 * n), 16 * n)) [0..<6]"
    unfolding six using adr [of 0] adr [of 1] adr [of 2] adr [of 3] adr [of 4] adr [of 5] size
    by (simp add: DMA_events_def region_writes_def destination_def source_region_def audio_channels_def Let_def)
  have "blocks_in (clear_blocks 192 s) = replicate 3 (replicate 32 0) \<and> blocks_out (clear_blocks 192 s) = replicate 3 (replicate 32 0)"
    using assms(3) by (simp add: clear_blocks_def audio_blocks_def clear_all_rows)
  then have "n = 8 \<longrightarrow> blocks_in (clear_blocks (24 * n) (s\<lparr>clock := t, trace := trace s @ DMA_events n a\<rparr>)) = replicate 3 (replicate 32 0) \<and>
      blocks_out (clear_blocks (24 * n) (s\<lparr>clock := t, trace := trace s @ DMA_events n a\<rparr>)) = replicate 3 (replicate 32 0)"
    by (simp add: clear_blocks_def)
  moreover have "set audio_channels = {DCH0, DCH3, DCH4, DCH5, DCH6, DCH7}" by (auto simp: audio_channels_def)
  moreover have "trace (clear_blocks (24 * n) (s\<lparr>clock := t, trace := trace s @ DMA_events n a\<rparr>)) = trace s @ DMA_events n a"
    by (simp add: clear_blocks_def)
  ultimately show ?thesis
    using t regions
    by (intro exI [of _ "clear_blocks (24 * n) (s\<lparr>clock := t, trace := trace s @ DMA_events n a\<rparr>)"]
        exI [of _ "DMA_events n a"] exI [of _ "region_writes n a"] conjI) (simp_all add: DMA_events_def)
qed

lemma audio_DMA_regions_witness:
  "\<exists>s' es. setupAudioDMAs ready_device 8 0x80010000 demo_app = Some s' \<and> blocks_in s' ! 2 ! 31 = 0 \<and>
     trace s' = es \<and> source_region es DCH4 = (0x10280, 128)"
proof -
  have "VirtToPhys 0x80010000 = 0x10000" by (simp add: VirtToPhys_def)
  moreover have "[0..<6] = [0 :: nat, 1, 2, 3, 4, 5]" by (simp add: upt_rec)
  ultimately show ?thesis
    using audio_DMA_regions [OF responsive_ready_device _ demo_blocks, of "0x80010000" 8] by auto
qed

section \<open>What the set-up leaves\<close>

text \<open>The library calls of a run.\<close>

definition lib_calls :: "event list \<Rightarrow> plib_call list" where
  "lib_calls es = concat (map (\<lambda>ev. case ev of Lib c \<Rightarrow> [c] | _ \<Rightarrow> []) es)"

lemma lib_calls_simps [simp]:
  "lib_calls [] = []" "lib_calls (es @ es') = lib_calls es @ lib_calls es'"
  "lib_calls (Lib c # es) = c # lib_calls es" "lib_calls (Wr r v # es) = lib_calls es"
  "lib_calls (WrMask mr k # es) = lib_calls es" "lib_calls (Setup sr v # es) = lib_calls es"
  "lib_calls (WrFields sr fs # es) = lib_calls es" "lib_calls (SetField sr f v # es) = lib_calls es"
  "lib_calls (Store16 w h # es) = lib_calls es" "lib_calls (Osc oc # es) = lib_calls es" "lib_calls (Port pc # es) = lib_calls es"
  by (simp_all add: lib_calls_def)

lemma lib_calls_I2C [simp]: "lib_calls (packet i bs @ es) = lib_calls es"
  by (induction bs) (simp_all add: lib_calls_def packet_def sends_def)

lemma lib_calls_concat: "(\<And>x. x \<in> set xs \<Longrightarrow> lib_calls (f x) = []) \<Longrightarrow> lib_calls (concat (map f xs)) = []"
  by (induction xs) simp_all

lemma lib_calls_replicate [simp]: "lib_calls es = [] \<Longrightarrow> lib_calls (concat (replicate n es)) = []"
  by (induction n) simp_all

lemma lib_calls_delay [simp]: "lib_calls (delay_events n) = []"
  by (simp add: delay_events_def timer_restart_def)

lemma lib_calls_send [simp]: "lib_calls (send_events p c) = []"
  by (cases p) (simp_all add: send_events_def)

lemma lib_calls_DMA [simp]: "lib_calls (DMA_events n a) = []"
  by (simp add: DMA_events_def region_writes_def audio_channels_def Let_def)

text \<open>The port bits that the parts of the set-up drive.\<close>

lemma drives_I2C [simp]: "list_all drives_outputs (packet i bs)"
  by (simp add: packet_def sends_def list_all_iff)

lemma drives_concat [simp]:
  "list_all drives_outputs (concat (map f xs)) \<longleftrightarrow> (\<forall>x\<in>set xs. list_all drives_outputs (f x))"
  "list_all drives_outputs es \<Longrightarrow> list_all drives_outputs (concat (replicate n es))"
  by (auto simp: list_all_iff)

lemma drives_delay [simp]: "list_all drives_outputs (delay_events n)"
  by (auto simp: delay_events_def timer_restart_def list_all_iff)

lemma drives_send [simp]: "list_all drives_outputs (send_events p c)"
  by (cases p) (simp_all add: send_events_def BIT_def)

lemma drives_DMA [simp]: "list_all drives_outputs (DMA_events n a)"
  by (simp add: DMA_events_def region_writes_def audio_channels_def Let_def)

lemma drives_parts [simp]:
  "list_all drives_outputs setup_expansion" "list_all drives_outputs (setup_SPI3 t f)" "list_all drives_outputs (setup_SPI4 t f)"
  "list_all drives_outputs setup_SPI2" "list_all drives_outputs (setup_SPI6 t f)" "list_all drives_outputs setup_UARTs"
  "list_all drives_outputs setup_timers" "list_all drives_outputs setup_LEDs"
  by (simp_all add: setup_expansion_def setup_SPI3_def setup_SPI4_def setup_SPI2_def setup_SPI6_def
      receive_channel_def transmit_channel_def audio_port_def setup_UARTs_def setup_timers_def setup_LEDs_def BIT_def)

text \<open>
  The state while the set-up runs: the invariant of the display loop, message rows that end in a NUL, and no audio
  service yet. \<open>configures cs s s'\<close>: a part of the set-up led from \<open>s\<close> to \<open>s'\<close> with the library calls \<open>cs\<close>, and drove only outputs.
\<close>

definition starting :: "('f, 'a) app_scheme \<Rightarrow> bool" where
  "starting s \<longleftrightarrow> loop_inv s \<and> (\<forall>row\<in>set (message4x16 s). length row = 17 \<and> row ! 16 = 0) \<and>
     app_state s = APP_STATE_INIT \<and> \<not> doServiceAudio s"

definition configures :: "plib_call list \<Rightarrow> ('f, 'a) app_scheme \<Rightarrow> ('f, 'a) app_scheme \<Rightarrow> bool" where
  "configures cs s s' \<longleftrightarrow> starting s' \<and> (\<exists>es. trace s' = trace s @ es \<and> lib_calls es = cs \<and> list_all drives_outputs es)"

lemma loop_inv_time [simp]: "loop_inv (s\<lparr>clock := t\<rparr>) = loop_inv s" "loop_inv (s\<lparr>trace := tr\<rparr>) = loop_inv s"
  by (simp_all add: loop_inv_def app_inv_def audio_blocks_def kept_defs)

lemma starting_time [simp]: "starting (s\<lparr>clock := t\<rparr>) = starting s" "starting (s\<lparr>trace := tr\<rparr>) = starting s"
  by (simp_all add: starting_def)

lemma configures_trans: "configures cs s s' \<Longrightarrow> configures cs' s' s'' \<Longrightarrow> configures (cs @ cs') s s''"
  unfolding configures_def by (metis append_assoc lib_calls_simps(2) list_all_append)

lemma configures_events:
  "starting s \<Longrightarrow> list_all drives_outputs es \<Longrightarrow> configures (lib_calls es) s (s\<lparr>clock := t, trace := trace s @ es\<rparr>)"
  by (auto simp: configures_def)

lemma configures_emits:
  assumes "emits f es" and "starting s" and "lib_calls es = cs" and "list_all drives_outputs es"
  shows "\<exists>s'. f s = Some s' \<and> configures cs s s'"
  using emits_update [OF assms(1), of s] configures_events [OF assms(2,4)] assms(3) by blast

lemma configures_emit_all:
  "starting s \<Longrightarrow> list_all drives_outputs es \<Longrightarrow> configures (lib_calls es) s (emit_all es s)"
  using configures_events [of s es "clock s"] by (simp add: emit_all_def)

lemma configures_state: "trace s' = trace s \<Longrightarrow> starting s' \<Longrightarrow> configures [] s s'"
  by (auto simp: configures_def)

lemma configuresD: "configures cs s s' \<Longrightarrow> starting s'"
  by (simp add: configures_def)

text \<open>The parts that do more than emit events.\<close>

lemma DMAs_configure:
  fixes s :: "('f, 'a) app_scheme"
  assumes "responsive dv" and "starting s"
  shows "\<exists>s'. setupAudioDMAs dv n a s = Some s' \<and> configures [] s s'"
proof -
  obtain t where t: "setupAudioDMAs dv n a s = Some (clear_blocks (24 * n) (s\<lparr>clock := t, trace := trace s @ DMA_events n a\<rparr>))"
    using setupAudioDMAs_effect [OF assms(1)] by blast
  have rows: "audio_blocks (clear_blocks m u)" if "audio_blocks u" for m and u :: "('f, 'a) app_scheme"
    using that by (auto simp: audio_blocks_def clear_blocks_def dest!: clear_rows_row)
  have frame: "app_inv (u\<lparr>blocks_in := x, blocks_out := y\<rparr>)" if "app_inv u" "audio_blocks (u\<lparr>blocks_in := x, blocks_out := y\<rparr>)"
    for x y and u :: "('f, 'a) app_scheme"
    using that by (simp add: app_inv_def kept_defs)
  have "app_inv (clear_blocks m u)" if "app_inv u" for m and u :: "('f, 'a) app_scheme"
    using frame [OF that] rows that by (simp add: clear_blocks_def app_inv_def)
  then have "starting (clear_blocks m u)" if "starting u" for m and u :: "('f, 'a) app_scheme"
    using that by (simp add: starting_def loop_inv_def) (simp add: clear_blocks_def)
  from this [of "s\<lparr>clock := t, trace := trace s @ DMA_events n a\<rparr>" "24 * n"]
  have "configures [] s (clear_blocks (24 * n) (s\<lparr>clock := t, trace := trace s @ DMA_events n a\<rparr>))"
    using assms(2) unfolding configures_def
    by (intro conjI exI [of _ "DMA_events n a"]) (simp_all add: clear_blocks_def)
  with t show ?thesis by blast
qed

lemma configureADC_configure:
  fixes s :: "('f, 'a) app_scheme"
  assumes "responsive dv" and "starting s"
  shows "\<exists>s'. configureADC dv ins s = Some s' \<and> configures [] s s'"
proof -
  let ?v = "ins DEVADC7 (Suc (clock s))"
  let ?r = "\<lambda>s :: ('f, 'a) app_scheme. do {
     s \<leftarrow> wait_until dv ADC_BGVRRDY s;
     s \<leftarrow> wait_while dv ADC_REFFLT s;
     s \<leftarrow> wait_until dv ADC_WKRDY7 (emit_all [SetField ADCANCON ANEN7 1] s);
     s \<leftarrow> delayMs dv 1 (emit_all [SetField ADCCON3 DIGEN7 1] s);
     Some (wr ADCCON3_GSWTRG 1 s) }"
  have r: "emits ?r ([] @ [] @ [SetField ADCANCON ANEN7 1] @ [] @ [SetField ADCCON3 DIGEN7 1] @ delay_events 1 @ [Wr ADCCON3_GSWTRG 1])"
    by (rule emits_cong) (rule emits_intros assms(1) | simp)+
  obtain es where c: "configureADC dv ins s = ?r (s\<lparr>clock := Suc (clock s), trace := trace s @ es\<rparr>)" "lib_calls es = []"
      "list_all drives_outputs es"
    by (simp add: configureADC_def emit_all_def tick_def)
  have s1: "configures [] s (s\<lparr>clock := Suc (clock s), trace := trace s @ es\<rparr>)"
    using configures_events [OF assms(2) c(3)] c(2) by simp
  obtain s' where "?r (s\<lparr>clock := Suc (clock s), trace := trace s @ es\<rparr>) = Some s'"
      "configures [] (s\<lparr>clock := Suc (clock s), trace := trace s @ es\<rparr>) s'"
    using configures_emits [OF r configuresD [OF s1]] by auto
  with c s1 show ?thesis by (metis configures_trans append_Nil)
qed

lemma displays_configure:
  fixes s :: "('f, 'a) app_scheme"
  assumes "responsive dv" and "starting s"
  shows "\<exists>s'. start_displays dv s = Some s' \<and> configures [] s s'"
proof -
  note e = configures_emits
  obtain s1 where s1: "configureDisplay dv s = Some s1" "configures [] s s1"
    using e [OF emits_configureDisplay [OF assms(1)] assms(2)] by (auto simp: lib_calls_concat BIT_def)
  obtain s2 where s2: "configureDisplay2 dv s1 = Some s2" "configures [] s1 s2"
    using e [OF emits_configureDisplay2 [OF assms(1)] configuresD [OF s1(2)]] by (auto simp: lib_calls_concat BIT_def)
  let ?s3 = "s2\<lparr>screen := replicate 128 0\<rparr>"
  have "starting ?s3"
    using configuresD [OF s2(2)] by (simp add: starting_def loop_inv_def app_inv_def audio_blocks_def kept_defs)
  then have s3: "configures [] s2 ?s3" by (intro configures_state) simp_all
  have len: "512 \<le> length (frame_bytes (screen ?s3))" by (simp add: frame_bytes_def)
  obtain s4 where s4: "copyToDisplay dv (frame_bytes (screen ?s3)) ?s3 = Some s4" "configures [] ?s3 s4"
    using e [OF emits_copyToDisplay [OF assms(1) len] configuresD [OF s3]]
    by (auto simp: lib_calls_concat copy_events_def BIT_def)
  obtain s5 where s5: "delayMs dv 17 s4 = Some s5" "configures [] s4 s5"
    using e [OF emits_delayMs [OF assms(1)] configuresD [OF s4(2)]] by auto
  obtain s6 where s6: "setDisplayContrast dv 128 s5 = Some s6" "configures [] s5 s6"
    using e [OF emits_setDisplayContrast [OF assms(1)] configuresD [OF s5(2)]] by (auto simp: BIT_def)
  obtain s7 where s7: "setDisplayFlip dv 0 s6 = Some s7" "configures [] s6 s7"
    using e [OF emits_setDisplayFlip [OF assms(1)] configuresD [OF s6(2)], of 0] by (auto simp: BIT_def)
  have "configures ([] @ [] @ [] @ [] @ [] @ [] @ []) s s7"
    using s1(2) s2(2) s3 s4(2) s5(2) s6(2) s7(2) by (blast intro: configures_trans)
  moreover have "startupSequence dv s2 = Some s5"
    using s4(1) s5(1) by (simp add: startupSequence_def)
  ultimately show ?thesis
    using s1(1) s2(1) s6(1) s7(1) by (simp add: start_displays_def)
qed

lemma setup_memory_configures:
  assumes "starting s" shows "configures [PLIB_DMA_Enable] s (setup_memory ins s)"
proof -
  have p: "loop_inv (u\<lparr>pageBuffer := xs\<rparr>) = loop_inv u" for xs and u :: "('a, 'b) app_scheme"
    by (simp add: loop_inv_def app_inv_def audio_blocks_def kept_defs)
  then have "starting (u\<lparr>pageBuffer := xs\<rparr>) = starting u" for xs and u :: "('a, 'b) app_scheme"
    by (simp add: starting_def)
  then have "configures [PLIB_DMA_Enable] s (s\<lparr>clock := t, pageBuffer := xs, trace := trace s @ es\<rparr>)"
    if "lib_calls es = [PLIB_DMA_Enable]" "list_all drives_outputs es" for es t xs
    using assms that by (auto simp: configures_def)
  note this [simp]
  show ?thesis by (simp add: setup_memory_def emit_all_def tick_def Let_def)
qed

lemma setup_ports_configure:
  fixes s :: "('f, 'a) app_scheme"
  assumes "starting s"
  shows "configures ([PLIB_INT_SourceDisable INT_SOURCE_DMA_0, pic32_flush_dcache, PLIB_DMA_Enable] @ lib_calls setup_expansion @
     [PLIB_PORTS_RemapOutput OUTPUT_FUNC_SDO5 RPB10, PLIB_SPI_BaudRateSet SPI_ID_5 SYS_CLK_BUS_PERIPHERAL_2 800000] @
     lib_calls (setup_SPI3 t f @ setup_SPI4 t f @ setup_SPI2 @ setup_SPI6 t f)) s (setup_ports b s)"
proof -
  let ?s1 = "emit_all [Lib (PLIB_INT_SourceDisable INT_SOURCE_DMA_0), Lib pic32_flush_dcache] (s\<lparr>app_state := APP_STATE_INIT\<rparr>)"
  have "s\<lparr>app_state := APP_STATE_INIT\<rparr> = s" using assms by (simp add: starting_def)
  then have s1: "configures [PLIB_INT_SourceDisable INT_SOURCE_DMA_0, pic32_flush_dcache] s ?s1"
    using configures_emit_all [OF assms, of "[Lib (PLIB_INT_SourceDisable INT_SOURCE_DMA_0), Lib pic32_flush_dcache]"] by simp
  let ?s2 = "setup_memory (inp (audio_env b)) ?s1"
  have s2: "configures [PLIB_DMA_Enable] ?s1 ?s2" by (rule setup_memory_configures [OF configuresD [OF s1]])
  let ?s3 = "emit_all setup_expansion ?s2"
  have s3: "configures (lib_calls setup_expansion) ?s2 ?s3" by (rule configures_emit_all [OF configuresD [OF s2]]) simp
  have display: "configures [PLIB_PORTS_RemapOutput OUTPUT_FUNC_SDO5 RPB10,
      PLIB_SPI_BaudRateSet SPI_ID_5 SYS_CLK_BUS_PERIPHERAL_2 800000] u (setup_display u)"
    if "starting u" for u :: "('f, 'a) app_scheme"
    using that by (simp add: configures_def setup_display_def emit_all_def tick_def)
  let ?es = "setup_SPI3 (DMA_TRIGGER_SPI_6_RECEIVE b) (spi_buf_addr b) @ setup_SPI4 (DMA_TRIGGER_SPI_6_RECEIVE b) (spi_buf_addr b) @
    setup_SPI2 @ setup_SPI6 (DMA_TRIGGER_SPI_6_RECEIVE b) (spi_buf_addr b)"
  let ?s4 = "setup_display ?s3"
  have s4: "configures [PLIB_PORTS_RemapOutput OUTPUT_FUNC_SDO5 RPB10,
      PLIB_SPI_BaudRateSet SPI_ID_5 SYS_CLK_BUS_PERIPHERAL_2 800000] ?s3 ?s4"
    by (rule display [OF configuresD [OF s3]])
  have "lib_calls (setup_SPI3 t f @ setup_SPI4 t f @ setup_SPI2 @ setup_SPI6 t f) = lib_calls ?es"
    by (simp add: setup_SPI3_def setup_SPI4_def setup_SPI2_def setup_SPI6_def receive_channel_def transmit_channel_def audio_port_def)
  then have s5: "configures (lib_calls (setup_SPI3 t f @ setup_SPI4 t f @ setup_SPI2 @ setup_SPI6 t f)) ?s4 (emit_all ?es ?s4)"
    using configures_emit_all [OF configuresD [OF s4], of ?es] by (simp del: lib_calls_simps)
  from configures_trans [OF s1 configures_trans [OF s2 configures_trans [OF s3 configures_trans [OF s4 s5]]]]
  show ?thesis by (simp add: setup_ports_def Let_def)
qed

lemma ADCs_configure:
  assumes "env_ok e" and "starting s" shows "configures [] s (readAndTriggerADCs (dev e) (inp e) s)"
proof -
  let ?s = "readAndTriggerADCs (dev e) (inp e) s"
  have "app_inv s" using assms(2) by (simp add: starting_def loop_inv_def)
  from serviced_adcs [OF assms(1) this] have u: "app_inv ?s" "drawing ?s = drawing s" by (simp_all add: serviced_defs)
  then have "loop_inv ?s" "message4x16 ?s = message4x16 s"
    using assms(2) by (auto simp: starting_def drawing_def intro: loop_inv_drawing)
  moreover have "app_state ?s = app_state s" "doServiceAudio ?s = doServiceAudio s"
    "\<exists>es. trace ?s = trace s @ es \<and> lib_calls es = [] \<and> list_all drives_outputs es"
    by (auto simp: readAndTriggerADCs_def poll_flag_def Let_def wr_def emit_def tick_def)
  ultimately show ?thesis using assms(2) by (simp add: configures_def starting_def)
qed

lemma strncpy16_row:
  assumes "length row = 17" and "row ! 16 = 0"
  shows "length (strncpy16 row msg) = 17" and "strncpy16 row msg ! 16 = 0" and "0 \<in> set (strncpy16 row msg)"
proof -
  let ?str = "take 16 (takeWhile (\<lambda>c. c \<noteq> 0) msg)"
  have len: "length (?str @ replicate (16 - length ?str) 0) = 16" by simp
  show l: "length (strncpy16 row msg) = 17" using assms(1) by (simp add: strncpy16_def Let_def)
  have "strncpy16 row msg ! 16 = drop 16 row ! 0"
    using len unfolding strncpy16_def Let_def append_assoc [symmetric] nth_append by simp
  then show z: "strncpy16 row msg ! 16 = 0" using assms by simp
  show "0 \<in> set (strncpy16 row msg)" using nth_mem [of 16 "strncpy16 row msg"] z l by simp
qed

lemma message_starting:
  assumes "starting s" shows "starting (displayMessage4x16 a b c d s)"
proof -
  obtain r0 r1 r2 r3 where rows: "message4x16 s = [r0, r1, r2, r3]"
    using assms by (auto simp: starting_def loop_inv_def length_Suc_conv numeral_eq_Suc)
  have "length r0 = 17 \<and> r0 ! 16 = 0" "length r1 = 17 \<and> r1 ! 16 = 0" "length r2 = 17 \<and> r2 ! 16 = 0" "length r3 = 17 \<and> r3 ! 16 = 0"
    using assms rows by (simp_all add: starting_def)
  note new = strncpy16_row [OF conjunct1 conjunct2, OF this(1) this(1)] strncpy16_row [OF conjunct1 conjunct2, OF this(2) this(2)]
    strncpy16_row [OF conjunct1 conjunct2, OF this(3) this(3)] strncpy16_row [OF conjunct1 conjunct2, OF this(4) this(4)]
  have "app_inv (s\<lparr>displayMode := m, message4x16 := xs\<rparr>) = app_inv s" for m xs
    by (simp add: app_inv_def audio_blocks_def kept_defs)
  with assms new show ?thesis
    by (simp add: starting_def loop_inv_def displayMessage4x16_def rows)
qed

lemma calibration_starting:
  assumes "starting s" and "ReadCalibrationFromSettings dp fl nvm s = (st, s')"
  shows "configures [] s s'"
proof -
  have keep: "starting (u\<lparr>calibration := c, inputCalibrations := d\<rparr>)" if "starting u" for c d and u :: "('a, 'b) app_scheme"
    using that by (simp add: starting_def loop_inv_def app_inv_def audio_blocks_def kept_defs)
  define u where "u = (if fst (CheckValidCalibration True (unless_wiped nvm)) then s
    else displayMessage4x16 (fst bad_message) (snd bad_message) [0] [0] s)"
  have "starting u" "trace u = trace s"
    using assms(1) by (simp_all add: u_def message_starting) (simp add: displayMessage4x16_def)
  moreover obtain c d where "s' = u\<lparr>calibration := c, inputCalibrations := d\<rparr>"
    using assms(2) by (auto simp: ReadCalibrationFromSettings_def u_def Let_def split_beta split: if_splits)
  ultimately show ?thesis using keep by (intro configures_state) simp_all
qed

lemma packets_configure:
  fixes s :: "('f, 'a) app_scheme"
  assumes "responsive dv" and "good_bus I2C_ID_2 dv" and "starting s"
  shows "\<exists>s'. fold_opt (\<lambda>(r, v). SendPacket dv [codec_address w, r, v]) rs s = Some s' \<and> configures [] s s'"
  using assms(3)
proof (induction rs arbitrary: s)
  case Nil
  then show ?case by (simp add: configures_def)
next
  case (Cons rv rs)
  obtain r v where rv: "rv = (r, v)" by force
  obtain t where t: "SendPacket dv [codec_address w, r, v] s =
      Some (s\<lparr>clock := t, trace := trace s @ packet I2C_ID_2 [codec_address w, r, v]\<rparr>)"
    using SendPacket_does [OF assms(1), of "[codec_address w, r, v]" s] assms(2) by auto
  let ?s = "s\<lparr>clock := t, trace := trace s @ packet I2C_ID_2 [codec_address w, r, v]\<rparr>"
  have c: "configures [] s ?s"
    using configures_events [OF Cons.prems, of "packet I2C_ID_2 [codec_address w, r, v]"] lib_calls_I2C [of _ _ "[]"] by simp
  obtain s' where "fold_opt (\<lambda>(r, v). SendPacket dv [codec_address w, r, v]) rs ?s = Some s'" "configures [] ?s s'"
    using Cons.IH [OF configuresD [OF c]] by blast
  moreover from this(2) c have "configures [] s s'" using configures_trans [of "[]" s ?s "[]" s'] by simp
  ultimately show ?case using t by (simp add: rv)
qed

lemma codec_configure:
  fixes s :: "('f, 'a) app_scheme"
  assumes "responsive dv" and "good_bus I2C_ID_2 dv" and "starting s"
  shows "\<exists>s'. ConfigureCodec w dv s = Some s' \<and> configures [] s s'"
proof -
  define r :: u32 where "r = of_nat (SYS_CLK_BUS_PERIPHERAL_2 div (2 * I2C_CLOCK_FREQ) - 1)"
  let ?s1 = "emit_all [Wr I2C2BRG r, Wr I2C2CON (BIT 15)] s"
  have s1: "configures [] s ?s1" using configures_emit_all [OF assms(3), of "[Wr I2C2BRG r, Wr I2C2CON (BIT 15)]"] by simp
  obtain s2 where s2: "fold_opt (\<lambda>(r, v). SendPacket dv [codec_address w, r, v]) codec_registers ?s1 = Some s2" "configures [] ?s1 s2"
    using packets_configure [OF assms(1,2) configuresD [OF s1]] by blast
  have s3: "configures [] s2 (wr I2C2CONCLR (BIT 15) s2)"
    using configures_emit_all [OF configuresD [OF s2(2)], of "[Wr I2C2CONCLR (BIT 15)]"] by (simp add: emit_all_def wr_def emit_def)
  have "wr I2C2CON (BIT 15) (wr I2C2BRG r s) = ?s1" by (simp add: wr_def emit_def emit_all_def)
  then have "ConfigureCodec w dv s = Some (wr I2C2CONCLR (BIT 15) s2)"
    unfolding ConfigureCodec_def Let_def r_def [symmetric] using s2(1) by simp
  moreover have "configures [] s (wr I2C2CONCLR (BIT 15) s2)"
    using configures_trans [OF s1 configures_trans [OF s2(2) s3]] by simp
  ultimately show ?thesis by blast
qed

text \<open>Which pins are given to a function, and the priorities and enables of the interrupts, in the order of the calls.\<close>

fun assigned_pins :: "plib_call list \<Rightarrow> rp_pin list" where
  "assigned_pins [] = []"
| "assigned_pins (PLIB_PORTS_RemapOutput f p # cs) = p # assigned_pins cs"
| "assigned_pins (PLIB_PORTS_RemapInput f p # cs) = p # assigned_pins cs"
| "assigned_pins (c # cs) = assigned_pins cs"

fun interrupt_calls :: "plib_call list \<Rightarrow> plib_call list" where
  "interrupt_calls [] = []"
| "interrupt_calls (PLIB_INT_VectorPrioritySet v p # cs) = PLIB_INT_VectorPrioritySet v p # interrupt_calls cs"
| "interrupt_calls (PLIB_INT_SourceEnable i # cs) = PLIB_INT_SourceEnable i # interrupt_calls cs"
| "interrupt_calls (c # cs) = interrupt_calls cs"

definition startup_calls :: "plib_call list" where
  "startup_calls = [PLIB_INT_SourceDisable INT_SOURCE_DMA_0, pic32_flush_dcache, PLIB_DMA_Enable] @ lib_calls setup_expansion @
     [PLIB_PORTS_RemapOutput OUTPUT_FUNC_SDO5 RPB10, PLIB_SPI_BaudRateSet SPI_ID_5 SYS_CLK_BUS_PERIPHERAL_2 800000] @
     lib_calls (setup_SPI3 0 (\<lambda>_. 0) @ setup_SPI4 0 (\<lambda>_. 0) @ setup_SPI2 @ setup_SPI6 0 (\<lambda>_. 0)) @
     lib_calls (setup_UARTs @ setup_timers @ setup_LEDs) @ [PLIB_SPI_Disable SPI_ID_1] @
     [PLIB_INT_VectorPrioritySet INT_VECTOR_I2C4_SLAVE 3, PLIB_INT_VectorSubPrioritySet INT_VECTOR_I2C4_SLAVE 0,
      PLIB_INT_SourceEnable INT_SOURCE_I2C_4_SLAVE, PLIB_I2C_SlaveAddress7BitSet I2C_ID_4 0x31]"

lemma startup_calls_pins: "distinct (assigned_pins startup_calls)" "length (assigned_pins startup_calls) = 22"
  by (simp_all add: startup_calls_def setup_expansion_def setup_SPI3_def setup_SPI4_def setup_SPI2_def setup_SPI6_def
      receive_channel_def transmit_channel_def audio_port_def setup_UARTs_def setup_timers_def setup_LEDs_def)

lemma startup_calls_interrupts:
  "interrupt_calls startup_calls =
     [PLIB_INT_VectorPrioritySet INT_VECTOR_UART2_RX 4, PLIB_INT_SourceEnable INT_SOURCE_USART_2_RECEIVE,
      PLIB_INT_VectorPrioritySet INT_VECTOR_UART4_RX 1, PLIB_INT_SourceEnable INT_SOURCE_USART_4_RECEIVE,
      PLIB_INT_VectorPrioritySet INT_VECTOR_I2C4_SLAVE 3, PLIB_INT_SourceEnable INT_SOURCE_I2C_4_SLAVE]"
  by (simp add: startup_calls_def setup_expansion_def setup_SPI3_def setup_SPI4_def setup_SPI2_def setup_SPI6_def
      receive_channel_def transmit_channel_def audio_port_def setup_UARTs_def setup_timers_def setup_LEDs_def)

section \<open>The set-up completes\<close>

lemma APP_Initialize_effect:
  fixes s :: "('f, 'a) app_scheme"
  assumes "env_ok (audio_env b)" and "good_bus I2C_ID_2 (dev (audio_env b))" and "starting s"
  shows "\<exists>s'. APP_Initialize b s = Some s' \<and> configures startup_calls s s' \<and> halfState s' = [released, released]"
proof -
  define e where "e = audio_env b"
  have resp: "responsive (dev e)" using assms(1) by (simp add: env_ok_def e_def)
  let ?s0 = "setup_ports b s"
  note c0 = setup_ports_configure [OF assms(3), of 0 "\<lambda>_. 0" b]
  obtain s1 where s1: "setupAudioDMAs (dev e) (nat k_framesPerBlock) (blocks_addr b) ?s0 = Some s1" "configures [] ?s0 s1"
    using DMAs_configure [OF resp configuresD [OF c0]] by blast
  let ?es = "setup_UARTs @ setup_timers @ setup_LEDs"
  have c1: "configures (lib_calls ?es) s1 (emit_all ?es s1)" by (rule configures_emit_all [OF configuresD [OF s1(2)]]) simp
  obtain s2 where s2: "configureADC (dev e) (inp e) (emit_all ?es s1) = Some s2" "configures [] (emit_all ?es s1) s2"
    using configureADC_configure [OF resp configuresD [OF c1]] by blast
  have "emits (reset_displays (dev e)) (delay_events (unat (10 :: u32)) @ Wr PORTJSET (BIT 8) # delay_events (unat (10 :: u32)) @
      Wr PORTJCLR (BIT 1) # delay_events (unat (10 :: u32)) @ [Wr PORTJSET (BIT 1)])"
    unfolding reset_displays_def [abs_def] by (rule emits_cong) (rule emits_intros resp | simp)+
  from configures_emits [OF this configuresD [OF s2(2)]]
  obtain s3 where s3: "reset_displays (dev e) s2 = Some s3" "configures [] s2 s3" by (auto simp: BIT_def)
  let ?s4 = "readAndTriggerADCs (dev e) (inp e) s3"
  have c4: "configures [] s3 ?s4" by (rule ADCs_configure [OF assms(1) [folded e_def] configuresD [OF s3(2)]])
  obtain s5 where s5: "start_displays (dev e) ?s4 = Some s5" "configures [] ?s4 s5"
    using displays_configure [OF resp configuresD [OF c4]] by blast
  obtain st s6 where s6: "ReadCalibrationFromSettings (double_unit b) (fpu e) (nvm_settings b) s5 = (st, s6)" by force
  have c6: "configures [] s5 s6" by (rule calibration_starting [OF configuresD [OF s5(2)] s6])
  let ?s7 = "emit_all [Lib (PLIB_SPI_Disable SPI_ID_1), Setup PORTHSET (BIT 11)] s6"
  have c7: "configures [PLIB_SPI_Disable SPI_ID_1] s6 ?s7"
    using configures_emit_all [OF configuresD [OF c6], of "[Lib (PLIB_SPI_Disable SPI_ID_1), Setup PORTHSET (BIT 11)]"]
    by (simp add: BIT_def)
  obtain s8 where s8: "delayMs (dev e) 1 ?s7 = Some s8" "configures [] ?s7 s8"
    using configures_emits [OF emits_delayMs [OF resp] configuresD [OF c7]] by auto
  obtain s9 where s9: "ConfigureCodec (I2C_WRITE_bit b) (dev e) s8 = Some s9" "configures [] s8 s9"
    using codec_configure [OF resp assms(2) [folded e_def] configuresD [OF s8(2)]] by blast
  let ?s10 = "emit_all [SetField LATB BIT11 1, SetField TRISB BIT11 0] (configureI2CSlave s9)"
  have c10: "configures [PLIB_INT_VectorPrioritySet INT_VECTOR_I2C4_SLAVE 3, PLIB_INT_VectorSubPrioritySet INT_VECTOR_I2C4_SLAVE 0,
      PLIB_INT_SourceEnable INT_SOURCE_I2C_4_SLAVE, PLIB_I2C_SlaveAddress7BitSet I2C_ID_4 0x31] s9 ?s10"
    using configuresD [OF s9(2)] by (simp add: configures_def configureI2CSlave_def emit_all_def BIT_def)
  have released: "configures [] u (released_controls u) \<and> halfState (released_controls u) = [released, released]"
    if "starting u" for u :: "('f, 'a) app_scheme"
  proof -
    have "length (halfState u) = 2" using that by (simp add: starting_def loop_inv_def app_inv_def)
    then obtain g h where gh: "halfState u = [g, h]" by (auto simp: length_Suc_conv numeral_2_eq_2)
    have "starting (u\<lparr>halfState := [x, y]\<rparr>)" for x y
      using that by (simp add: starting_def loop_inv_def app_inv_def audio_blocks_def kept_defs)
    then show ?thesis by (simp add: released_controls_def gh released_def configures_state)
  qed
  note start = configures_trans [OF c0 configures_trans [OF s1(2) configures_trans [OF c1 configures_trans [OF s2(2)
    configures_trans [OF s3(2) configures_trans [OF c4 s5(2)]]]]]]
  note middle = configures_trans [OF c6 configures_trans [OF c7 configures_trans [OF s8(2) configures_trans [OF s9(2) c10]]]]
  have "APP_Initialize b s = Some (released_controls ?s10)"
    unfolding APP_Initialize_def Let_def e_def [symmetric] using s1(1) s2(1) s3(1) s5(1) s6 s8(1) s9(1) by simp
  moreover have "configures startup_calls s (released_controls ?s10)"
    using configures_trans [OF start configures_trans [OF middle conjunct1 [OF released [OF configuresD [OF c10]]]]]
    unfolding startup_calls_def by simp
  ultimately show ?thesis using released [OF configuresD [OF c10]] by blast
qed

text \<open>
  C5: The set-up completes: on a board whose peripherals respond and whose codec acknowledges, \<open>APP_Initialize\<close> returns from every
  well-formed state in a state in which the display loop can run, with the audio service still off and all controls
  released. On the way it gives each of the 22 pins to one function only, and enables the three receive
  interrupts, each after its vector got the priority for which its handler is declared (\<open>ipl4\<close>, \<open>ipl1\<close>, \<open>ipl3\<close>).
\<close>

theorem APP_Initialize_completes:
  fixes s :: "('f, 'a) app_scheme"
  assumes "env_ok (audio_env b)" and "good_bus I2C_ID_2 (dev (audio_env b))" and "starting s"
  shows "\<exists>s' es. APP_Initialize b s = Some s' \<and> starting s' \<and> halfState s' = [released, released] \<and>
     trace s' = trace s @ es \<and> distinct (assigned_pins (lib_calls es)) \<and> length (assigned_pins (lib_calls es)) = 22 \<and>
     interrupt_calls (lib_calls es) =
       [PLIB_INT_VectorPrioritySet INT_VECTOR_UART2_RX 4, PLIB_INT_SourceEnable INT_SOURCE_USART_2_RECEIVE,
        PLIB_INT_VectorPrioritySet INT_VECTOR_UART4_RX 1, PLIB_INT_SourceEnable INT_SOURCE_USART_4_RECEIVE,
        PLIB_INT_VectorPrioritySet INT_VECTOR_I2C4_SLAVE 3, PLIB_INT_SourceEnable INT_SOURCE_I2C_4_SLAVE]"
  using APP_Initialize_effect [OF assms] startup_calls_pins startup_calls_interrupts unfolding configures_def by metis

text \<open>The state at power-on: the initial values of all globals, with \<open>f0\<close> the float zero.\<close>

definition zero_half :: "'f \<Rightarrow> 'f half_calibration" where
  "zero_half f0 = \<lparr>Er = [0, 0], D = [0, 0], Br = [0, 0, 0], A = [0, 0, 0], Brf = [f0, f0, f0], Erf = [f0, f0],
     Ddf = [f0, f0], Dd = [0, 0]\<rparr>"

definition zero_algorithm :: algorithm_data where
  "zero_algorithm = \<lparr>gate_flags = [0, 0], schmittTrigger = [False, False], edit_mode = 0, settings_function = [0, 0],
     lastEncSw = [False, False], holdCounter = [0, 0], encoderValue = [0, 0], potValue = [0, 0],
     processorParams = [[0, 0, 0, 0], [0, 0, 0, 0]], writeToFlash = False, processor_calls = []\<rparr>"

definition zero_parser :: "int \<Rightarrow> midi_parser" where
  "zero_parser n = \<lparr>pstate = kIdle, sStatus = 0, sChannel = 0, sMessage = [0, 0], sysex = replicate (nat n) 0, sysexCount = 0\<rparr>"

definition reset_app :: "'f \<Rightarrow> 'f app" where
  "reset_app f0 = \<lparr>clock = 0, trace = [], time = 0,
     halfState = replicate 2 \<lparr>encA = 0, encB = 0, encSW = 0, potSW = 0, lastEncA = 0\<rparr>,
     screen = replicate 128 0, screen2 = replicate 128 0, screen2ptr = Screen2, displayMode = kDisplayModeNormal,
     displayBlankCountdown = kTimeToBlank, displayIsOn = True, message4x16 = replicate 4 (replicate 17 0),
     displayBytesToSend = -1,
     midiQueue = ring_empty 736 0, midiOutPending = False,
     parser = zero_parser kMaxSysex, firstMidiClock = False, masterMIDIClockCounter = 0, nativeSysEx = [],
     recallParser = zero_parser kMaxRecallSysex, saveMode = False,
     i2cState = kI2CIdle, i2cMsg = [0, 0, 0, 0], i2cResponse = [0, 0, 0, 0], i2cResponseIndex = 0, i2cResponseSize = 0,
     recallIgnoreBytes = 0, i2cRxQueue = ring_empty 256 0,
     selectRxQueue = ring_empty 16 0, midiRxQueue = ring_empty 1024 0,
     adcs = \<lparr>CV = 0, Gate = 0, rawZ = [0, 0], Z = replicate 2 \<lparr>adc_value = 0, adc_pos = 0, adc_samples = replicate 8 0\<rparr>\<rparr>,
     slowTimeCountdown = kSlowTimeRatio, doServiceAudio = False,
     blocks_in = replicate 3 (replicate 32 0), blocks_out = replicate 3 (replicate 32 0), pageBuffer = replicate 0x4000 0,
     calibration = replicate 2 (zero_half f0), inputCalibrations = replicate 6 \<lparr>in_Brf = f0, in_mABrf = f0\<rparr>,
     algorithmData = zero_algorithm, app_state = APP_STATE_INIT\<rparr>"

lemma reset_starting: "starting (reset_app f0)"
proof -
  have rings: "ring_inv 736 (ring_empty 736 (0 :: u8))" "ring_inv 256 (ring_empty 256 (0 :: int))" "ring_inv 16 (ring_empty 16 (0 :: u8))"
    "ring_inv 1024 (ring_empty 1024 (0 :: u8))"
    by (simp_all add: ring_empty_contents)
  have parsers: "parser_inv (zero_parser kMaxSysex)" "recall_inv (zero_parser kMaxRecallSysex)"
    by (simp_all add: parser_inv_def recall_inv_def zero_parser_def kMaxSysex_def kMaxRecallSysex_def)
  have "alg_inv zero_algorithm" by (simp add: alg_inv_def zero_algorithm_def)
  moreover have "pot_ok \<lparr>adc_value = 0, adc_pos = 0, adc_samples = replicate 8 0\<rparr>"
    by (simp add: pot_ok_def channel_inv_def sum_list_replicate)
  ultimately have "app_inv (reset_app f0)"
    using rings parsers by (simp add: reset_app_def app_inv_def audio_blocks_def rx_inv_def i2c_inv_def)
  then have "loop_inv (reset_app f0)" unfolding loop_inv_def by (simp add: reset_app_def)
  then show ?thesis unfolding starting_def by (simp add: reset_app_def)
qed

definition demo_board :: "(int, int, nat \<Rightarrow> u32) board" where
  "demo_board = \<lparr>audio_env = demo_env\<lparr>dev := good_device\<rparr>, double_unit = demo_dp, nvm_settings = wiped_settings,
     flash_words = (\<lambda>_. 0xffffffff), blocks_addr = 0x80010000, spi_buf_addr = (\<lambda>_. 0xBF821020), I2C_WRITE_bit = 0,
     DMA_TRIGGER_SPI_6_RECEIVE = 240, has_wait_states = True, has_prefetch = True, ram_load = (\<lambda>m i. m i), ram_store = (\<lambda>i w m. m(i := w))\<rparr>"

lemma demo_board_simps [simp]:
  "dev (audio_env demo_board) = good_device" "inp (audio_env demo_board) = demo_input"
  "peaks (audio_env demo_board) = demo_peaks" "flash_words demo_board k = 0xffffffff"
  "ram_load demo_board m i = m i" "ram_store demo_board i w m = m(i := w)"
  by (simp_all add: demo_board_def)

lemma demo_board_ok: "env_ok (audio_env demo_board)" "good_bus I2C_ID_2 (dev (audio_env demo_board))" "finishes (dev (audio_env demo_board))"
proof -
  show "env_ok (audio_env demo_board)"
    using demo_env_ok(1) good_device_simps(1) by (simp add: demo_board_def env_ok_def)
  show "good_bus I2C_ID_2 (dev (audio_env demo_board))" by (simp add: good_device_simps)
  show "finishes (dev (audio_env demo_board))"
    by (auto simp: finishes_def good_device_def)
qed

lemma APP_Initialize_completes_witness:
  "\<exists>s'. APP_Initialize demo_board (reset_app (0 :: int)) = Some s' \<and> starting s' \<and> halfState s' = [released, released]"
  using APP_Initialize_completes [OF demo_board_ok(1,2) reset_starting, of 0] by blast

end
