(* ===== verification/Interrupts.thy ===== *)
theory Interrupts
  imports Main_Loop
begin

text \<open>
  The three receive interrupts as events, what the display loop relies on of their handlers, and the loop with
  interrupts at every one of its calls of the audio service.
\<close>

section \<open>Events\<close>

text \<open>The arguments are those of the handlers: the interrupt flag, the status bits and the received byte.\<close>

datatype rx_event =
    Select_event bool bool u8
  | MIDI_event bool bool u8
  | I2C_event bool bool bool bool u8

fun handle_event :: "rx_event \<Rightarrow> ('f, 'a) app_scheme \<Rightarrow> ('f, 'a) app_scheme" where
  "handle_event (Select_event flagged urxda byte) s = UART2RXInterruptHandler flagged urxda byte s"
| "handle_event (MIDI_event flagged urxda byte) s = UART4RXInterruptHandler flagged urxda byte s"
| "handle_event (I2C_event flagged r_w d_a i2cov rcv) s = I2C4SlaveInterruptHandler flagged r_w d_a i2cov rcv s"

section \<open>The handlers keep the invariant and the drawing\<close>

text \<open>What an interrupt may do to the state of the application.\<close>

definition harmless :: "('f, 'a) app_scheme \<Rightarrow> ('f, 'a) app_scheme \<Rightarrow> bool" where
  "harmless s s' \<longleftrightarrow> (app_inv s \<longrightarrow> app_inv s') \<and> drawing s' = drawing s \<and>
     (algorithmData s', doServiceAudio s', app_state s') = (algorithmData s, doServiceAudio s, app_state s)"

lemma harmless_refl [intro!, simp]: "harmless s s"
  by (simp add: harmless_def)

lemma harmless_trans: "harmless s s' \<Longrightarrow> harmless s' s'' \<Longrightarrow> harmless s s''"
  by (auto simp: harmless_def)

lemma harmless_wr [simp]: "harmless s (wr g v s') = harmless s s'"
  by (simp add: harmless_def app_inv_def audio_blocks_def kept_defs drawing_def wr_def emit_def)

lemma select_handler_harmless: "harmless s (UART2RXInterruptHandler flagged urxda byte s)"
proof -
  have "harmless s (s\<lparr>recallIgnoreBytes := n\<rparr>)" for n
    by (simp add: harmless_def app_inv_def audio_blocks_def rx_inv_def i2c_inv_def drawing_def)
  moreover have "harmless s (select_enqueue byte s)"
    by (simp add: harmless_def app_inv_def audio_blocks_def rx_inv_def i2c_inv_def drawing_def select_enqueue_put sq.put_ring_inv)
  ultimately show ?thesis by (simp add: UART2RXInterruptHandler_def)
qed

lemma midi_handler_harmless: "harmless s (UART4RXInterruptHandler flagged urxda byte s)"
proof -
  have "harmless s (midi_enqueue byte s)"
    by (simp add: harmless_def app_inv_def audio_blocks_def rx_inv_def i2c_inv_def drawing_def midi_enqueue_put rq.put_ring_inv)
  then show ?thesis by (simp add: UART4RXInterruptHandler_def)
qed

lemma i2c_enqueue_harmless: "harmless s (i2c_enqueue x s)"
  by (simp add: harmless_def app_inv_def audio_blocks_def rx_inv_def i2c_inv_def drawing_def i2c_enqueue_put iq.put_ring_inv)

lemma answer_read_harmless: "harmless s (answer_read s)"
proof (cases "i2cResponseIndex s < i2cResponseSize s")
  case True
  then have "i2c_inv (s\<lparr>i2cResponseIndex := i2cResponseIndex s + 1\<rparr>)" if "i2c_inv s"
    using answer_read_inv [OF that] by (simp add: answer_read_def)
  then have "harmless s (s\<lparr>i2cResponseIndex := i2cResponseIndex s + 1\<rparr>)"
    by (simp add: harmless_def app_inv_def audio_blocks_def rx_inv_def drawing_def)
  with True show ?thesis by (simp add: answer_read_def)
qed (simp add: answer_read_def)

lemma i2c_handler_harmless: "harmless s (I2C4SlaveInterruptHandler flagged r_w d_a i2cov rcv s)"
  by (simp add: I2C4SlaveInterruptHandler_def Let_def i2c_enqueue_harmless
      harmless_trans [OF answer_read_harmless i2c_enqueue_harmless])

lemma handle_event_harmless: "harmless s (handle_event ev s)"
  by (cases ev) (simp_all add: select_handler_harmless midi_handler_harmless i2c_handler_harmless)

lemma handle_events_harmless: "harmless s (fold handle_event evs s)"
  by (induction evs arbitrary: s) (auto intro: harmless_trans handle_event_harmless)

lemma harmless_loop_inv: "harmless s s' \<Longrightarrow> loop_inv s \<Longrightarrow> loop_inv s'"
  by (auto simp: harmless_def intro: loop_inv_drawing loop_inv_app)

section \<open>The loop with interrupts\<close>

text \<open>
  A service during which interrupts arrive: \<open>arrivals False\<close> before it, from the state it finds, and \<open>arrivals True\<close> after it.
  The clock runs from call to call, so that a function of the state is no restriction on the order of the events.
\<close>

definition preempted ::
    "(bool \<Rightarrow> ('f, 'a) app_scheme \<Rightarrow> rx_event list) \<Rightarrow>
     (('f, 'a) app_scheme \<Rightarrow> ('f, 'a) app_scheme option) \<Rightarrow> ('f, 'a) app_scheme \<Rightarrow> ('f, 'a) app_scheme option" where
  "preempted arrivals svc s =
     map_option (\<lambda>s. fold handle_event (arrivals True s) s) (svc (fold handle_event (arrivals False s) s))"

lemma preempted_none [simp]: "preempted (\<lambda>_ _. []) svc = svc"
  by (simp add: fun_eq_iff preempted_def map_option.identity [unfolded id_def])

lemma preempted_serves:
  assumes "good_env e \<and> app_inv s"
  shows "\<exists>s'. preempted arrivals (CheckServiceAudio e) s = Some s' \<and> (good_env e \<and> app_inv s') \<and> drawing s' = drawing s"
proof -
  let ?r = "fold handle_event (arrivals False s) s"
  have r: "good_env e \<and> app_inv ?r" "drawing ?r = drawing s"
    using assms handle_events_harmless [of s "arrivals False s"] by (simp_all add: harmless_def)
  obtain t where t: "CheckServiceAudio e ?r = Some t" "app_inv t" "drawing t = drawing ?r"
    using loop.serves [of e ?r] r(1) by auto
  then show ?thesis
    using assms r handle_events_harmless [of t "arrivals True t"] by (simp add: preempted_def harmless_def)
qed

interpretation preempted_loop: display_service e "preempted arrivals (CheckServiceAudio e)" for e arrivals
proof unfold_locales
  show "good_env e \<and> app_inv s \<and> True \<Longrightarrow> \<exists>s'. preempted arrivals (CheckServiceAudio e) s = Some s' \<and>
      (good_env e \<and> app_inv s' \<and> True) \<and> drawing s' = drawing s" for s :: "('a, 'b) app_scheme"
    using preempted_serves [of e s arrivals] by simp
qed simp_all

end
