(* ===== verification/Program.thy ===== *)
theory Program
  imports Startup Interrupts
begin

text \<open>
  The program as a whole (\<open>app.c\<close>, \<open>main.c\<close>): the test of the external memory, the application's state machine
  \<open>APP_Tasks\<close>, \<open>main\<close>, and the runs of the program as a step relation, in which the receive interrupts come between
  any two steps of the foreground, and within a step around each call of the audio service.
\<close>

section \<open>The test of the external memory\<close>

definition sram_pattern :: "nat \<Rightarrow> u32" where "sram_pattern i = of_nat i OR 0x1337BB00"

definition sram_marks :: "(nat \<times> u32) list" where
  "sram_marks = [(500000, 0x5555aaaa), (1000000, 0xfeedbeef), (1500000, 0x5555aaaa), (2000000, 0xfeedbeef)]"

definition quickSRAMtest :: "(nat \<Rightarrow> u32 \<Rightarrow> 'm \<Rightarrow> 'm) \<Rightarrow> ('m \<Rightarrow> nat \<Rightarrow> u32) \<Rightarrow> 'm \<Rightarrow> bool \<times> 'm" where
  "quickSRAMtest store load sram =
     (let sram = fold (\<lambda>i. store i (sram_pattern i)) [0..<64] sram;
          sram = fold (\<lambda>(i, w). store i w) sram_marks sram
      in if \<not> list_all (\<lambda>i. load sram i = sram_pattern i) [0..<64] then (False, sram)
         else if \<not> list_all (\<lambda>(i, w). load sram i = w) sram_marks then (False, sram)
         else (True, fold (\<lambda>i. store i 0) [0, 500000, 1000000, 1500000, 2000000] sram))"

section \<open>The tasks\<close>

datatype ('f, 'm) program =
    Main_loop "'f app" 'm
  | Display_loop loop_locals "'f app" 'm

definition sram_message :: "u8 list list" where
  "sram_message = map c_str [''Non-recoverable'', ''error - restart'', ''or proceed'', ''and run tests'']"

text \<open>\<open>displayLoop\<close> never returns: the call of it is where control goes to the display loop.\<close>

definition APP_Tasks :: "('f, 'd, 'm) board \<Rightarrow> 'f app \<Rightarrow> 'm \<Rightarrow> ('f, 'm) program option" where
  "APP_Tasks b s sram =
     (case app_state s of
        APP_STATE_INIT \<Rightarrow> Some (Main_loop (s\<lparr>app_state := APP_STATE_SERVICE_TASKS\<rparr>) sram)
      | APP_STATE_SERVICE_TASKS \<Rightarrow> do {
          let (ok, sram) = quickSRAMtest (ram_store b) (ram_load b) sram;
          let s = (if \<not> ok
                   then displayMessage4x16 (sram_message ! 0) (sram_message ! 1) (sram_message ! 2) (sram_message ! 3) s
                   else s);
          a \<leftarrow> algorithm_init (peaks (audio_env b)) (flash_words b) (algorithmData s);
          let s = s\<lparr>algorithmData := a, doServiceAudio := True\<rparr>;
          Some (Display_loop \<lparr>refreshCount = 0, displayLastTime = time s\<rparr> s sram) })"

text \<open>
  \<open>main\<close> up to its loop, which calls \<open>SYS_Tasks\<close> and with it \<open>APP_Tasks\<close> for ever. \<open>irq\<close> is the interrupt enable bit as the
  bootloader left it.
\<close>

definition SYS_Initialize ::
    "('f, 'd, 'm) board \<Rightarrow> bool \<Rightarrow> devcon_object \<times> 'f app \<Rightarrow> (devcon_object \<times> 'f app) option" where
  "SYS_Initialize b irq os =
     (let (ob, s) = start_services (has_wait_states b) (has_prefetch b) (inp (audio_env b)) irq os
      in map_option (Pair ob) (APP_Initialize b s))"

definition SYS_Tasks :: "('f, 'd, 'm) board \<Rightarrow> 'f app \<Rightarrow> 'm \<Rightarrow> ('f, 'm) program option" where
  "SYS_Tasks = APP_Tasks"

definition main ::
    "('f, 'd, 'm) board \<Rightarrow> bool \<Rightarrow> devcon_object \<times> 'f app \<Rightarrow> (devcon_object \<times> 'f app) option" where
  "main b irq os = do {
     let (ob, s) = os;
     s \<leftarrow> wait_while (dev (audio_env b)) (CHBUSY DCH0) (emit (Lib pic32_flush_dcache) s);
     SYS_Initialize b irq (ob, emit_all [Lib PLIB_DMA_Disable, Lib (PLIB_INT_SourceDisable INT_SOURCE_DMA_0)] s) }"

section \<open>Runs\<close>

text \<open>The next step of the foreground, with the interrupts that arrive around the calls of the audio service within it.\<close>

definition program_next ::
    "('f, 'd, 'm) board \<Rightarrow> (bool \<Rightarrow> 'f app \<Rightarrow> rx_event list) \<Rightarrow> ('f, 'm) program \<Rightarrow> ('f, 'm) program option" where
  "program_next b arrivals p =
     (let e = audio_env b; svc = preempted arrivals (CheckServiceAudio e) in
      case p of
        Main_loop s sram \<Rightarrow> SYS_Tasks b s sram
      | Display_loop l s sram \<Rightarrow>
          map_option (\<lambda>(l, s). Display_loop l s sram)
            (displayLoop_iteration (dev e) svc (algorithm_display (peaks e) svc) (l, s)))"

fun on_state :: "('f app \<Rightarrow> 'f app) \<Rightarrow> ('f, 'm) program \<Rightarrow> ('f, 'm) program" where
  "on_state h (Main_loop s sram) = Main_loop (h s) sram"
| "on_state h (Display_loop l s sram) = Display_loop l (h s) sram"

inductive program_step :: "('f, 'd, 'm) board \<Rightarrow> ('f, 'm) program \<Rightarrow> ('f, 'm) program \<Rightarrow> bool" for b where
  foreground: "program_next b arrivals p = Some q \<Longrightarrow> program_step b p q"
| interrupt: "program_step b p (on_state (handle_event ev) p)"

inductive_cases program_stepE: "program_step b p q"

section \<open>What the memory test finds\<close>

text \<open>
  A memory whose address decoder takes address \<open>a\<close> to cell \<open>f a\<close> (a stuck or shorted address line makes \<open>f\<close> not
  injective); on a sound one \<open>f\<close> is the identity.
\<close>

definition decoded_store :: "(nat \<Rightarrow> nat) \<Rightarrow> nat \<Rightarrow> u32 \<Rightarrow> (nat \<Rightarrow> u32) \<Rightarrow> (nat \<Rightarrow> u32)" where
  "decoded_store f a w m = m(f a := w)"

definition decoded_load :: "(nat \<Rightarrow> nat) \<Rightarrow> (nat \<Rightarrow> u32) \<Rightarrow> nat \<Rightarrow> u32" where
  "decoded_load f m a = m (f a)"

definition test_cells :: "(nat \<times> u32) list" where
  "test_cells = map (\<lambda>i. (i, sram_pattern i)) [0..<64] @ sram_marks"

lemma fold_store_last:
  "fold (\<lambda>(i, w). decoded_store f i w) cs m c =
     (case find (\<lambda>(i, w). f i = c) (rev cs) of None \<Rightarrow> m c | Some (i, w) \<Rightarrow> w)"
  by (induction cs rule: rev_induct) (auto simp: decoded_store_def)

lemma quickSRAMtest_result:
  "fst (quickSRAMtest store load m) = (\<forall>(a, w)\<in>set test_cells. load (fold (\<lambda>(i, w). store i w) test_cells m) a = w)"
proof -
  let ?n = "fold (\<lambda>(i, w). store i w) sram_marks (fold (\<lambda>i. store i (sram_pattern i)) [0..<64] m)"
  have n: "fold (\<lambda>(i, w). store i w) test_cells m = ?n"
    by (simp add: test_cells_def fold_map o_def)
  have "(\<forall>(a, w)\<in>set test_cells. load ?n a = w) \<longleftrightarrow>
      (\<forall>i\<in>set [0..<64]. load ?n i = sram_pattern i) \<and> (\<forall>(a, w)\<in>set sram_marks. load ?n a = w)"
    unfolding test_cells_def set_append ball_Un by simp
  then show ?thesis
    unfolding n quickSRAMtest_def Let_def list_all_iff by (simp del: set_upt)
qed

lemma decoded_test:
  "fst (quickSRAMtest (decoded_store f) (decoded_load f) m) \<longleftrightarrow>
     (\<forall>(a, v)\<in>set test_cells. \<forall>(c, w)\<in>set test_cells. f a = f c \<longrightarrow> v = w)" (is "?pass \<longleftrightarrow> ?apart")
proof -
  let ?m = "fold (\<lambda>(i, w). decoded_store f i w) test_cells m"
  have pass: "?pass \<longleftrightarrow> (\<forall>(a, v)\<in>set test_cells. ?m (f a) = v)"
    by (simp add: quickSRAMtest_result decoded_load_def)
  show ?thesis
  proof
    assume ?pass
    then have all: "\<forall>(a, v)\<in>set test_cells. ?m (f a) = v" unfolding pass .
    have "?m (f a) = v" if "(a, v) \<in> set test_cells" for a v using bspec [OF all that] by simp
    then show ?apart by (intro ballI, clarify) metis
  next
    assume apart: ?apart
    have "?m (f a) = v" if "(a, v) \<in> set test_cells" for a v
    proof -
      have "\<exists>x\<in>set (rev test_cells). (\<lambda>(i, w). f i = f a) x" using that by (intro bexI [of _ "(a, v)"]) simp_all
      then have "find (\<lambda>(i, w). f i = f a) (rev test_cells) \<noteq> None" unfolding find_None_iff by blast
      then obtain c w where cw: "find (\<lambda>(i, w). f i = f a) (rev test_cells) = Some (c, w)"
        by auto
      then have "(c, w) \<in> set (rev test_cells) \<and> (\<lambda>(i, w). f i = f a) (c, w)" unfolding find_Some_iff by (metis nth_mem)
      then have "(c, w) \<in> set test_cells" "f c = f a" by simp_all
      with apart that have "w = v" by fastforce
      with cw show ?thesis by (simp add: fold_store_last)
    qed
    then show ?pass unfolding pass by auto
  qed
qed

lemma decoded_apart:
  assumes "fst (quickSRAMtest (decoded_store f) (decoded_load f) m)"
    and "(a, v) \<in> set test_cells" and "(c, w) \<in> set test_cells" and "f a = f c"
  shows "v = w"
proof -
  have "\<forall>(a, v)\<in>set test_cells. \<forall>(c, w)\<in>set test_cells. f a = f c \<longrightarrow> v = w"
    using assms(1) unfolding decoded_test .
  from bspec [OF this assms(2)] have "\<forall>(c, w)\<in>set test_cells. f a = f c \<longrightarrow> v = w" by simp
  from bspec [OF this assms(3)] assms(4) show ?thesis by simp
qed

text \<open>An address decoder on which line \<open>k\<close> is stuck at 0.\<close>

definition stuck_line :: "nat \<Rightarrow> nat \<Rightarrow> nat" where
  "stuck_line k a = (if odd (a div 2 ^ k) then a - 2 ^ k else a)"

lemma stuck_marks:
  assumes "6 \<le> k" and "k < 21"
  shows "distinct (map (\<lambda>(a, w). stuck_line k a) sram_marks) \<and> (\<forall>(a, w)\<in>set sram_marks. 64 \<le> stuck_line k a)"
proof -
  have "k = 6 \<or> k = 7 \<or> k = 8 \<or> k = 9 \<or> k = 10 \<or> k = 11 \<or> k = 12 \<or> k = 13 \<or> k = 14 \<or> k = 15 \<or> k = 16 \<or> k = 17 \<or>
      k = 18 \<or> k = 19 \<or> k = 20" using assms by presburger
  then show ?thesis by (elim disjE) (simp_all add: sram_marks_def stuck_line_def)
qed

lemma stuck_small: "6 \<le> k \<Longrightarrow> i < 64 \<Longrightarrow> stuck_line k i = i"
proof -
  assume "6 \<le> k" "i < 64"
  then have "i < 2 ^ k" using power_increasing [of 6 k "2 :: nat"] by simp
  then show ?thesis by (simp add: stuck_line_def)
qed

lemma stuck_line_found:
  "k < 21 \<Longrightarrow> fst (quickSRAMtest (decoded_store (stuck_line k)) (decoded_load (stuck_line k)) m) \<longleftrightarrow> 6 \<le> k"
proof (cases "6 \<le> k")
  case True
  assume "k < 21"
  note marks = stuck_marks [OF True this]
  have "v = w" if "(a, v) \<in> set test_cells" "(c, w) \<in> set test_cells" "stuck_line k a = stuck_line k c" for a v c w
  proof -
    note same = that(3)
    have low: "x < 64 \<and> u = sram_pattern x \<and> stuck_line k x < 64 \<or> (x, u) \<in> set sram_marks \<and> 64 \<le> stuck_line k x"
      if "(x, u) \<in> set test_cells" for x u
      using that marks stuck_small [OF True] by (auto simp: test_cells_def)
    from low [OF that(1)] low [OF that(2)] consider "a < 64" "c < 64" "v = sram_pattern a" "w = sram_pattern c"
      | "(a, v) \<in> set sram_marks" "(c, w) \<in> set sram_marks" using same by force
    then show ?thesis
    proof cases
      case 1
      then show ?thesis using same stuck_small [OF True] by simp
    next
      case 2
      have "inj_on (\<lambda>(a, w). stuck_line k a) (set sram_marks)" using marks by (simp add: distinct_map)
      from inj_onD [OF this _ 2] same show ?thesis by simp
    qed
  qed
  with True show ?thesis unfolding decoded_test by auto
next
  case False
  have pos: "(0, sram_pattern 0) \<in> set test_cells" "(2 ^ k, sram_pattern (2 ^ k)) \<in> set test_cells"
    using False power_strict_increasing [of k 6 "2 :: nat"] by (auto simp: test_cells_def)
  have "k = 0 \<or> k = 1 \<or> k = 2 \<or> k = 3 \<or> k = 4 \<or> k = 5" using False by arith
  then have "sram_pattern 0 \<noteq> sram_pattern (2 ^ k)" by (elim disjE) (simp_all add: sram_pattern_def)
  moreover have "stuck_line k 0 = stuck_line k (2 ^ k)" by (simp add: stuck_line_def)
  ultimately have "\<not> fst (quickSRAMtest (decoded_store (stuck_line k)) (decoded_load (stuck_line k)) m)"
    using decoded_apart [of "stuck_line k" m, OF _ pos] by blast
  with False show ?thesis by simp
qed

text \<open>
  C39: What the quick test of the external memory finds: on a memory whose address decoder maps addresses by \<open>f\<close>, it passes exactly
  when no two of the 68 cells it writes with different words are the same cell. So it passes on a sound memory, and it
  finds every stuck address line among the lowest six; but it misses each of the other fifteen, also the topmost,
  with which only half of the memory would be there.
\<close>

theorem SRAM_test_finds:
  "fst (quickSRAMtest (decoded_store f) (decoded_load f) m) =
     (\<forall>(a, v)\<in>set test_cells. \<forall>(c, w)\<in>set test_cells. f a = f c \<longrightarrow> v = w) \<and>
   length test_cells = 68 \<and>
   fst (quickSRAMtest (decoded_store (\<lambda>a. a)) (decoded_load (\<lambda>a. a)) m) \<and>
   (k < 21 \<longrightarrow> fst (quickSRAMtest (decoded_store (stuck_line k)) (decoded_load (stuck_line k)) m) = (6 \<le> k))"
proof -
  have "distinct (map fst test_cells)"
    by (auto simp: test_cells_def sram_marks_def o_def)
  then have "inj_on fst (set test_cells)" by (simp add: distinct_map)
  then have "v = w" if "(a, v) \<in> set test_cells" "(a, w) \<in> set test_cells" for a v w
    using that inj_onD [of fst "set test_cells" "(a, v)" "(a, w)"] by simp
  then have "fst (quickSRAMtest (decoded_store (\<lambda>a. a)) (decoded_load (\<lambda>a. a)) m)"
    unfolding decoded_test by blast
  moreover have "length test_cells = 68" by (simp add: test_cells_def sram_marks_def)
  ultimately show ?thesis using stuck_line_found [of k m] decoded_test [of f m] by blast
qed

lemma SRAM_test_finds_witness:
  "fst (quickSRAMtest (decoded_store (stuck_line 20)) (decoded_load (stuck_line 20)) (\<lambda>_. 0)) \<and>
   \<not> fst (quickSRAMtest (decoded_store (stuck_line 5)) (decoded_load (stuck_line 5)) (\<lambda>_. 0))"
  using SRAM_test_finds [of "\<lambda>a. a" "\<lambda>_. 0" 20] SRAM_test_finds [of "\<lambda>a. a" "\<lambda>_. 0" 5] by simp

section \<open>The program never gets stuck\<close>

text \<open>The settings in flash, when there are any, are values that the program wrote.\<close>

definition flash_ok :: "(nat \<Rightarrow> u32) \<Rightarrow> bool" where
  "flash_ok flash \<longleftrightarrow> (flash 0 = kPeaksMagic \<longrightarrow> 0 \<le> sint (flash 1) \<and> sint (flash 1) < 4 \<and>
     (\<forall>i\<in>{2, 3}. 0 \<le> sint (flash i) \<and> sint (flash i) < 8))"

lemma algorithm_init_inv:
  assumes "peaks_enums pk" and "flash_ok flash" and "alg_inv a"
  shows "\<exists>a'. algorithm_init pk flash a = Some a' \<and> alg_inv a'"
proof -
  let ?z = "pcall (Init 1) (pcall (Init 0) ((zero_data a)\<lparr>lastEncSw := [True, True]\<rparr>))"
  have "alg_inv ((zero_data a)\<lparr>lastEncSw := [True, True]\<rparr>)" using assms(3) by (simp add: alg_inv_def zero_data_def)
  then have z: "alg_inv ?z" by (intro inv_intros) (simp_all add: call_ok_def)
  show ?thesis
  proof (cases "flash 0 = kPeaksMagic")
    case False
    have "alg_inv (?z\<lparr>edit_mode := EDIT_MODE_TWIN pk, settings_function := [FUNCTION_ENVELOPE pk, FUNCTION_ENVELOPE pk]\<rparr>)"
      using z assms(1) by (simp add: alg_inv_def peaks_enums_def)
    with False show ?thesis by (simp add: algorithm_init_def Let_def)
  next
    case True
    have f: "0 \<le> sint (flash 2)" "sint (flash 2) < 8" "0 \<le> sint (flash 3)" "sint (flash 3) < 8"
      using assms(2) True by (simp_all add: flash_ok_def)
    have "alg_inv (?z\<lparr>edit_mode := sint (flash 1)\<rparr>)"
      using assms(2) True by (intro alg_inv_frame(6) z) (simp_all add: flash_ok_def)
    from SetFunction_inv [OF assms(1) this f(1,2), of 0]
    obtain a1 where a1: "SetFunction pk 0 (sint (flash 2)) (?z\<lparr>edit_mode := sint (flash 1)\<rparr>) = Some a1" "alg_inv a1" by auto
    from SetFunction_inv [OF assms(1) a1(2) f(3,4), of 1]
    obtain a2 where "SetFunction pk 1 (sint (flash 3)) a1 = Some a2" "alg_inv a2" by auto
    with True a1(1) show ?thesis by (simp add: algorithm_init_def Let_def)
  qed
qed

text \<open>The invariant of a run: before the display loop, messages can be stored as well.\<close>

definition rows_ok :: "'f app \<Rightarrow> bool" where
  "rows_ok s \<longleftrightarrow> (\<forall>row\<in>set (message4x16 s). length row = 17 \<and> row ! 16 = 0)"

fun program_inv :: "('f, 'm) program \<Rightarrow> bool" where
  "program_inv (Main_loop s sram) = (loop_inv s \<and> rows_ok s)"
| "program_inv (Display_loop l s sram) = loop_inv s"

lemma handle_event_keeps: "program_inv p \<Longrightarrow> program_inv (on_state (handle_event ev) p)"
proof (induction p)
  case (Main_loop s sram)
  have "message4x16 (handle_event ev s) = message4x16 s"
    using handle_event_harmless [of s ev] drawing_eqD(5) unfolding harmless_def by blast
  with Main_loop show ?case
    by (simp add: rows_ok_def harmless_loop_inv [OF handle_event_harmless])
next
  case (Display_loop l s sram)
  then show ?case by (simp add: harmless_loop_inv [OF handle_event_harmless])
qed

text \<open>A step of the foreground.\<close>

definition ready_board :: "('f, 'd, 'm) board \<Rightarrow> bool" where
  "ready_board b \<longleftrightarrow> good_env (audio_env b) \<and> flash_ok (flash_words b)"

lemma displayMessage_keeps:
  assumes "loop_inv s" and "rows_ok s" shows "loop_inv (displayMessage4x16 m0 m1 m2 m3 s)"
proof -
  obtain r0 r1 r2 r3 where rows: "message4x16 s = [r0, r1, r2, r3]"
    using assms by (auto simp: loop_inv_def length_Suc_conv numeral_eq_Suc)
  have app: "app_inv (s\<lparr>displayMode := m, message4x16 := xs\<rparr>) = app_inv s" for m xs
    by (simp add: app_inv_def audio_blocks_def kept_defs)
  have "\<forall>row\<in>set (map2 strncpy16 [r0, r1, r2, r3] [m0, m1, m2, m3]). 0 \<in> set row"
    using assms(2) strncpy16_row(3) by (simp add: rows_ok_def rows)
  with assms(1) app show ?thesis by (simp add: loop_inv_def displayMessage4x16_def rows)
qed

lemma APP_Tasks_returns:
  assumes "ready_board b" and "loop_inv s" and "rows_ok s"
  shows "\<exists>q. APP_Tasks b s sram = Some q \<and> program_inv q \<and>
     (app_state s = APP_STATE_SERVICE_TASKS \<longrightarrow> (\<exists>l s' m. q = Display_loop l s' m \<and> doServiceAudio s'))"
proof (cases "app_state s")
  case APP_STATE_INIT
  have "loop_inv (s\<lparr>app_state := APP_STATE_SERVICE_TASKS\<rparr>)"
    using assms(2) by (simp add: loop_inv_def app_inv_def audio_blocks_def kept_defs)
  with APP_STATE_INIT assms(3) show ?thesis by (simp add: APP_Tasks_def rows_ok_def)
next
  case APP_STATE_SERVICE_TASKS
  obtain ok m where test: "quickSRAMtest (ram_store b) (ram_load b) sram = (ok, m)" by force
  let ?s = "if \<not> ok then displayMessage4x16 (sram_message ! 0) (sram_message ! 1) (sram_message ! 2) (sram_message ! 3) s else s"
  have s: "loop_inv ?s" using assms(2,3) by (simp add: displayMessage_keeps)
  then have "alg_inv (algorithmData ?s)" by (simp only: loop_inv_def app_inv_def)
  then obtain a where a: "algorithm_init (peaks (audio_env b)) (flash_words b) (algorithmData ?s) = Some a" "alg_inv a"
    using algorithm_init_inv assms(1) unfolding ready_board_def good_env_def env_ok_def by metis
  have "loop_inv (u\<lparr>algorithmData := a, doServiceAudio := True\<rparr>)" if "loop_inv u" for u :: "'a app"
    using that a(2) by (simp add: loop_inv_def app_inv_def audio_blocks_def kept_defs)
  with s a(1) test APP_STATE_SERVICE_TASKS show ?thesis by (simp add: APP_Tasks_def Let_def)
qed

lemma program_next_returns:
  assumes "ready_board b" and "program_inv p"
  shows "\<exists>q. program_next b arrivals p = Some q \<and> program_inv q"
proof (cases p)
  case (Main_loop s sram)
  with assms APP_Tasks_returns [OF assms(1), of s sram] show ?thesis by (auto simp: program_next_def SYS_Tasks_def)
next
  case (Display_loop l s sram)
  with assms(2) have "loop_inv s" by simp
  from preempted_loop.iteration_returns [OF _ this] assms(1) Display_loop show ?thesis
    by (fastforce simp: program_next_def ready_board_def Let_def)
qed

lemma program_step_inv:
  assumes "ready_board b" and "program_step b p q" and "program_inv p" shows "program_inv q"
  using assms(2)
proof (cases rule: program_step.cases)
  case foreground
  with program_next_returns [OF assms(1,3)] show ?thesis by (metis option.inject)
qed (use handle_event_keeps [OF assms(3)] in simp)

lemma program_reach_inv:
  assumes "(program_step b)\<^sup>*\<^sup>* p q" and "ready_board b" and "program_inv p" shows "program_inv q"
  using assms(1,3) by (induction rule: rtranclp_induct) (auto intro: program_step_inv [OF assms(2)])

lemma starting_events [simp]: "starting (emit_all es s) = starting s" "starting (emit ev s) = starting s" "starting (tick n s) = starting s"
  by (simp_all add: emit_all_def emit_def tick_def)

lemma start_services_starting: "starting (snd (start_services hw hp ins irq (ob, s))) = starting s"
  by (simp add: start_services_def Let_def)

lemma main_returns:
  assumes "ready_board b" and "good_bus I2C_ID_2 (dev (audio_env b))" and "starting s"
  shows "\<exists>ob' s'. main b irq (ob, s) = Some (ob', s') \<and> starting s'"
proof -
  have env: "env_ok (audio_env b)" using assms(1) by (simp add: ready_board_def good_env_def)
  then have "responsive (dev (audio_env b))" by (simp add: env_ok_def)
  from wait_while_returns [OF this, of "CHBUSY DCH0" "emit (Lib pic32_flush_dcache) s"]
  obtain s1 where s1: "wait_while (dev (audio_env b)) (CHBUSY DCH0) (emit (Lib pic32_flush_dcache) s) = Some s1"
      "later (emit (Lib pic32_flush_dcache) s) s1" by auto
  then have "starting s1" using assms(3) by (auto simp: later_def)
  let ?s2 = "emit_all [Lib PLIB_DMA_Disable, Lib (PLIB_INT_SourceDisable INT_SOURCE_DMA_0)] s1"
  obtain ob' s3 where s3: "start_services (has_wait_states b) (has_prefetch b) (inp (audio_env b)) irq (ob, ?s2) = (ob', s3)" by force
  have "starting s3"
    using start_services_starting [of "has_wait_states b" "has_prefetch b" "inp (audio_env b)" irq ob ?s2] s3 \<open>starting s1\<close> by simp
  from APP_Initialize_effect [OF env assms(2) this]
  obtain s' where "APP_Initialize b s3 = Some s'" "starting s'" by (auto simp: configures_def)
  with s1(1) s3 show ?thesis by (simp add: main_def SYS_Initialize_def)
qed

text \<open>
  C1: The program never gets stuck. From power-on, on a board whose peripherals respond, whose codec acknowledges and whose flash
  holds no settings or ones that the program wrote, \<open>main\<close> completes the set-up; two calls of \<open>SYS_Tasks\<close> later the program is
  in the display loop with the audio service on, whether or not the external memory passes its test; and in every state
  reachable by steps of the foreground, with any receive interrupts between them and within them before and after each call
  of the audio service, the invariant of the display loop holds and the foreground has a next step, whatever interrupts arrive in it.
\<close>

theorem program_never_stuck:
  assumes "ready_board b" and "good_bus I2C_ID_2 (dev (audio_env b))"
  shows "\<exists>ob' s0. main b irq (ob, reset_app f0) = Some (ob', s0) \<and>
     (\<exists>l s1 m1. Option.bind (program_next b arrivals (Main_loop s0 sram)) (program_next b arrivals) = Some (Display_loop l s1 m1) \<and> doServiceAudio s1) \<and>
     (\<forall>q. (program_step b)\<^sup>*\<^sup>* (Main_loop s0 sram) q \<longrightarrow> program_inv q \<and> (\<exists>q'. program_next b arrivals q = Some q'))"
proof -
  obtain ob' s0 where s0: "main b irq (ob, reset_app f0) = Some (ob', s0)" "starting s0"
    using main_returns [OF assms reset_starting] by blast
  then have i0: "loop_inv s0" "rows_ok s0" "app_state s0 = APP_STATE_INIT" by (simp_all add: starting_def rows_ok_def)
  let ?s1 = "s0\<lparr>app_state := APP_STATE_SERVICE_TASKS\<rparr>"
  have one: "program_next b arrivals (Main_loop s0 sram) = Some (Main_loop ?s1 sram)"
    using i0(3) by (simp add: program_next_def SYS_Tasks_def APP_Tasks_def)
  have "program_inv (Main_loop ?s1 sram)"
    using program_next_returns [OF assms(1), of "Main_loop s0 sram" arrivals] i0(1,2) one by auto
  then obtain l s2 m2 where "APP_Tasks b ?s1 sram = Some (Display_loop l s2 m2)" "doServiceAudio s2"
    using APP_Tasks_returns [OF assms(1), of ?s1 sram] by auto
  then have "Option.bind (program_next b arrivals (Main_loop s0 sram)) (program_next b arrivals) = Some (Display_loop l s2 m2)"
    unfolding one by (simp add: program_next_def SYS_Tasks_def)
  moreover have "program_inv q \<and> (\<exists>q'. program_next b arrivals q = Some q')" if "(program_step b)\<^sup>*\<^sup>* (Main_loop s0 sram) q" for q
    using program_reach_inv [OF that assms(1)] program_next_returns [OF assms(1), of q] i0(1,2) by auto
  ultimately show ?thesis using s0(1) \<open>doServiceAudio s2\<close> by blast
qed

lemma program_never_stuck_witness:
  "\<exists>ob' s0. main demo_board True (\<lparr>devcon_state = SYS_DEVCON_STATE_INIT, devcon_status = SYS_STATUS_UNINITIALIZED\<rparr>, reset_app 0) =
       Some (ob', s0) \<and> (\<exists>l s1 m1. Option.bind (program_next demo_board (\<lambda>_ _. [MIDI_event True True 0xF8]) (Main_loop s0 (\<lambda>_. 0)))
         (program_next demo_board (\<lambda>_ _. [MIDI_event True True 0xF8])) =
         Some (Display_loop l s1 m1))"
proof -
  have "ready_board demo_board"
    using demo_board_ok by (simp add: ready_board_def good_env_def flash_ok_def kPeaksMagic_def)
  from program_never_stuck [OF this demo_board_ok(2)] show ?thesis by blast
qed

end
