(* ===== verification/Blanking.thy ===== *)
theory Blanking
  imports Main_Loop
begin

text \<open>
  The blanking timer of the display (\<open>updateDisplay\<close>, with \<open>kTimeToBlank\<close>): what the audio service does when nothing
  arrives and no encoder is turned, and how many refreshes the display stays on then.
\<close>

section \<open>The service at rest\<close>

text \<open>
  Nothing has arrived, and contact A of each encoder stays at the level last seen. Pots and buttons may do what they like: they do not
  reset the timer.
\<close>

definition at_rest :: "'f env \<Rightarrow> ('f, 'a) app_scheme \<Rightarrow> bool" where
  "at_rest e s \<longleftrightarrow> ring_contents 256 (i2cRxQueue s) = [] \<and> ring_contents 16 (selectRxQueue s) = [] \<and>
     ring_contents 1024 (midiRxQueue s) = [] \<and>
     (\<forall>t. port_bit (inp e PORTH_in t) 4 = lastEncA (halfState s ! 0) \<and>
          port_bit (inp e PORTH_in t) 12 = lastEncA (halfState s ! 1))"

definition timer :: "('f, 'a) app_scheme \<Rightarrow> bool \<times> int" where
  "timer s = (displayIsOn s, displayBlankCountdown s)"

text \<open>What a service at rest leaves alone: the timer, the queues, the remembered contacts.\<close>

definition resting :: "('f, 'a) app_scheme \<Rightarrow> _" where
  "resting s = (timer s, rx_queues s, lastEncA (halfState s ! 0), lastEncA (halfState s ! 1))"

definition calm :: "'f env \<Rightarrow> ('f, 'a) app_scheme \<Rightarrow> ('f, 'a) app_scheme \<Rightarrow> bool" where
  "calm e s s' \<longleftrightarrow> (at_rest e s \<longrightarrow> resting s' = resting s)"

lemmas resting_defs = resting_def timer_def rx_queues_def

lemma at_rest_eq: "resting s' = resting s \<Longrightarrow> at_rest e s' = at_rest e s"
  by (simp add: at_rest_def resting_defs)

lemma calm_trans: "calm e s s' \<Longrightarrow> calm e s' s'' \<Longrightarrow> calm e s s''"
  using at_rest_eq [of s' s e] by (auto simp: calm_def)

lemma calm_hw [simp]:
  "calm e s (wr r v s)" "calm e s (tick n s)" "calm e s s" "resting (wr r v s) = resting s" "resting (tick n s) = resting s"
  by (simp_all add: calm_def resting_defs wr_def emit_def tick_def)

lemma rest_flush:
  assumes "rx_inv s" and "at_rest e s" shows "FlushMIDIRx dv h s = Some s"
proof -
  have "ring_take i2c_wrap (i2cRxQueue s) = None" "ring_take select_rx_wrap (selectRxQueue s) = None"
    "ring_take midi_rx_wrap (midiRxQueue s) = None"
    using assms by (simp_all add: rx_inv_def i2c_inv_def at_rest_def iq.take_ring(1) sq.take_ring(1) rq.take_ring(1))
  then show ?thesis
    by (simp add: FlushMIDIRx_def flush_i2c.simps [of dv s] flush_select.simps [of h s] flush_midi.simps [of h s])
qed

lemma calm_half:
  assumes "env_ok e" and "app_inv s" and "ping = 0 \<or> ping = 16"
  shows "\<exists>s'. service_half e ping s = Some s' \<and> served 8 s s' \<and> calm e s s'"
proof -
  obtain s' where s': "service_half e ping s = Some s'" "served 8 s s'"
    using served_half [OF assms] by blast
  have "resting s' = resting s" if rest: "at_rest e s"
  proof -
    let ?s2 = "wr PORTBSET (BIT 4) (s\<lparr>time := time s + word_of_int k_framesPerBlock\<rparr>)"
    have b: "counter_runs (inp e)" "audio_blocks ?s2" "rx_inv s"
      using assms(1,2) by (simp_all add: env_ok_def app_inv_def audio_blocks_def wr_def emit_def)
    obtain c x a outs where step: "algorithm_step (peaks e) (fpu e) (inp e) ping ?s2 =
        Some (?s2\<lparr>clock := c, pageBuffer := (pageBuffer ?s2)[0 := x], algorithmData := a, blocks_out := outs\<rparr>)"
      using algorithm_step_effect [OF b(1,2) assms(3), of "peaks e" "fpu e"] by blast
    let ?s4 = "wr PORTBCLR (BIT 4) (?s2\<lparr>clock := c, pageBuffer := (pageBuffer ?s2)[0 := x], algorithmData := a, blocks_out := outs\<rparr>)"
    have "rx_inv ?s4" using b(3) by (simp add: kept_defs wr_def emit_def)
    moreover have r: "resting ?s4 = resting s" by (simp add: resting_defs wr_def emit_def)
    moreover have "at_rest e ?s4" using rest at_rest_eq [OF r] by simp
    ultimately have "service_half e ping s = Some ?s4"
      by (simp add: service_half_def step rest_flush Let_def)
    with s'(1) r show ?thesis by simp
  qed
  with s' show ?thesis by (auto simp: calm_def)
qed

lemma calm_blocks:
  assumes "env_ok e" and "app_inv s" and "service_blocks e s = Some s'" shows "calm e s s'"
proof (cases "doServiceAudio s")
  case False
  with assms(3) show ?thesis by (simp add: service_blocks_def)
next
  case True
  have ping: "nat (k_framesPerBlock * 2) = 16" by (simp add: k_framesPerBlock_def)
  obtain s1 where s1: "service_half e 16 s = Some s1" "served 8 s s1" "calm e s s1"
    using calm_half [OF assms(1,2)] by blast
  let ?s2 = "wr DCH5INTCLR (BIT 4 OR BIT 5) s1"
  obtain s3 where s3: "wait_until (dev e) DCH5_HALF_DONE ?s2 = Some s3" "later ?s2 s3"
    using wait_until_returns [of "dev e" DCH5_HALF_DONE ?s2] assms(1) by (auto simp: env_ok_def)
  have inv: "app_inv ?s2"
    using served_inv [OF served_wr [OF served_inv [OF s1(2)], of DCH5INTCLR]] by (simp add: quiet_def)
  obtain s4 where s4: "service_half e 0 s3 = Some s4" "calm e s3 s4"
    using calm_half [OF assms(1) servicedD [OF serviced_later [OF inv s3(2)]]] by blast
  have "resting s3 = resting ?s2" using s3(2) by (auto simp: later_def resting_defs)
  then have "calm e s1 s3" by (simp add: calm_def)
  moreover have "s' = s4" using True assms(3) s1(1) s3(1) s4(1) by (simp add: service_blocks_def ping)
  ultimately show ?thesis using s1(3) s4(2) calm_trans by blast
qed

lemma calm_controls:
  assumes "app_inv s" and "poll_controls e s = Some s'" shows "calm e s s'"
proof -
  have "resting s' = resting s" if rest: "at_rest e s"
  proof -
    have l: "length (halfState s) = 2" using assms(1) by (simp add: app_inv_def)
    have u: "resting (snd (update_controls (inp e PORTH_in t) pb r)) = resting s"
      if "resting r = resting s" for t pb and r :: "('a, 'b) app_scheme"
    proof -
      have "port_bit (inp e PORTH_in t) 4 = lastEncA (halfState r ! 0)" "port_bit (inp e PORTH_in t) 12 = lastEncA (halfState r ! 1)"
        using rest that by (simp_all add: at_rest_def resting_def)
      with that show ?thesis
        by (simp add: update_controls_def read_controls_def decode_encoder_def Let_def resting_defs)
    qed
    have ui: "resting b = resting r" if "algorithm_UI (peaks e) enc r = Some b" for enc b and r :: "('a, 'b) app_scheme"
      using that by (auto simp: algorithm_UI_def resting_defs)
    have k: "resting (tick 2 (r\<lparr>slowTimeCountdown := n\<rparr>)) = resting r" "resting (r\<lparr>slowTimeCountdown := n\<rparr>) = resting r"
      for n and r :: "('a, 'b) app_scheme"
      by (simp_all add: resting_defs tick_def)
    show ?thesis
      using assms(2) k u ui by (auto simp: poll_controls_def Let_def case_prod_unfold split: if_split_asm)
  qed
  then show ?thesis by (simp add: calm_def)
qed

lemma resting_adcs: "resting (readAndTriggerADCs dv iv s) = resting s"
  by (simp add: readAndTriggerADCs_def poll_flag_def Let_def resting_defs wr_def emit_def tick_def)

lemma resting_midi: "resting (snd (HandleMIDIOut dv s)) = resting s"
  by (simp add: HandleMIDIOut_def poll_flag_def Let_def resting_defs wr_def emit_def tick_def)

lemma calm_internal:
  assumes "env_ok e" and "app_inv s"
  shows "\<exists>s'. serviceAudioInternalSingle e s = Some s' \<and> serviced s s' \<and> calm e s s'"
proof -
  obtain s' where s': "serviceAudioInternalSingle e s = Some s'" "serviced s s'"
    using internal_serviced [OF assms] by blast
  let ?s3 = "wr PORTJINV (BIT 11) (readAndTriggerADCs (dev e) (inp e) (wr PORTJINV (BIT 11) s))"
  have i1: "app_inv (wr PORTJINV (BIT 11) s)"
    using servicedD [OF serviced_wr [OF assms(2)]] by (simp add: quiet_def)
  have i3: "app_inv ?s3"
    using servicedD [OF serviced_wr [OF servicedD [OF serviced_adcs [OF assms(1) i1]]]] by (simp add: quiet_def)
  obtain s4 n where s4: "service_blocks e ?s3 = Some s4" "served n ?s3 s4"
    using served_blocks [OF assms(1) i3] by blast
  let ?s5 = "update_leds s4"
  let ?s6 = "if midiOutPending ?s5 then snd (HandleMIDIOut (dev e) ?s5) else ?s5"
  have i6: "app_inv ?s6"
    by (rule served_inv [OF served_midi [OF served_inv [OF served_leds [OF served_inv [OF s4(2)]]]]])
  have "poll_controls e ?s6 = Some s'"
    using s'(1) s4(1) by (simp add: serviceAudioInternalSingle_def Let_def)
  then have "calm e ?s6 s'" by (rule calm_controls [OF i6])
  moreover have "calm e s4 ?s6" by (simp add: calm_def resting_midi update_leds_def Let_def)
  moreover have "calm e ?s3 s4" by (rule calm_blocks [OF assms(1) i3 s4(1)])
  moreover have "calm e s ?s3" by (simp add: calm_def resting_adcs)
  ultimately have "calm e s s'" using calm_trans by blast
  with s' show ?thesis by blast
qed

lemma calm_internal_check:
  assumes "env_ok e" and "app_inv s"
  shows "\<exists>s'. CheckServiceAudioInternal e s = Some s' \<and> serviced s s' \<and> calm e s s'"
proof -
  let ?s2 = "wr DCH5INTCLR (BIT 3 OR BIT 4 OR BIT 5) (tick 1 s)"
  have s1: "serviced s (tick 1 s)" by (rule serviced_tick [OF assms(2)])
  have s2: "serviced s ?s2"
    by (rule serviced_trans [OF s1 serviced_wr [OF servicedD [OF s1]]]) (simp add: quiet_def)
  obtain s3 where s3: "serviceAudioInternalSingle e ?s2 = Some s3" "serviced ?s2 s3" "calm e ?s2 s3"
    using calm_internal [OF assms(1) servicedD [OF s2]] by blast
  have "calm e s ?s2" by (simp add: calm_def)
  with s3(3) have "calm e s s3" using calm_trans by blast
  with s1 s3(1) serviced_trans [OF s2 s3(2)] show ?thesis
    by (auto simp: CheckServiceAudioInternal_def when_pending_def poll_flag_def)
qed

text \<open>Saving the settings runs the service while it waits for the flash.\<close>

lemma calm_flash_op:
  assumes "env_ok e" and "finishes (dev e)" and "app_inv s"
    and "NVMOpWithAudioService (dev e) (irq_on e) (CheckServiceAudioInternal e) nvmop s = Some (x, s')"
  shows "app_inv s' \<and> calm e s s'"
proof -
  have r: "responsive (dev e)" using assms(1) by (simp add: env_ok_def)
  let ?I = "\<lambda>r. app_inv r \<and> calm e s r"
  have "\<exists>x s'. NVMOpWithAudioService (dev e) (irq_on e) (CheckServiceAudioInternal e) nvmop s = Some (x, s') \<and>
     ?I s' \<and> does_op nvmop (irq_on e) s s'"
  proof (rule NVMOp_returns [OF r assms(2)])
    show "?I (s\<lparr>clock := t, trace := trace s @ es\<rparr>)" for es t
      using assms(3) by (simp add: app_inv_def audio_blocks_def kept_defs calm_def resting_defs)
    show "\<exists>r'. CheckServiceAudioInternal e r = Some r' \<and> ?I r' \<and> proceeds r r'" if "?I r" for r
      using calm_internal_check [OF assms(1), of r] that calm_trans by (auto simp: serviced_defs)
    show "?I (tick 1 r)" if "?I r" for r
      using that servicedD [OF serviced_tick [of r 1]] calm_trans [OF _ calm_hw(2)] by blast
    show "?I (wr NVMCONCLR v r)" if "?I r" for r v
      using that calm_trans [OF _ calm_hw(1)] by (auto simp: app_inv_def audio_blocks_def kept_defs wr_def emit_def)
  qed
  with assms(4) show ?thesis by simp
qed

lemma calm_idle:
  assumes "env_ok e" and "finishes (dev e)" and "app_inv s"
    and "algorithm_idle (dev e) (irq_on e) (CheckServiceAudioInternal e) (buffer_addr e) s = Some s'"
  shows "calm e s s'"
proof (cases "writeToFlash (algorithmData s)")
  case False
  with assms(4) show ?thesis by (simp add: algorithm_idle_def)
next
  case True
  let ?b = "wr NVMADDR (PEAKS_NVM_BASE AND 0x1FFFFFFF) (s\<lparr>algorithmData := (algorithmData s)\<lparr>writeToFlash := False\<rparr>\<rparr>)"
  let ?d = "\<lambda>r. wr NVMADDR (PEAKS_NVM_BASE AND 0x1FFFFFFF) (wr NVMSRCADDR (buffer_addr e AND 0x1FFFFFFF) (prepare_settings r))"
  obtain x s1 y where ops: "NVMOpWithAudioService (dev e) (irq_on e) (CheckServiceAudioInternal e) 0x4004 ?b = Some (x, s1)"
      "NVMOpWithAudioService (dev e) (irq_on e) (CheckServiceAudioInternal e) 0x4003 (?d s1) = Some (y, s')"
    using True assms(4) by (auto simp: algorithm_idle_def erase_settings_def write_settings_def bind_eq_Some_conv Let_def)
  have inv: "app_inv ?b" if "app_inv s"
    using that by (simp add: app_inv_def audio_blocks_def kept_defs wr_def emit_def inv_intros)
  have inv_d: "app_inv (?d s1)" if "app_inv s1"
    using that by (simp add: app_inv_def audio_blocks_def kept_defs wr_def emit_def prepare_settings_def)
  have "app_inv s1 \<and> calm e ?b s1" by (rule calm_flash_op [OF assms(1,2) inv [OF assms(3)] ops(1)])
  moreover from this have "calm e (?d s1) s'" using calm_flash_op [OF assms(1,2) inv_d ops(2)] by blast
  moreover have "calm e s ?b" "calm e s1 (?d s1)"
    by (simp_all add: calm_def resting_defs wr_def emit_def prepare_settings_def)
  ultimately show ?thesis using calm_trans by blast
qed

lemma quiet_service:
  assumes "env_ok e" and "finishes (dev e)" and "app_inv s"
  shows "\<exists>s'. CheckServiceAudio e s = Some s' \<and> undamaged s s' \<and> calm e s s'"
proof -
  let ?s2 = "wr DCH5INTCLR (BIT 3 OR BIT 4 OR BIT 5) (tick 1 s)"
  have s2: "app_inv ?s2"
    using servicedD [OF serviced_wr [OF servicedD [OF serviced_tick [OF assms(3)]]]] by (simp add: quiet_def)
  obtain s3 where s3: "serviceAudioInternalSingle e ?s2 = Some s3" "serviced ?s2 s3" "calm e ?s2 s3"
    using calm_internal [OF assms(1) s2] by blast
  obtain s4 where s4: "algorithm_idle (dev e) (irq_on e) (CheckServiceAudioInternal e) (buffer_addr e) s3 = Some s4"
    using idle_undamaged [OF assms(1,2) servicedD [OF s3(2)]] by blast
  have "calm e s ?s2" by (simp add: calm_def)
  moreover have "calm e s3 s4" by (rule calm_idle [OF assms(1,2) servicedD [OF s3(2)] s4])
  ultimately have c: "calm e s s4" using s3(3) calm_trans by blast
  obtain s' where s': "CheckServiceAudio e s = Some s'" "undamaged s s'" using check_undamaged [OF assms] by blast
  have "s' = (if fst (poll_flag (dev e) DCH5_BLOCK_DONE s) then s4 else tick 1 s)"
    using s'(1) s3(1) s4
    by (simp add: CheckServiceAudio_def when_pending_def poll_flag_def serviceAudioSingle_def split: if_split_asm)
  with c s' show ?thesis by (metis calm_hw(2))
qed

text \<open>Several refreshes, one after the other.\<close>

definition refreshes :: "'f env \<Rightarrow> nat \<Rightarrow> ('f, 'a) app_scheme \<Rightarrow> ('f, 'a) app_scheme option" where
  "refreshes e n =
     fold_opt (\<lambda>_. updateDisplay (dev e) (CheckServiceAudio e) (algorithm_display (peaks e) (CheckServiceAudio e))) [0..<n]"

lemma refreshes_simps:
  "refreshes e 0 s = Some s"
  "refreshes e (Suc n) s =
     Option.bind (refreshes e n s)
       (updateDisplay (dev e) (CheckServiceAudio e) (algorithm_display (peaks e) (CheckServiceAudio e)))"
  by (simp_all add: refreshes_def fold_opt_append) (simp add: fold_opt_Nil cong: Option.bind_cong)

definition timer_step :: "bool \<times> int \<Rightarrow> bool \<times> int" where
  "timer_step oc = (case oc of (on, c) \<Rightarrow> if on then (3200 < c, max 0 (c - 3200)) else (c \<noteq> 0, c))"

lemma at_rest_display [simp]:
  "at_rest e (s\<lparr>screen := xs\<rparr>) = at_rest e s" "at_rest e (s\<lparr>screen2 := xs\<rparr>) = at_rest e s"
  "at_rest e (s\<lparr>screen2ptr := p\<rparr>) = at_rest e s"
  "at_rest e (s\<lparr>clock := t, trace := tr, displayBlankCountdown := n, displayIsOn := b\<rparr>) = at_rest e s"
  by (simp_all add: at_rest_def)

text \<open>At rest the code's service is one that keeps the timer at whatever value it has.\<close>

interpretation resting_loop: loop_service e "\<lambda>s. at_rest e s \<and> timer s = tc" "CheckServiceAudio e" for e tc
proof unfold_locales
  fix r :: "('a, 'b) app_scheme"
  assume r: "good_env e \<and> app_inv r \<and> at_rest e r \<and> timer r = tc"
  then obtain r' where r': "CheckServiceAudio e r = Some r'" "undamaged r r'" "resting r' = resting r"
    using quiet_service [of e r] unfolding good_env_def calm_def by blast
  with at_rest_eq [OF r'(3), of e] r
  show "\<exists>r'. CheckServiceAudio e r = Some r' \<and> (good_env e \<and> app_inv r' \<and> at_rest e r' \<and> timer r' = tc) \<and> drawing r' = drawing r"
    by (auto simp: undamaged_def resting_def)
next
  fix ref xs and r :: "('a, 'b) app_scheme"
  assume "good_env e \<and> app_inv r \<and> at_rest e r \<and> timer r = tc"
  then show "good_env e \<and> app_inv (set_screen ref xs r) \<and> at_rest e (set_screen ref xs r) \<and> timer (set_screen ref xs r) = tc"
    by (cases ref) (simp_all add: set_screen_def app_inv_def audio_blocks_def kept_defs timer_def)
qed (simp add: timer_def)

lemma refresh_timer:
  fixes s :: "('f, 'a) app_scheme"
  assumes "good_env e" and "loop_inv s \<and> at_rest e s"
  shows "\<exists>s1 s'. blanking (dev e) s = Some s1 \<and>
     trace s1 = trace s @ blank_events (displayIsOn s) (displayBlankCountdown s) \<and>
     updateDisplay (dev e) (CheckServiceAudio e) (algorithm_display (peaks e) (CheckServiceAudio e)) s = Some s' \<and>
     loop_inv s' \<and> at_rest e s' \<and> timer s' = timer_step (timer s)"
proof -
  have "responsive (dev e)" using assms(1) by (simp add: good_env_def env_ok_def)
  note blank = blanking_step [OF this, of s]
  have step: "snd (timer_step (timer s)) = (if displayIsOn s then max 0 (displayBlankCountdown s - 3200) else displayBlankCountdown s)"
    "fst (timer_step (timer s)) = (if displayIsOn s then 3200 < displayBlankCountdown s else displayBlankCountdown s \<noteq> 0)"
    by (simp_all add: timer_step_def timer_def)
  from blank obtain t where b: "blanking (dev e) s = Some (s\<lparr>clock := t,
      trace := trace s @ blank_events (displayIsOn s) (displayBlankCountdown s),
      displayBlankCountdown := snd (timer_step (timer s)), displayIsOn := fst (timer_step (timer s))\<rparr>)"
    unfolding step by (elim exE)
  define s1 where "s1 = s\<lparr>clock := t, trace := trace s @ blank_events (displayIsOn s) (displayBlankCountdown s),
      displayBlankCountdown := snd (timer_step (timer s)), displayIsOn := fst (timer_step (timer s))\<rparr>"
  have "at_rest e s1" using assms(2) by (simp add: s1_def)
  moreover have "loop_inv s1" unfolding s1_def by (rule loop_inv_blanked) (use assms(2) in simp)
  moreover have "timer s1 = timer_step (timer s)" by (simp add: s1_def timer_def)
  ultimately have "loop_inv s1 \<and> at_rest e s1 \<and> timer s1 = timer_step (timer s)" by simp
  from resting_loop.updateDisplay_after [OF assms(1) b [folded s1_def] this] show ?thesis using b by auto
qed

text \<open>
  C25: the blanking timer, as long as no byte arrives and no encoder is turned, with the code's audio service running inside every
  refresh: with the display on and a countdown of \<open>c\<close>, \<open>n\<close> calls of \<open>updateDisplay\<close> later it is still on exactly when \<open>3200 * n < c\<close>, so 27000 refreshes (15 minutes) after the last
  activity it goes off; the next refresh sends the panels the command to switch off exactly if its number is the one at which the
  countdown ends, and no command of the timer before. Off with the countdown at 0 it stays off, and no refresh sends a command of
  the timer; off with the countdown set again, the first refresh switches it on.
\<close>

theorem blanking_timer:
  fixes s :: "('f, 'a) app_scheme"
  assumes "env_ok e" and "finishes (dev e)" and "loop_inv s" and "at_rest e s"
    and "displayBlankCountdown s = c" and "0 \<le> c"
  shows "(displayIsOn s \<and> 0 < c \<longrightarrow>
       (\<exists>s' s1. refreshes e n s = Some s' \<and> loop_inv s' \<and>
          displayIsOn s' = (3200 * int n < c) \<and> displayBlankCountdown s' = max 0 (c - 3200 * int n) \<and>
          blanking (dev e) s' = Some s1 \<and>
          trace s1 = trace s' @ (if 3200 * int n < c \<and> c \<le> 3200 * int (Suc n) then off_events else []))) \<and>
     (\<not> displayIsOn s \<and> c = 0 \<longrightarrow>
       (\<exists>s' s1. refreshes e n s = Some s' \<and> loop_inv s' \<and> \<not> displayIsOn s' \<and>
          blanking (dev e) s' = Some s1 \<and> trace s1 = trace s')) \<and>
     (\<not> displayIsOn s \<and> c \<noteq> 0 \<longrightarrow>
       (\<exists>s' s1. refreshes e 1 s = Some s' \<and> loop_inv s' \<and> displayIsOn s' \<and> displayBlankCountdown s' = c \<and>
          blanking (dev e) s = Some s1 \<and> trace s1 = trace s @ on_events)) \<and>
     kTimeToBlank = 3200 * 27000"
proof -
  have g: "good_env e" using assms(1,2) by (simp add: good_env_def)
  note step = refresh_timer [OF g]
  have run: "\<exists>s'. refreshes e n s = Some s' \<and> loop_inv s' \<and> at_rest e s' \<and> timer s' = (timer_step ^^ n) (timer s)" for n
  proof (induction n)
    case 0
    show ?case using assms(3,4) by (simp add: refreshes_simps)
  next
    case (Suc n)
    then obtain u where "refreshes e n s = Some u" "loop_inv u \<and> at_rest e u" "timer u = (timer_step ^^ n) (timer s)" by blast
    with step [of u] show ?case by (auto simp: refreshes_simps)
  qed
  have on: "(timer_step ^^ n) (True, c) = (3200 * int n < c, max 0 (c - 3200 * int n))" if "0 < c" for n
    using that by (induction n) (auto simp: timer_step_def)
  have off: "(timer_step ^^ n) (False, 0) = (False, 0)" for n by (induction n) (simp_all add: timer_step_def)
  obtain s' where s': "refreshes e n s = Some s'" "loop_inv s' \<and> at_rest e s'" "timer s' = (timer_step ^^ n) (timer s)"
    using run by blast
  obtain s1 where s1: "blanking (dev e) s' = Some s1"
      "trace s1 = trace s' @ blank_events (displayIsOn s') (displayBlankCountdown s')"
    using step [OF s'(2)] by blast
  show ?thesis
  proof (intro conjI impI)
    assume "displayIsOn s \<and> 0 < c"
    then have "displayIsOn s' = (3200 * int n < c)" "displayBlankCountdown s' = max 0 (c - 3200 * int n)"
      using s'(3) on [of n] assms(5) by (simp_all add: timer_def)
    with s'(1,2) s1 show "\<exists>s' s1. refreshes e n s = Some s' \<and> loop_inv s' \<and>
          displayIsOn s' = (3200 * int n < c) \<and> displayBlankCountdown s' = max 0 (c - 3200 * int n) \<and>
          blanking (dev e) s' = Some s1 \<and>
          trace s1 = trace s' @ (if 3200 * int n < c \<and> c \<le> 3200 * int (Suc n) then off_events else [])"
      by (intro exI [of _ s'] exI [of _ s1]) (auto simp: blank_events_def)
  next
    assume "\<not> displayIsOn s \<and> c = 0"
    then have "\<not> displayIsOn s'" "displayBlankCountdown s' = 0"
      using s'(3) off [of n] assms(5) by (simp_all add: timer_def)
    with s'(1,2) s1 show "\<exists>s' s1. refreshes e n s = Some s' \<and> loop_inv s' \<and> \<not> displayIsOn s' \<and>
          blanking (dev e) s' = Some s1 \<and> trace s1 = trace s'"
      by (intro exI [of _ s'] exI [of _ s1]) (simp add: blank_events_def)
  next
    assume "\<not> displayIsOn s \<and> c \<noteq> 0"
    with step [of s] assms(3-5) show "\<exists>s' s1. refreshes e 1 s = Some s' \<and> loop_inv s' \<and> displayIsOn s' \<and>
          displayBlankCountdown s' = c \<and> blanking (dev e) s = Some s1 \<and> trace s1 = trace s @ on_events"
      by (auto simp: timer_def timer_step_def blank_events_def refreshes_def fold_opt_Nil)
  qed (simp add: kTimeToBlank_def SAMPLE_RATE_def)
qed

text \<open>The witness: a board whose inputs never change, and both contacts last seen at their level.\<close>

definition resting_app :: "(int, unit) app_scheme" where
  "resting_app = demo_app\<lparr>halfState := replicate 2 (released\<lparr>lastEncA := 0\<rparr>), midiRxQueue := ring_empty 1024 0\<rparr>"

lemma resting_app: "loop_inv resting_app" "at_rest demo_env resting_app"
proof -
  show "loop_inv resting_app"
    using demo_loop_inv by (simp add: resting_app_def loop_inv_def app_inv_def audio_blocks_def kept_defs ring_empty_contents)
  show "at_rest demo_env resting_app"
    by (simp add: at_rest_def resting_app_def demo_input_def port_bit_def demo_app_def receive.defs demo_receive_def i2c.defs
        demo_i2c_def recall.defs demo_recall_def midi_in.defs demo_in_def midi_out.defs demo_midi_def display.defs demo_display_def
        ring_empty_contents released_def)
qed

lemma blanking_timer_witness:
  "\<exists>s'. refreshes demo_env 27000 resting_app = Some s' \<and> \<not> displayIsOn s'"
proof -
  have "displayIsOn resting_app" "displayBlankCountdown resting_app = 86400000"
    by (simp_all add: resting_app_def demo_app_def receive.defs demo_receive_def i2c.defs demo_i2c_def recall.defs demo_recall_def
        midi_in.defs demo_in_def midi_out.defs demo_midi_def display.defs demo_display_def kTimeToBlank_def SAMPLE_RATE_def)
  with blanking_timer [OF demo_env_ok resting_app, of 86400000 27000] show ?thesis by auto
qed

end
