(* ===== verification/Interleaving.thy ===== *)
theory Interleaving
  imports Receive
begin

text \<open>
  The receive interrupts inside \<open>FlushMIDIRx\<close>: the consumer's loop taken apart into the accesses of its
  three lines, with any number of receive interrupts of the same queue between them. The handlers are not
  preempted by the foreground, so that an interrupt is one step.
\<close>

section \<open>The steps\<close>

text \<open>
  Where the consumer is: before the comparison with the write index, between the comparison and the store of
  the read index, between the store and the load of the byte.
\<close>

datatype race_point = Compare | Store int | Load int

record 'a race =
  race_queue :: "'a ring"
  race_point :: race_point
  accepted :: "'a list"
  consumed :: "'a list"
  overrun :: bool

text \<open>
  One access of the consumer; \<open>None\<close> is the \<open>break\<close>. The last three fields are for the statements only: the bytes
  the handler stored, the bytes the consumer loaded, and whether a byte has been stored over a queue that was full
  without looking so: before the first read the read index is -1, which no write index equals.
\<close>

definition consumer :: "(int \<Rightarrow> int) \<Rightarrow> 'a race \<Rightarrow> 'a race option" where
  "consumer nxt r =
     (let q = race_queue r in
      case race_point r of
        Compare \<Rightarrow>
          let nextRead = nxt (ring_read q) in
          if nextRead = ring_write q then None else Some (r\<lparr>race_point := Store nextRead\<rparr>)
      | Store i \<Rightarrow> Some (r\<lparr>race_queue := q\<lparr>ring_read := i\<rparr>, race_point := Load i\<rparr>)
      | Load i \<Rightarrow> Some (r\<lparr>race_point := Compare, consumed := consumed r @ [ring_slots q ! nat i]\<rparr>))"

definition received :: "nat \<Rightarrow> (int \<Rightarrow> int) \<Rightarrow> 'a \<Rightarrow> 'a race \<Rightarrow> 'a race" where
  "received n nxt x r =
     (let q = race_queue r in
      r\<lparr>race_queue := ring_put nxt x q,
        accepted := accepted r @ (if ring_read q = ring_write q then [] else [x]),
        overrun := overrun r \<or> \<not> ring_live q \<and> length (ring_contents n q) = n - 1\<rparr>)"

inductive race_step :: "nat \<Rightarrow> (int \<Rightarrow> int) \<Rightarrow> 'a race \<Rightarrow> 'a race \<Rightarrow> bool" for n nxt where
  interrupt: "race_step n nxt r (received n nxt x r)"
| consume: "consumer nxt r = Some r' \<Longrightarrow> race_step n nxt r r'"

abbreviation race_start :: "'a ring \<Rightarrow> 'a race" where
  "race_start q \<equiv> \<lparr>race_queue = q, race_point = Compare, accepted = [], consumed = [], overrun = False\<rparr>"

text \<open>Left alone, three accesses of the consumer are the \<open>ring_take\<close> of the model of \<open>FlushMIDIRx\<close>.\<close>

lemma consumer_takes:
  "race_point r = Compare \<Longrightarrow>
   Option.bind (consumer nxt r) (\<lambda>r. Option.bind (consumer nxt r) (consumer nxt)) =
   map_option (\<lambda>(x, q). r\<lparr>race_queue := q, consumed := consumed r @ [x]\<rparr>) (ring_take nxt (race_queue r))"
  by (cases r) (simp add: consumer_def ring_take_def Let_def)

text \<open>The byte whose slot the read index has passed and that is not loaded yet.\<close>

definition in_flight :: "'a race \<Rightarrow> 'a list" where
  "in_flight r = (case race_point r of Load i \<Rightarrow> [ring_slots (race_queue r) ! nat i] | _ \<Rightarrow> [])"

text \<open>What holds whatever arrives, and what holds as long as no byte overran the queue.\<close>

definition race_control :: "nat \<Rightarrow> (int \<Rightarrow> int) \<Rightarrow> 'a ring \<Rightarrow> 'a race \<Rightarrow> bool" where
  "race_control n nxt q r \<longleftrightarrow>
     ring_inv n (race_queue r) \<and> (ring_live q \<longrightarrow> ring_live (race_queue r)) \<and>
     (overrun r \<longrightarrow> \<not> ring_live q \<and> n \<le> length (ring_contents n q) + length (accepted r)) \<and>
     (case race_point r of
        Compare \<Rightarrow> True
      | Store i \<Rightarrow> i = nxt (ring_read (race_queue r))
      | Load i \<Rightarrow> i = ring_read (race_queue r) \<and> 0 \<le> i)"

definition race_lossless :: "nat \<Rightarrow> 'a ring \<Rightarrow> 'a race \<Rightarrow> bool" where
  "race_lossless n q r \<longleftrightarrow>
     ring_contents n q @ accepted r = consumed r @ in_flight r @ ring_contents n (race_queue r) \<and>
     (\<forall>i. race_point r = Store i \<longrightarrow> ring_contents n (race_queue r) \<noteq> [])"

definition race_inv :: "nat \<Rightarrow> (int \<Rightarrow> int) \<Rightarrow> 'a ring \<Rightarrow> 'a race \<Rightarrow> bool" where
  "race_inv n nxt q r \<longleftrightarrow> race_control n nxt q r \<and> (\<not> overrun r \<longrightarrow> race_lossless n q r)"

section \<open>The invariant\<close>

context ring_index
begin

text \<open>
  The handler writes the slot of the read index only when it is also that of the write index, and then the queue counts
  as full: the byte in flight is safe.
\<close>

lemma put_spares_read_slot:
  assumes "ring_inv size q" and "0 \<le> ring_read q"
  shows "ring_slots (ring_put nxt x q) ! nat (ring_read q) = ring_slots q ! nat (ring_read q)"
  using assms by (auto simp: ring_put_def ring_inv_def eq_nat_nat_iff intro!: nth_list_update_neq)

lemma put_adds_or_drops:
  assumes inv: "ring_inv size q" and ok: "ring_live q \<or> ring_count size q < size - 1"
  shows "ring_contents size (ring_put nxt x q) =
    ring_contents size q @ (if ring_read q = ring_write q then [] else [x])"
proof (cases "ring_read q = ring_write q")
  case True
  then show ?thesis by (simp add: ring_put_def)
next
  case False
  then have "ring_count size q < size - 1"
    using ok full_iff(1) [OF inv] ring_count_bound [OF size_pos, of q] by fastforce
  then show ?thesis using False put_ring_contents [OF inv] by simp
qed

lemma compare_iff:
  "ring_inv size q \<Longrightarrow> nxt (ring_read q) = ring_write q \<longleftrightarrow> ring_contents size q = []"
  using take_ring [of q] by (cases "ring_contents size q") (force simp: ring_take_def Let_def split: if_splits)+

lemma store_read:
  assumes inv: "ring_inv size q" and ne: "ring_contents size q \<noteq> []"
  defines "i \<equiv> nxt (ring_read q)"
  shows "ring_inv size (q\<lparr>ring_read := i\<rparr>) \<and> 0 \<le> i \<and>
    ring_contents size q = ring_slots q ! nat i # ring_contents size (q\<lparr>ring_read := i\<rparr>)"
proof -
  obtain x xs where c: "ring_contents size q = x # xs" using ne by (cases "ring_contents size q") auto
  from take_ring(2) [OF inv c] obtain q' where
    "ring_take nxt q = Some (x, q')" "ring_inv size q'" "ring_contents size q' = xs" by blast
  moreover have "0 \<le> i" using inv size_pos by (simp add: i_def nxt_mod ring_inv_def)
  ultimately show ?thesis using c by (auto simp: ring_take_def Let_def i_def split: if_splits)
qed

lemma interrupt_inv:
  assumes inv: "race_inv size nxt q r"
  shows "race_inv size nxt q (received size nxt x r)"
proof -
  let ?q = "race_queue r" and ?r = "received size nxt x r"
  let ?over = "\<not> ring_live ?q \<and> length (ring_contents size ?q) = size - 1"
  have c: "race_control size nxt q r" and i: "ring_inv size ?q"
    using inv by (simp_all add: race_inv_def race_control_def)
  have live: "ring_live (ring_put nxt x ?q) \<longleftrightarrow> ring_live ?q" by (simp add: ring_live_def)
  have ok: "ring_live ?q \<or> ring_count size ?q < size - 1" if "\<not> ?over"
    using that ring_count_bound [OF size_pos, of ?q] by fastforce
  have lossless: "race_lossless size q ?r" if "\<not> overrun ?r"
  proof -
    from that have no: "\<not> overrun r" "\<not> ?over" by (auto simp: received_def Let_def)
    then have l: "race_lossless size q r" using inv by (simp add: race_inv_def)
    have "in_flight ?r = in_flight r"
      using c put_spares_read_slot [OF i, of x]
      by (auto simp: in_flight_def received_def race_control_def Let_def split: race_point.splits)
    with l put_adds_or_drops [OF i ok [OF no(2)], of x] show ?thesis
      by (auto simp: race_lossless_def received_def Let_def)
  qed
  have "size \<le> length (ring_contents size q) + length (accepted ?r)" if "overrun ?r" and "\<not> overrun r"
  proof -
    from that have o: "?over" and l: "race_lossless size q r"
      using inv by (auto simp: received_def race_inv_def Let_def)
    then have "ring_read ?q \<noteq> ring_write ?q" using i by (auto simp: ring_live_def ring_inv_def)
    then have "length (accepted ?r) = Suc (length (accepted r))" by (simp add: received_def Let_def)
    moreover from l have "length (ring_contents size ?q) \<le> length (ring_contents size q) + length (accepted r)"
      unfolding race_lossless_def by (metis length_append le_add1 le_add2 le_trans)
    ultimately show ?thesis using o size_pos by simp
  qed
  moreover have "length (accepted r) \<le> length (accepted ?r)" by (simp add: received_def Let_def)
  moreover have "overrun ?r \<Longrightarrow> \<not> overrun r \<Longrightarrow> \<not> ring_live q"
    using c by (auto simp: received_def race_control_def Let_def)
  ultimately have "overrun ?r \<Longrightarrow> \<not> ring_live q \<and> size \<le> length (ring_contents size q) + length (accepted ?r)"
    using c by (cases "overrun r") (auto simp: race_control_def)
  then have "race_control size nxt q ?r"
    using c live by (auto simp: race_control_def received_def put_ring_inv Let_def split: race_point.splits)
  with lossless show ?thesis by (simp add: race_inv_def)
qed

lemma consumer_inv:
  assumes step: "consumer nxt r = Some r'" and inv: "race_inv size nxt q r"
  shows "race_inv size nxt q r'"
proof (cases "race_point r")
  case Compare
  then show ?thesis
    using step inv compare_iff [of "race_queue r"]
    by (auto simp: consumer_def race_inv_def race_control_def race_lossless_def in_flight_def Let_def split: if_splits)
next
  case (Store i)
  let ?q = "race_queue r"
  have r': "r' = r\<lparr>race_queue := ?q\<lparr>ring_read := i\<rparr>, race_point := Load i\<rparr>"
    using step Store by (simp add: consumer_def Let_def)
  have c: "ring_inv size ?q" "i = nxt (ring_read ?q)"
    using inv Store by (simp_all add: race_inv_def race_control_def)
  have i: "0 \<le> i" "i < int size" using c size_pos by (simp_all add: nxt_mod ring_inv_def)
  have "race_control size nxt q r'"
    using inv i by (auto simp: r' race_inv_def race_control_def ring_live_def ring_inv_def)
  moreover have "race_lossless size q r'" if "\<not> overrun r"
    using inv that Store store_read [OF c(1)] c(2)
    by (auto simp: r' race_inv_def race_lossless_def in_flight_def)
  ultimately show ?thesis by (simp add: race_inv_def r')
next
  case (Load i)
  then show ?thesis
    using step inv by (auto simp: consumer_def race_inv_def race_control_def race_lossless_def in_flight_def Let_def)
qed

lemma race_step_inv: "race_step size nxt r r' \<Longrightarrow> race_inv size nxt q r \<Longrightarrow> race_inv size nxt q r'"
  by (erule race_step.cases) (auto intro: interrupt_inv consumer_inv)

lemma race_steps_inv:
  "(race_step size nxt)\<^sup>*\<^sup>* r r' \<Longrightarrow> race_inv size nxt q r \<Longrightarrow> race_inv size nxt q r'"
  by (induction rule: rtranclp_induct) (auto intro: race_step_inv)

lemma race_runs:
  assumes "(race_step size nxt)\<^sup>*\<^sup>* (race_start q) r" and "ring_inv size q"
  shows "race_inv size nxt q r"
  by (rule race_steps_inv [OF assms(1)])
    (use assms(2) in \<open>simp add: race_inv_def race_control_def race_lossless_def in_flight_def\<close>)

text \<open>Bytes are refused only when \<open>size - 1\<close> of them are waiting.\<close>

lemma refused_when_full:
  "ring_inv size q \<Longrightarrow> ring_read q = ring_write q \<Longrightarrow> length (ring_contents size q) = size - 1"
  using full_iff(2) [of q] ring_count_bound [OF size_pos, of q] by fastforce

lemma race_undisturbed:
  assumes "ring_take nxt (race_queue r) = Some (x, q')" and "race_point r = Compare"
  shows "(race_step size nxt)\<^sup>*\<^sup>* r (r\<lparr>race_queue := q', consumed := consumed r @ [x]\<rparr>)"
proof -
  from consumer_takes [OF assms(2), of nxt] assms(1) obtain r1 r2 where
    "consumer nxt r = Some r1" "consumer nxt r1 = Some r2"
    "consumer nxt r2 = Some (r\<lparr>race_queue := q', consumed := consumed r @ [x]\<rparr>)"
    by (auto simp: bind_eq_Some_conv)
  then show ?thesis
    by (meson race_step.consume converse_rtranclp_into_rtranclp rtranclp.rtrancl_refl)
qed

text \<open>From any point of the loop the consumer can empty the queue, and then has loaded every byte received.\<close>

lemma race_drains_from_head:
  "ring_contents size (race_queue r) = xs \<Longrightarrow> ring_inv size (race_queue r) \<Longrightarrow> race_point r = Compare \<Longrightarrow>
    \<exists>r'. (race_step size nxt)\<^sup>*\<^sup>* r r' \<and> race_point r' = Compare \<and> ring_contents size (race_queue r') = [] \<and>
      accepted r' = accepted r \<and> overrun r' = overrun r \<and> consumed r' = consumed r @ xs"
proof (induction xs arbitrary: r)
  case (Cons x xs)
  from take_ring(2) [OF Cons.prems(2,1)] obtain q' where
    q': "ring_take nxt (race_queue r) = Some (x, q')" "ring_inv size q'" "ring_contents size q' = xs" by blast
  let ?r = "r\<lparr>race_queue := q', consumed := consumed r @ [x]\<rparr>"
  obtain r' where "(race_step size nxt)\<^sup>*\<^sup>* ?r r'" "race_point r' = Compare"
    "ring_contents size (race_queue r') = []" "accepted r' = accepted r" "overrun r' = overrun r"
    "consumed r' = consumed r @ x # xs"
    using Cons.IH [of ?r] q' Cons.prems(3) by auto
  with race_undisturbed [OF q'(1) Cons.prems(3)] show ?case by (meson rtranclp_trans)
qed auto

lemma race_to_head:
  "\<exists>r'. (race_step size nxt)\<^sup>*\<^sup>* r r' \<and> race_point r' = Compare \<and> accepted r' = accepted r \<and> overrun r' = overrun r"
proof -
  have l: "\<exists>r'. (race_step size nxt)\<^sup>*\<^sup>* r r' \<and> race_point r' = Compare \<and> accepted r' = accepted r \<and>
      overrun r' = overrun r" if "race_point r = Load i" for r :: "'a race" and i
    using that by (intro exI conjI, intro r_into_rtranclp race_step.consume, simp add: consumer_def Let_def) simp_all
  show ?thesis
  proof (cases "race_point r")
    case (Store i)
    let ?r = "r\<lparr>race_queue := (race_queue r)\<lparr>ring_read := i\<rparr>, race_point := Load i\<rparr>"
    have "race_step size nxt r ?r" by (rule race_step.consume) (simp add: Store consumer_def Let_def)
    with l [of ?r i] show ?thesis by (auto intro: converse_rtranclp_into_rtranclp)
  qed (use l in auto)
qed

lemma race_drains:
  assumes inv: "race_inv size nxt q r" and "\<not> overrun r"
  shows "\<exists>r'. (race_step size nxt)\<^sup>*\<^sup>* r r' \<and> ring_contents size (race_queue r') = [] \<and>
    consumed r' = ring_contents size q @ accepted r"
proof -
  obtain r1 where r1: "(race_step size nxt)\<^sup>*\<^sup>* r r1" "race_point r1 = Compare" "accepted r1 = accepted r"
      "overrun r1 = overrun r"
    using race_to_head [of r] by blast
  from race_steps_inv [OF r1(1) inv] assms(2) r1
  have i: "ring_inv size (race_queue r1)"
    and c: "ring_contents size q @ accepted r = consumed r1 @ ring_contents size (race_queue r1)"
    by (simp_all add: race_inv_def race_control_def race_lossless_def in_flight_def)
  from race_drains_from_head [OF refl i r1(2)] c r1(1) show ?thesis
    by (metis rtranclp_trans)
qed

end

section \<open>The three queues\<close>

definition rx_rings :: "(nat \<times> (int \<Rightarrow> int)) set" where
  "rx_rings = {(256, i2c_wrap), (16, select_rx_wrap), (1024, midi_rx_wrap)}"

lemma rx_ring_index: "(n, nxt) \<in> rx_rings \<Longrightarrow> ring_index n nxt"
  by (auto simp: rx_rings_def intro: iq.ring_index_axioms sq.ring_index_axioms rq.ring_index_axioms)

text \<open>
  C11: However the receive interrupts fall between the accesses of \<open>FlushMIDIRx\<close> to a queue, for each of the three queues, from
  any contents and with any number of interrupts: unless the queue is overrun, the bytes the consumer has loaded, the byte whose slot it
  has passed, and the bytes in the queue are, in this order, the old contents and the bytes the handler stored. None is lost,
  repeated or reordered; the handler refuses a byte only when one less than the size of the queue are waiting;
  and the consumer can always go on to load everything. An overrun needs a queue that has never been read and as many bytes
  in it and since as it has slots: the handler's test cannot see that such a queue is full, and the byte that fills the last slot makes it
  look empty. The steps are those of the code: each handler changes its queue by \<open>ring_put\<close>, each loop of \<open>FlushMIDIRx\<close> takes its
  byte by \<open>ring_take\<close>, and \<open>ring_take\<close> is three accesses of the consumer with no interrupt between them.
\<close>

theorem receive_race_lossless:
  fixes q :: "'a ring" and t :: "'b i2c_scheme" and s :: "'c receive_scheme"
  assumes "(n, nxt) \<in> rx_rings" and "ring_inv n q" and "(race_step n nxt)\<^sup>*\<^sup>* (race_start q) r"
  shows "(\<not> overrun r \<longrightarrow>
       ring_contents n q @ accepted r = consumed r @ in_flight r @ ring_contents n (race_queue r) \<and>
       (\<exists>r'. (race_step n nxt)\<^sup>*\<^sup>* r r' \<and> ring_contents n (race_queue r') = [] \<and>
          consumed r' = ring_contents n q @ accepted r)) \<and>
    (ring_read (race_queue r) = ring_write (race_queue r) \<longrightarrow> length (ring_contents n (race_queue r)) = n - 1) \<and>
    (overrun r \<longrightarrow> \<not> ring_live q \<and> n \<le> length (ring_contents n q) + length (accepted r)) \<and>
    (\<not> ring_live (race_queue r) \<and> length (ring_contents n (race_queue r)) = n - 1 \<longrightarrow>
       ring_contents n (ring_put nxt y (race_queue r)) = []) \<and>
    i2c_enqueue x t = t\<lparr>i2cRxQueue := ring_put i2c_wrap x (i2cRxQueue t)\<rparr> \<and>
    select_enqueue b s = s\<lparr>selectRxQueue := ring_put select_rx_wrap b (selectRxQueue s)\<rparr> \<and>
    midi_enqueue b s = s\<lparr>midiRxQueue := ring_put midi_rx_wrap b (midiRxQueue s)\<rparr> \<and>
    flush_i2c dev s = (case ring_take i2c_wrap (i2cRxQueue s) of None \<Rightarrow> Some s
      | Some (d, q) \<Rightarrow> Option.bind (ProcessI2CIn dev d (s\<lparr>i2cRxQueue := q\<rparr>)) (flush_i2c dev)) \<and>
    flush_select h s = (case ring_take select_rx_wrap (selectRxQueue s) of None \<Rightarrow> Some s
      | Some (d, q) \<Rightarrow> Option.bind (map_option snd (Recall_ProcessMIDI h d (s\<lparr>selectRxQueue := q\<rparr>))) (flush_select h)) \<and>
    flush_midi h s = (case ring_take midi_rx_wrap (midiRxQueue s) of None \<Rightarrow> Some s
      | Some (d, q) \<Rightarrow> Option.bind (map_option snd (ProcessMIDIIn h d (s\<lparr>midiRxQueue := q\<rparr>))) (flush_midi h)) \<and>
    (race_point r = Compare \<longrightarrow>
       Option.bind (consumer nxt r) (\<lambda>r. Option.bind (consumer nxt r) (consumer nxt)) =
       map_option (\<lambda>(d, q). r\<lparr>race_queue := q, consumed := consumed r @ [d]\<rparr>) (ring_take nxt (race_queue r)))"
proof -
  note ri = rx_ring_index [OF assms(1)]
  have inv: "race_inv n nxt q r" by (rule ring_index.race_runs [OF ri assms(3,2)])
  then have i: "ring_inv n (race_queue r)" by (simp add: race_inv_def race_control_def)
  have unread: "\<not> ring_live (race_queue r) \<Longrightarrow> ring_read (race_queue r) = -1"
    using i by (auto simp: ring_live_def ring_inv_def)
  note fl = flush_i2c.simps [of dev s] flush_select.simps [of h s] flush_midi.simps [of h s]
  show ?thesis
    using inv ring_index.refused_when_full [OF ri i] ring_index.race_drains [OF ri inv]
      ring_index.unread_overflow(1) [OF ri i unread, of y] consumer_takes [of r nxt] fl
    by (simp only: i2c_enqueue_put select_enqueue_put midi_enqueue_put race_inv_def race_control_def race_lossless_def) simp
qed

text \<open>
  The witness: one byte arrives in the empty select queue, the consumer has stored the read index, and a second byte
  arrives before the first is loaded.
\<close>

definition race_demo :: "u8 race" where
  "race_demo = \<lparr>race_queue = ring_put select_rx_wrap 7 ((ring_put select_rx_wrap 5 (ring_empty 16 0))\<lparr>ring_read := 0\<rparr>),
     race_point = Load 0, accepted = [5, 7], consumed = [], overrun = False\<rparr>"

lemma race_demo_reached: "(race_step 16 select_rx_wrap)\<^sup>*\<^sup>* (race_start (ring_empty 16 0)) race_demo"
proof -
  let ?q = "ring_put select_rx_wrap 5 (ring_empty 16 0) :: u8 ring"
  let ?r1 = "\<lparr>race_queue = ?q, race_point = Compare, accepted = [5], consumed = [], overrun = False\<rparr>"
  let ?r3 = "\<lparr>race_queue = ?q\<lparr>ring_read := 0\<rparr>, race_point = Load 0, accepted = [5], consumed = [], overrun = False\<rparr>"
  note defs = received_def consumer_def Let_def ring_empty_def ring_put_def ring_live_def ring_count_def select_rx_wrap_def
  have "race_step 16 select_rx_wrap (race_start (ring_empty 16 0)) ?r1"
    using race_step.interrupt [of 16 select_rx_wrap "race_start (ring_empty 16 0)" 5] by (simp add: defs)
  moreover have "race_step 16 select_rx_wrap ?r1 (?r1\<lparr>race_point := Store 0\<rparr>)"
    by (rule race_step.consume) (simp add: defs)
  moreover have "race_step 16 select_rx_wrap (?r1\<lparr>race_point := Store 0\<rparr>) ?r3"
    by (rule race_step.consume) (simp add: defs)
  moreover have "race_step 16 select_rx_wrap ?r3 race_demo"
    using race_step.interrupt [of 16 select_rx_wrap ?r3 7] by (simp add: race_demo_def defs)
  ultimately show ?thesis by (meson converse_rtranclp_into_rtranclp rtranclp.rtrancl_refl)
qed

lemma receive_race_lossless_witness:
  "accepted race_demo = [5, 7] \<and>
   accepted race_demo = consumed race_demo @ [5] @ ring_contents 16 (race_queue race_demo)"
proof -
  have "(16, select_rx_wrap) \<in> rx_rings" by (simp add: rx_rings_def)
  moreover have "ring_inv 16 (ring_empty 16 (0 :: u8))" by (simp add: ring_empty_contents)
  moreover have "\<not> overrun race_demo" by (simp add: race_demo_def)
  ultimately have "ring_contents 16 (ring_empty 16 0) @ accepted race_demo =
      consumed race_demo @ in_flight race_demo @ ring_contents 16 (race_queue race_demo)"
    using receive_race_lossless [OF _ _ race_demo_reached] by blast
  then show ?thesis by (simp add: race_demo_def in_flight_def ring_empty_contents)
qed

end
