(* ===== verification/Answer_Race.thy ===== *)
theory Answer_Race
  imports I2C_Slave
begin

text \<open>
  The response buffer of the I2C slave is shared: the command protocol stores an answer, its index and its size, and the
  interrupt handler reads them when the master reads. Here the stores of \<open>respond\<close> are single steps, taken in any
  order, for the variables are not volatile, with interrupts in between.
\<close>

section \<open>The stores of an answer\<close>

datatype answer_store = Answer_byte nat u8 | Answer_index | Answer_size u8

fun do_store :: "answer_store \<Rightarrow> 'a i2c_scheme \<Rightarrow> 'a i2c_scheme" where
  "do_store (Answer_byte i b) s = s\<lparr>i2cResponse := (i2cResponse s)[i := b]\<rparr>"
| "do_store Answer_index s = s\<lparr>i2cResponseIndex := 0\<rparr>"
| "do_store (Answer_size n) s = s\<lparr>i2cResponseSize := n\<rparr>"

definition answer_stores :: "u8 list \<Rightarrow> answer_store list" where
  "answer_stores bs = map (\<lambda>i. Answer_byte i (bs ! i)) [0..<length bs] @ [Answer_index, Answer_size (of_nat (length bs))]"

text \<open>A state of the slave and the stores still to be made; \<open>reads\<close> says whether the master may read meanwhile.\<close>

inductive update_step ::
    "bool \<Rightarrow> 'a i2c_scheme \<times> answer_store list \<Rightarrow> 'a i2c_scheme \<times> answer_store list \<Rightarrow> bool" for reads where
  store: "st \<in> set sts \<Longrightarrow> update_step reads (s, sts) (do_store st s, remove1 st sts)"
| interrupt: "(r_w \<longrightarrow> reads) \<Longrightarrow>
    update_step reads (s, sts) (I2C4SlaveInterruptHandler flagged r_w d_a i2cov rcv s, sts)"

text \<open>Made in the order of the source and without interrupts, the stores are \<open>respond\<close>.\<close>

lemma bytes_stored:
  "fold do_store (map (\<lambda>i. Answer_byte i (bs ! i)) [0..<k]) s = s\<lparr>i2cResponse := fold (\<lambda>i r. r[i := bs ! i]) [0..<k] (i2cResponse s)\<rparr>"
  by (induction k) simp_all

lemma answer_stores_respond:
  assumes "length bs \<le> length (i2cResponse s)"
  shows "fold do_store (answer_stores bs) s = respond bs s"
proof -
  have "fold (\<lambda>i r. r[i := bs ! i]) [0..<k] r = take k bs @ drop k r"
    if "k \<le> length bs" "length bs \<le> length r" for k and r :: "u8 list"
    using that by (induction k) (simp_all add: list_update_append take_Suc_conv_app_nth Cons_nth_drop_Suc [symmetric])
  from this [of "length bs" "i2cResponse s"] assms show ?thesis
    by (simp add: answer_stores_def respond_def bytes_stored)
qed

section \<open>In bounds at every step\<close>

text \<open>
  While an answer is stored the index can exceed the size. What holds throughout is that both are at most 2 and the bytes are among \<open>V\<close>.
\<close>

definition answer_inv :: "u8 set \<Rightarrow> 'a i2c_scheme \<Rightarrow> bool" where
  "answer_inv V s \<longleftrightarrow> length (i2cResponse s) = 4 \<and> set (i2cResponse s) \<subseteq> V \<and> i2cResponseSize s \<le> 2 \<and>
     i2cResponseIndex s \<le> 2 \<and> length (i2cMsg s) = 4 \<and> ring_inv 256 (i2cRxQueue s)"

fun store_ok :: "u8 set \<Rightarrow> answer_store \<Rightarrow> bool" where
  "store_ok V (Answer_byte i b) = (b \<in> V)"
| "store_ok V Answer_index = True"
| "store_ok V (Answer_size n) = (n \<le> 2)"

lemma answer_inv_store: "answer_inv V s \<Longrightarrow> store_ok V st \<Longrightarrow> answer_inv V (do_store st s)"
  by (cases st) (auto simp: answer_inv_def dest!: set_update_subset_insert [THEN subsetD])

lemma answer_inv_wr [simp]: "answer_inv V (wr r v s) = answer_inv V s"
  by (simp add: answer_inv_def wr_def emit_def)

lemma answer_inv_enqueue: "answer_inv V s \<Longrightarrow> answer_inv V (i2c_enqueue x s)"
  by (simp add: i2c_enqueue_put answer_inv_def iq.put_ring_inv)

lemma index_below: "answer_inv V s \<Longrightarrow> i2cResponseIndex s < i2cResponseSize s \<Longrightarrow> i2cResponseIndex s + 1 \<le> 2 \<and> unat (i2cResponseIndex s) < 2"
proof -
  assume "answer_inv V s" "i2cResponseIndex s < i2cResponseSize s"
  then have "i2cResponseIndex s < 2" unfolding answer_inv_def using order_less_le_trans by blast
  then show ?thesis using inc_le [of "i2cResponseIndex s" 2] by (simp add: word_less_nat_alt)
qed

lemma answer_inv_read: "answer_inv V s \<Longrightarrow> answer_inv V (answer_read s)"
  using index_below [of V s] by (simp add: answer_read_def) (simp add: answer_inv_def)

lemma answer_inv_handler: "answer_inv V s \<Longrightarrow> answer_inv V (I2C4SlaveInterruptHandler flagged r_w d_a i2cov rcv s)"
  by (simp add: I2C4SlaveInterruptHandler_def Let_def answer_inv_enqueue answer_inv_read)

lemma trace_enqueue [simp]: "trace (i2c_enqueue x s) = trace s"
  by (simp add: i2c_enqueue_put)

text \<open>A byte that the handler sends is one of the buffer.\<close>

lemma handler_sends:
  assumes "answer_inv V s"
  shows "\<exists>xs. sent_on I2C4TRN (trace (I2C4SlaveInterruptHandler flagged r_w d_a i2cov rcv s)) =
    sent_on I2C4TRN (trace s) @ map byte_value xs \<and> set xs \<subseteq> V"
proof -
  have "i2cResponse s ! unat (i2cResponseIndex s) \<in> V" if "i2cResponseIndex s < i2cResponseSize s"
    using assms index_below [OF assms that] by (auto simp: answer_inv_def)
  then have "\<exists>xs. sent_on I2C4TRN (trace (answer_read s)) = sent_on I2C4TRN (trace s) @ map byte_value xs \<and> set xs \<subseteq> V"
    by (auto simp: answer_read_def wr_def emit_def intro: exI [of _ "[i2cResponse s ! unat (i2cResponseIndex s)]"] exI [of _ "[]"])
  then show ?thesis
    by (auto simp: I2C4SlaveInterruptHandler_def Let_def wr_def emit_def intro: exI [of _ "[]"])
qed

lemma update_runs_safe:
  assumes "(update_step reads)\<^sup>*\<^sup>* (s, sts) (s', sts')" and "answer_inv V s" and "\<forall>st\<in>set sts. store_ok V st"
  shows "answer_inv V s' \<and> (\<forall>st\<in>set sts'. store_ok V st) \<and>
    (\<exists>xs. sent_on I2C4TRN (trace s') = sent_on I2C4TRN (trace s) @ map byte_value xs \<and> set xs \<subseteq> V)"
  using assms(1)
proof (induction rule: rtranclp_induct2)
  case refl
  then show ?case using assms(2,3) by (auto intro: exI [of _ "[]"])
next
  case (step t ts t' ts')
  from step.IH obtain xs where xs: "sent_on I2C4TRN (trace t) = sent_on I2C4TRN (trace s) @ map byte_value xs" "set xs \<subseteq> V"
    by blast
  from step.hyps(2) show ?case
  proof (cases rule: update_step.cases)
    case (store st)
    moreover have "trace (do_store st t) = trace t" by (cases st) simp_all
    ultimately show ?thesis using step.IH xs by (auto simp: answer_inv_store dest: notin_set_remove1)
  next
    case (interrupt r_w flagged d_a i2cov rcv)
    with step.IH handler_sends [of V t flagged r_w d_a i2cov rcv] obtain ys where
      "sent_on I2C4TRN (trace t') = sent_on I2C4TRN (trace t) @ map byte_value ys" "set ys \<subseteq> V" by blast
    with xs have "sent_on I2C4TRN (trace t') = sent_on I2C4TRN (trace s) @ map byte_value (xs @ ys)" "set (xs @ ys) \<subseteq> V" by simp_all
    with interrupt step.IH answer_inv_handler show ?thesis by blast
  qed
qed

section \<open>The answer is complete when nobody reads meanwhile\<close>

definition buffer :: "'a i2c_scheme \<Rightarrow> u8 list \<times> u8 \<times> u8" where
  "buffer s = (i2cResponse s, i2cResponseIndex s, i2cResponseSize s)"

lemma buffer_fold: "buffer s = buffer t \<Longrightarrow> buffer (fold do_store sts s) = buffer (fold do_store sts t)"
proof (induction sts arbitrary: s t)
  case (Cons st sts)
  moreover have "buffer (do_store st s) = buffer (do_store st t)" using Cons.prems by (cases st) (simp_all add: buffer_def)
  ultimately show ?case by simp
qed simp

lemma buffer_handler: "buffer (I2C4SlaveInterruptHandler flagged False d_a i2cov rcv s) = buffer s"
  by (simp add: I2C4SlaveInterruptHandler_def Let_def i2c_enqueue_put buffer_def wr_def emit_def)

text \<open>The stores of one answer go to different places, so that their order does not matter.\<close>

fun place :: "answer_store \<Rightarrow> nat" where
  "place (Answer_byte i b) = i"
| "place Answer_index = 4"
| "place (Answer_size n) = 5"

lemma do_store_commute: "place x \<noteq> place y \<Longrightarrow> do_store x \<circ> do_store y = do_store y \<circ> do_store x"
  by (cases x; cases y) (auto simp: fun_eq_iff list_update_swap)

lemma fold_do_store_remove:
  fixes s :: "'a i2c_scheme"
  assumes "inj_on place (set sts)" and "st \<in> set sts"
  shows "fold do_store (remove1 st sts) (do_store st s) = fold do_store sts s"
proof -
  have "do_store x \<circ> do_store y = (do_store y \<circ> do_store x :: 'a i2c_scheme \<Rightarrow> _)" if "x \<in> set sts" "y \<in> set sts" for x y
    using that assms(1) do_store_commute by (metis inj_on_def)
  then have "fold do_store sts = fold do_store (remove1 st sts) \<circ> (do_store st :: 'a i2c_scheme \<Rightarrow> _)"
    using assms(2) by (intro fold_remove1_split) auto
  then show ?thesis by simp
qed

lemma answer_stores_places: "length bs \<le> 4 \<Longrightarrow> inj_on place (set (answer_stores bs))"
  by (auto simp: answer_stores_def inj_on_def)

lemma undisturbed_update:
  assumes "(update_step False)\<^sup>*\<^sup>* (s, sts) (s', sts')" and "inj_on place (set sts)"
  shows "buffer (fold do_store sts' s') = buffer (fold do_store sts s) \<and> inj_on place (set sts')"
  using assms(1)
proof (induction rule: rtranclp_induct2)
  case refl
  then show ?case using assms(2) by simp
next
  case (step t ts t' ts')
  from step.hyps(2) show ?case
  proof (cases rule: update_step.cases)
    case (store st)
    moreover have "inj_on place (set (remove1 st ts))"
      using step.IH inj_on_subset set_remove1_subset by metis
    ultimately show ?thesis using step.IH by (simp add: fold_do_store_remove)
  next
    case (interrupt r_w flagged d_a i2cov rcv)
    then have "buffer t' = buffer t" by (simp add: buffer_handler)
    with interrupt step.IH buffer_fold show ?thesis by metis
  qed
qed

lemma answer_stores_ok: "length bs \<le> 2 \<Longrightarrow> \<forall>st\<in>set (answer_stores bs). store_ok (V \<union> set bs) st"
  by (auto simp: answer_stores_def word_le_nat_alt unat_of_nat)

section \<open>The properties\<close>

text \<open>
  C21: An answer is stored while interrupts arrive, with its stores in any order: whenever the master reads, the handler's index is inside the buffer,
  and what it sends are bytes of the old buffer and the new answer only. If the master does not read meanwhile, whatever it writes, it
  then reads the answer complete and from its start. The stores, made in order and undisturbed, are the code's \<open>respond\<close>.
\<close>

theorem answer_update_race:
  assumes "i2c_inv s" and "length bs \<le> 2"
  shows "fold do_store (answer_stores bs) s = respond bs s \<and>
    (\<forall>s' sts. (update_step True)\<^sup>*\<^sup>* (s, answer_stores bs) (s', sts) \<longrightarrow>
       (i2cResponseIndex s' < i2cResponseSize s' \<longrightarrow> unat (i2cResponseIndex s') < length (i2cResponse s')) \<and>
       (\<exists>xs. sent_on I2C4TRN (trace s') = sent_on I2C4TRN (trace s) @ map byte_value xs \<and>
          set xs \<subseteq> set (i2cResponse s) \<union> set bs)) \<and>
    (\<forall>s'. (update_step False)\<^sup>*\<^sup>* (s, answer_stores bs) (s', []) \<longrightarrow>
       sent_on I2C4TRN (trace (read_bytes n s')) = sent_on I2C4TRN (trace s') @ map byte_value (take n bs))"
proof -
  let ?V = "set (i2cResponse s) \<union> set bs"
  have len: "length (i2cResponse s) = 4" and inv: "answer_inv ?V s"
    using assms(1) by (auto simp: i2c_inv_def answer_inv_def)
  note ok = answer_stores_ok [OF assms(2), of "set (i2cResponse s)"]
  have r: "fold do_store (answer_stores bs) s = respond bs s"
    by (rule answer_stores_respond) (use assms(2) len in simp)
  have safe: "(i2cResponseIndex s' < i2cResponseSize s' \<longrightarrow> unat (i2cResponseIndex s') < length (i2cResponse s')) \<and>
      (\<exists>xs. sent_on I2C4TRN (trace s') = sent_on I2C4TRN (trace s) @ map byte_value xs \<and> set xs \<subseteq> ?V)"
    if "(update_step True)\<^sup>*\<^sup>* (s, answer_stores bs) (s', sts)" for s' sts
    using update_runs_safe [OF that inv ok] index_below [of ?V s'] by (auto simp: answer_inv_def)
  have complete: "sent_on I2C4TRN (trace (read_bytes n s')) = sent_on I2C4TRN (trace s') @ map byte_value (take n bs)"
    if run: "(update_step False)\<^sup>*\<^sup>* (s, answer_stores bs) (s', [])" for s'
  proof -
    have "buffer s' = buffer (respond bs s)"
      using undisturbed_update [OF run answer_stores_places] assms(2) r by simp
    then have b: "i2cResponse s' = bs @ drop (length bs) (i2cResponse s)" "i2cResponseIndex s' = 0"
        "i2cResponseSize s' = of_nat (length bs)"
      by (simp_all add: buffer_def respond_def)
    have "i2c_inv s'"
      using update_runs_safe [OF run inv ok] b(2) by (simp add: answer_inv_def i2c_inv_def)
    moreover have "unat (of_nat (length bs) :: u8) = length bs" using assms(2) by (simp add: unat_of_nat)
    ultimately show ?thesis by (simp add: read_bytes_response b)
  qed
  show ?thesis using r safe complete by blast
qed

text \<open>The witness: the size is stored first, the address of the next command arrives, and the rest follows.\<close>

lemma answer_update_race_witness:
  "sent_on I2C4TRN (trace (read_bytes 2 (I2C4SlaveInterruptHandler True False False False 0x62 (respond [1] demo_i2c)))) =
   sent_on I2C4TRN (trace demo_i2c) @ [1]"
proof -
  let ?s1 = "do_store (Answer_size 1) demo_i2c"
  let ?s2 = "I2C4SlaveInterruptHandler True False False False 0x62 ?s1"
  let ?s3 = "do_store Answer_index (do_store (Answer_byte 0 1) ?s2)"
  have st: "answer_stores [1] = [Answer_byte 0 1, Answer_index, Answer_size 1]" by (simp add: answer_stores_def)
  have "update_step False (demo_i2c, answer_stores [1]) (?s1, [Answer_byte 0 1, Answer_index])"
    using update_step.store [of "Answer_size 1" "answer_stores [1]" False demo_i2c] by (simp add: st)
  moreover have "update_step False (?s1, [Answer_byte 0 1, Answer_index]) (?s2, [Answer_byte 0 1, Answer_index])"
    by (rule update_step.interrupt) simp
  moreover have "update_step False (?s2, [Answer_byte 0 1, Answer_index]) (do_store (Answer_byte 0 1) ?s2, [Answer_index])"
    using update_step.store [of "Answer_byte 0 1" "[Answer_byte 0 1, Answer_index]" False ?s2] by simp
  moreover have "update_step False (do_store (Answer_byte 0 1) ?s2, [Answer_index]) (?s3, [])"
    using update_step.store [of Answer_index "[Answer_index]" False "do_store (Answer_byte 0 1) ?s2"] by simp
  ultimately have run: "(update_step False)\<^sup>*\<^sup>* (demo_i2c, answer_stores [1]) (?s3, [])"
    by (meson converse_rtranclp_into_rtranclp rtranclp.rtrancl_refl)
  have "sent_on I2C4TRN (trace (read_bytes 2 ?s3)) = sent_on I2C4TRN (trace ?s3) @ map byte_value (take 2 [1])"
    using answer_update_race [OF i2c_inv_demo, of "[1]" 2] run by simp
  moreover have "?s3 = I2C4SlaveInterruptHandler True False False False 0x62 (respond [1] demo_i2c)"
    by (simp add: I2C4SlaveInterruptHandler_def i2c_enqueue_put respond_def Let_def wr_def emit_def)
  moreover have "sent_on I2C4TRN (trace ?s3) = sent_on I2C4TRN (trace demo_i2c)"
    by (simp add: I2C4SlaveInterruptHandler_def i2c_enqueue_put Let_def wr_def emit_def)
  ultimately have "sent_on I2C4TRN (trace (read_bytes 2 (I2C4SlaveInterruptHandler True False False False 0x62 (respond [1] demo_i2c)))) =
      sent_on I2C4TRN (trace demo_i2c) @ map byte_value (take 2 [1])" by metis
  then show ?thesis by (simp add: byte_value_def)
qed

text \<open>
  The handler does not hold the master back until a query has been processed: a read that comes before is answered with what is left of the
  previous answer, or, when nothing is left, by switching the module off and on.
\<close>

lemma early_read_stale:
  fixes s :: "'a i2c_scheme" and query :: "(bool \<times> u8) list"
  assumes "i2c_inv s"
  defines "q \<equiv> fold (\<lambda>(d_a, b). I2C4SlaveInterruptHandler True False d_a False b) query s"
  shows "sent_on I2C4TRN (trace (read_bytes n q)) = sent_on I2C4TRN (trace q) @
    map byte_value (take n (drop (unat (i2cResponseIndex s)) (take (unat (i2cResponseSize s)) (i2cResponse s))))"
proof -
  have "i2c_inv (fold (\<lambda>(d_a, b). I2C4SlaveInterruptHandler True False d_a False b) qs t) \<and>
      buffer (fold (\<lambda>(d_a, b). I2C4SlaveInterruptHandler True False d_a False b) qs t) = buffer t"
    if "i2c_inv t" for qs and t :: "'a i2c_scheme"
    using that
  proof (induction qs arbitrary: t)
    case (Cons qb qs)
    moreover have "i2c_inv (I2C4SlaveInterruptHandler True False d_a False b t)" for d_a b
      using Cons.prems by (simp add: I2C4SlaveInterruptHandler_def i2c_enqueue_inv)
    ultimately show ?case by (auto simp: buffer_handler split: prod.splits)
  qed simp
  from this [OF assms(1), of query] have "i2c_inv q" "buffer q = buffer s" by (simp_all add: q_def)
  then show ?thesis by (simp add: read_bytes_response buffer_def)
qed

end
