(* ===== verification/Pins.thy ===== *)
theory Pins
  imports Startup
begin

text \<open>
  The pins of the board: what the boot code makes of the port bits (\<open>Ports\<close>) against the use that the program
  makes of them, the functions that \<open>APP_Initialize\<close> puts on pins, the bits it drives and the controls it reads.
\<close>

section \<open>The use of the pins\<close>

text \<open>The port bit of a remappable pin.\<close>

fun port_bit_of :: "rp_pin \<Rightarrow> port \<times> nat" where
  "port_bit_of RPA14 = (PORT_A, 14)" | "port_bit_of RPA15 = (PORT_A, 15)"
| "port_bit_of RPB2 = (PORT_B, 2)" | "port_bit_of RPB3 = (PORT_B, 3)" | "port_bit_of RPB5 = (PORT_B, 5)"
| "port_bit_of RPB6 = (PORT_B, 6)" | "port_bit_of RPB7 = (PORT_B, 7)" | "port_bit_of RPB10 = (PORT_B, 10)"
| "port_bit_of RPB15 = (PORT_B, 15)"
| "port_bit_of RPC13 = (PORT_C, 13)" | "port_bit_of RPC14 = (PORT_C, 14)"
| "port_bit_of RPD0 = (PORT_D, 0)" | "port_bit_of RPD4 = (PORT_D, 4)" | "port_bit_of RPD5 = (PORT_D, 5)"
| "port_bit_of RPD6 = (PORT_D, 6)" | "port_bit_of RPD7 = (PORT_D, 7)" | "port_bit_of RPD11 = (PORT_D, 11)"
| "port_bit_of RPD14 = (PORT_D, 14)"
| "port_bit_of RPE8 = (PORT_E, 8)" | "port_bit_of RPE9 = (PORT_E, 9)"
| "port_bit_of RPF8 = (PORT_F, 8)" | "port_bit_of RPF12 = (PORT_F, 12)"

definition is_output :: "port_view \<Rightarrow> port \<times> nat \<Rightarrow> bool" where
  "is_output v pb \<longleftrightarrow> bit (outputs v (fst pb)) (snd pb)"

definition is_digital_input :: "port_view \<Rightarrow> port \<times> nat \<Rightarrow> bool" where
  "is_digital_input v pb \<longleftrightarrow> \<not> bit (outputs v (fst pb)) (snd pb) \<and> bit (digital v (fst pb)) (snd pb)"

text \<open>A pin suits a call: a remapped output is an output of its port, a remapped input a digital input.\<close>

fun pin_suits :: "port_view \<Rightarrow> plib_call \<Rightarrow> bool" where
  "pin_suits v (PLIB_PORTS_RemapOutput f p) = is_output v (port_bit_of p)"
| "pin_suits v (PLIB_PORTS_RemapInput f p) = is_digital_input v (port_bit_of p)"
| "pin_suits v c = True"

lemma startup_pins_suit: "\<forall>c\<in>set startup_calls. pin_suits boot_ports c"
  by (simp add: startup_calls_def setup_expansion_def setup_SPI3_def setup_SPI4_def setup_SPI2_def setup_SPI6_def
      receive_channel_def transmit_channel_def audio_port_def setup_UARTs_def setup_timers_def setup_LEDs_def
      is_output_def is_digital_input_def boot_outputs boot_digital)


text \<open>The bits of the controls.\<close>

definition control_bits :: "(port \<times> nat) list" where
  "control_bits = map (Pair PORT_H) [4, 5, 6, 12, 13, 14, 15] @ [(PORT_B, 12)]"

lemma controls_suit:
  "\<forall>pb\<in>set control_bits. is_digital_input boot_ports pb \<and> bit (pulled_up boot_ports (fst pb)) (snd pb)"
  by (simp_all add: control_bits_def is_output_def is_digital_input_def boot_outputs boot_digital boot_pull_ups)

text \<open>The value of a port as the pull-ups see it: the bits that have one.\<close>

definition pulled_bits :: "port \<Rightarrow> u32 \<Rightarrow> u32" where
  "pulled_bits p w = w AND ucast (pulled_up boot_ports p)"

lemma pulled_port_bit:
  assumes "bit (pulled_up boot_ports p) n" and "n < 16"
  shows "port_bit (pulled_bits p w) n = port_bit w n"
proof -
  have "drop_bit n (pulled_bits p w) AND 1 = drop_bit n w AND 1"
    using assms by (intro bit_word_eqI) (auto simp: pulled_bits_def bit_simps)
  then show ?thesis by (simp add: port_bit_def)
qed

lemma controls_pulled: "read_controls (pulled_bits PORT_H ph) (pulled_bits PORT_B pb) hs = read_controls ph pb hs"
  by (simp add: read_controls_def pulled_port_bit boot_pull_ups)

lemma open_contacts:
  "read_controls (pulled_bits PORT_H (- 1)) (pulled_bits PORT_B (- 1)) hs =
     [(hs ! 0)\<lparr>encA := 1, encB := 1, encSW := 1, potSW := 1\<rparr>, (hs ! 1)\<lparr>encA := 1, encB := 1, encSW := 1, potSW := 1\<rparr>]"
proof -
  have "port_bit (- 1) n = 1" if "n < 32" for n
  proof -
    have "drop_bit n (- 1 :: u32) AND 1 = 1" using that by (intro bit_word_eqI) (auto simp: bit_simps)
    then show ?thesis by (simp add: port_bit_def)
  qed
  then show ?thesis unfolding controls_pulled by (simp add: read_controls_def)
qed

text \<open>
  C15: The pins agree with their use. After the boot code has set up the ports, every pin to which \<open>APP_Initialize\<close> gives an
  output function is an output of its port and every pin with an input function a digital input; every
  port bit that \<open>APP_Initialize\<close> sets or clears, itself or through the display routines it calls, is an output of its port (the
  two test outputs that only the audio service and the main loop toggle are not part of this); and the bits of the encoders and buttons are digital inputs with pull-ups, the
  reading of the controls depends on no other bit, and with all contacts open every control reads as released.
\<close>

theorem pins_match_ports:
  fixes s :: "('f, 'a) app_scheme"
  assumes "env_ok (audio_env b)" and "good_bus I2C_ID_2 (dev (audio_env b))" and "starting s"
  shows "\<exists>s' es. APP_Initialize b s = Some s' \<and> trace s' = trace s @ es \<and>
     (\<forall>c\<in>set (lib_calls es). pin_suits boot_ports c) \<and>
     (\<forall>ev\<in>set es. \<forall>p w n. driven ev = Some (p, w) \<and> bit w n \<longrightarrow> is_output boot_ports (p, n)) \<and>
     (\<forall>pb\<in>set control_bits. is_digital_input boot_ports pb \<and> bit (pulled_up boot_ports (fst pb)) (snd pb)) \<and>
     (\<forall>ph ph' pb pb' hs. pulled_bits PORT_H ph = pulled_bits PORT_H ph' \<and> pulled_bits PORT_B pb = pulled_bits PORT_B pb' \<longrightarrow>
        read_controls ph pb hs = read_controls ph' pb' hs) \<and>
     (\<forall>ph pb. pulled_bits PORT_H ph = pulled_bits PORT_H (- 1) \<and> pulled_bits PORT_B pb = pulled_bits PORT_B (- 1) \<longrightarrow>
        map (\<lambda>h. (encA h, encB h, encSW h, potSW h)) (read_controls ph pb (halfState s')) = replicate 2 (1, 1, 1, 1))"
proof -
  obtain s' es where s': "APP_Initialize b s = Some s'" "trace s' = trace s @ es" "lib_calls es = startup_calls" "list_all drives_outputs es"
    using APP_Initialize_effect [OF assms] unfolding configures_def by blast
  have same: "read_controls ph pb hs = read_controls ph' pb' hs"
    if "pulled_bits PORT_H ph = pulled_bits PORT_H ph'" "pulled_bits PORT_B pb = pulled_bits PORT_B pb'" for ph ph' pb pb' hs
    using that controls_pulled by metis
  have "map (\<lambda>h. (encA h, encB h, encSW h, potSW h)) (read_controls ph pb hs) = replicate 2 (1, 1, 1, 1)"
    if "pulled_bits PORT_H ph = pulled_bits PORT_H (- 1)" "pulled_bits PORT_B pb = pulled_bits PORT_B (- 1)" for ph pb hs
  proof -
    have "read_controls ph pb hs = read_controls (pulled_bits PORT_H (- 1)) (pulled_bits PORT_B (- 1)) hs"
      using that controls_pulled by metis
    then show ?thesis unfolding open_contacts by (simp add: numeral_2_eq_2)
  qed
  note released = this
  show ?thesis
  proof (intro exI conjI)
    show "APP_Initialize b s = Some s'" "trace s' = trace s @ es" by fact+
    show "\<forall>c\<in>set (lib_calls es). pin_suits boot_ports c" unfolding s'(3) by (rule startup_pins_suit)
    show "\<forall>ev\<in>set es. \<forall>p w n. driven ev = Some (p, w) \<and> bit w n \<longrightarrow> is_output boot_ports (p, n)"
      using s'(4) drives_outputs_bits by (auto simp: list_all_iff is_output_def)
    show "\<forall>pb\<in>set control_bits. is_digital_input boot_ports pb \<and> bit (pulled_up boot_ports (fst pb)) (snd pb)"
      by (rule controls_suit)
    show "\<forall>ph ph' pb pb' hs. pulled_bits PORT_H ph = pulled_bits PORT_H ph' \<and> pulled_bits PORT_B pb = pulled_bits PORT_B pb' \<longrightarrow>
        read_controls ph pb hs = read_controls ph' pb' hs"
      using same by blast
    show "\<forall>ph pb. pulled_bits PORT_H ph = pulled_bits PORT_H (- 1) \<and> pulled_bits PORT_B pb = pulled_bits PORT_B (- 1) \<longrightarrow>
        map (\<lambda>h. (encA h, encB h, encSW h, potSW h)) (read_controls ph pb (halfState s')) = replicate 2 (1, 1, 1, 1)"
      using released by blast
  qed
qed

lemma pins_match_ports_witness:
  "\<exists>s' es. APP_Initialize demo_board (reset_app (0 :: int)) = Some s' \<and> trace s' = es \<and>
     (\<forall>c\<in>set (lib_calls es). pin_suits boot_ports c) \<and>
     (\<forall>ev\<in>set es. \<forall>p w n. driven ev = Some (p, w) \<and> bit w n \<longrightarrow> is_output boot_ports (p, n)) \<and>
     is_digital_input boot_ports (PORT_H, 4)"
  using pins_match_ports [OF demo_board_ok(1,2) reset_starting, of 0]
  by (auto simp: control_bits_def reset_app_def)

end
