(* ===== verification/Fault.thy ===== *)
theory Fault
  imports App_State
begin

text \<open>
  The assertion handler \<open>_fassert\<close> (\<open>app.c\<close>): it leaves the texts of the failed assertion one after the other in the page
  buffer, where a debugger finds them, and blinks a LED for ever.
\<close>

section \<open>C strings in a buffer\<close>

text \<open>\<open>strcpy\<close> to an offset of a buffer; \<open>None\<close> where C has no defined behaviour, an unterminated source or a write past the end.\<close>

definition strcpy :: "nat \<Rightarrow> u8 list \<Rightarrow> u8 list \<Rightarrow> u8 list option" where
  "strcpy p src buf =
     (let n = length (takeWhile (\<lambda>c. c \<noteq> 0) src) + 1
      in if 0 \<in> set src \<and> p + n \<le> length buf then Some (take p buf @ take n src @ drop (p + n) buf) else None)"

definition strlen :: "nat \<Rightarrow> u8 list \<Rightarrow> nat" where
  "strlen p buf = length (takeWhile (\<lambda>c. c \<noteq> 0) (drop p buf))"

definition fassert_texts :: "u8 list \<Rightarrow> u8 list \<Rightarrow> u8 list \<Rightarrow> u8 list \<Rightarrow> u8 list option" where
  "fassert_texts file expr func buf = do {
     buf \<leftarrow> strcpy 0 file buf;
     let p = 0 + (strlen 0 buf + 1);
     buf \<leftarrow> strcpy p expr buf;
     let p = p + (strlen p buf + 1);
     strcpy p func buf }"

definition fassert_blink :: "device \<Rightarrow> 'a hw_scheme \<Rightarrow> 'a hw_scheme option" where
  "fassert_blink dv s = delayMs dv 1 (wr PORTBINV (BIT 4) s)"

text \<open>The loop does not end, so its value is \<open>None\<close>; what it does is the sequence of its iterations.\<close>

partial_function (option) blink_loop :: "device \<Rightarrow> 'a hw_scheme \<Rightarrow> 'a hw_scheme option" where
  "blink_loop dv s = Option.bind (fassert_blink dv s) (blink_loop dv)"

definition fassert ::
    "device \<Rightarrow> u8 list \<Rightarrow> u8 list \<Rightarrow> u8 list \<Rightarrow> ('f, 'a) app_scheme \<Rightarrow> ('f, 'a) app_scheme option" where
  "fassert dv file expr func s = do {
     buf \<leftarrow> fassert_texts file expr func (pageBuffer s);
     blink_loop dv (s\<lparr>pageBuffer := buf\<rparr>) }"

section \<open>What it leaves and does\<close>

text \<open>The C string at an offset of a buffer.\<close>

definition c_string_at :: "u8 list \<Rightarrow> nat \<Rightarrow> u8 list" where
  "c_string_at buf p = takeWhile (\<lambda>c. c \<noteq> 0) (drop p buf)"

lemma takeWhile_text: "0 \<notin> set cs \<Longrightarrow> takeWhile (\<lambda>c. c \<noteq> (0 :: u8)) (cs @ 0 # ds) = cs"
  by (induction cs) auto

lemma strcpy_text:
  assumes "0 \<notin> set cs"
  shows "strcpy (length as) (cs @ [0]) (as @ bs) =
     (if length cs < length bs then Some (as @ cs @ 0 # drop (length cs + 1) bs) else None)"
  using assms by (simp add: strcpy_def Let_def takeWhile_text)

lemma strlen_text: "0 \<notin> set cs \<Longrightarrow> strlen (length as) (as @ cs @ 0 # ds) = length cs"
  by (simp add: strlen_def takeWhile_text)

lemma fassert_texts_result:
  assumes "0 \<notin> set file" and "0 \<notin> set expr" and "0 \<notin> set func"
  shows "fassert_texts (file @ [0]) (expr @ [0]) (func @ [0]) buf =
     (if length file + length expr + length func + 3 \<le> length buf
      then Some (file @ 0 # expr @ 0 # func @ 0 # drop (length file + length expr + length func + 3) buf)
      else None)"
proof -
  let ?bs = "drop (length file + 1) buf"
  have one: "strcpy 0 (file @ [0]) buf = (if length file < length buf then Some (file @ 0 # ?bs) else None)"
    using strcpy_text [OF assms(1), of "[]" buf] by simp
  have l1: "strlen 0 (file @ 0 # ?bs) = length file" using strlen_text [OF assms(1), of "[]"] by simp
  let ?cs = "drop (length expr + 1) ?bs"
  have two: "strcpy (length file + 1) (expr @ [0]) (file @ 0 # ?bs) =
      (if length expr < length ?bs then Some (file @ 0 # expr @ 0 # ?cs) else None)"
    using strcpy_text [OF assms(2), of "file @ [0]" ?bs] by simp
  have l2: "strlen (length file + 1) (file @ 0 # expr @ 0 # ?cs) = length expr"
    using strlen_text [OF assms(2), of "file @ [0]" ?cs] by simp
  have three: "strcpy (length file + 1 + (length expr + 1)) (func @ [0]) (file @ 0 # expr @ 0 # ?cs) =
      (if length func < length ?cs then Some (file @ 0 # expr @ 0 # func @ 0 # drop (length func + 1) ?cs) else None)"
    using strcpy_text [OF assms(3), of "file @ 0 # expr @ [0]" ?cs] by simp
  show ?thesis
    using one l1 two l2 three by (auto simp: fassert_texts_def Let_def numeral_3_eq_3 add.commute add.left_commute)
qed

lemma emits_blink:
  assumes "responsive dv" shows "emits (fassert_blink dv) (Wr PORTBINV (BIT 4) # delay_events 1)"
  unfolding fassert_blink_def [abs_def] by (rule emits_cong) (rule emits_intros assms | simp)+

lemma emits_blinks:
  assumes "responsive dv"
  shows "emits (fold_opt (\<lambda>_. fassert_blink dv) [0..<n]) (concat (replicate n (Wr PORTBINV (BIT 4) # delay_events 1)))"
  using emits_fold [of "[0..<n]" "\<lambda>_. fassert_blink dv" "\<lambda>_. Wr PORTBINV (BIT 4) # delay_events 1"] emits_blink [OF assms]
  by (simp add: map_replicate_const)

lemma blink_loop_no_result: "blink_loop dv s = Some s' \<Longrightarrow> False"
  by (rule blink_loop.raw_induct [where P = "\<lambda>_ _ _. False"]) (auto split: bind_splits)

lemma blink_loop_diverges: "blink_loop dv s = None"
  using blink_loop_no_result by (cases "blink_loop dv s") blast+

text \<open>
  The assertion handler leaves its three texts readable and unmixed: if they fit, with their terminators, in the
  page buffer, they are in it as three adjacent C strings and the rest of the buffer is as before; if they do not fit, the handler
  writes past the buffer. It never returns, and each of its rounds inverts the LED's bit once and waits a millisecond.
\<close>

theorem fassert_reports:
  assumes "0 \<notin> set file" and "0 \<notin> set expr" and "0 \<notin> set func" and "responsive dv"
  shows "(fassert_texts (file @ [0]) (expr @ [0]) (func @ [0]) buf = None \<longleftrightarrow> length buf < length file + length expr + length func + 3) \<and>
     (\<forall>buf'. fassert_texts (file @ [0]) (expr @ [0]) (func @ [0]) buf = Some buf' \<longrightarrow>
        length buf' = length buf \<and> c_string_at buf' 0 = file \<and> c_string_at buf' (length file + 1) = expr \<and>
        c_string_at buf' (length file + length expr + 2) = func \<and>
        (\<forall>i\<ge>length file + length expr + length func + 3. buf' ! i = buf ! i)) \<and>
     fassert dv f1 e1 g1 s = None \<and>
     (\<exists>t. fold_opt (\<lambda>_. fassert_blink dv) [0..<n] s =
        Some (s\<lparr>clock := t, trace := trace s @ concat (replicate n (Wr PORTBINV (BIT 4) # delay_events 1))\<rparr>))"
proof (intro conjI allI impI)
  let ?k = "length file + length expr + length func + 3"
  note res = fassert_texts_result [OF assms(1-3), of buf]
  show "fassert_texts (file @ [0]) (expr @ [0]) (func @ [0]) buf = None \<longleftrightarrow> length buf < ?k" unfolding res by simp
  show "fassert dv f1 e1 g1 s = None" by (simp add: fassert_def blink_loop_diverges bind_eq_None_conv)
  show "\<exists>t. fold_opt (\<lambda>_. fassert_blink dv) [0..<n] s =
      Some (s\<lparr>clock := t, trace := trace s @ concat (replicate n (Wr PORTBINV (BIT 4) # delay_events 1))\<rparr>)"
    using emits_update [OF emits_blinks [OF assms(4)]] by blast
  fix buf' assume "fassert_texts (file @ [0]) (expr @ [0]) (func @ [0]) buf = Some buf'"
  then have fits: "?k \<le> length buf" and buf': "buf' = file @ 0 # expr @ 0 # func @ 0 # drop ?k buf"
    unfolding res by (auto split: if_splits)
  show "length buf' = length buf" using fits by (simp add: buf')
  show "c_string_at buf' 0 = file" using takeWhile_text [OF assms(1)] by (simp add: buf' c_string_at_def)
  show "c_string_at buf' (length file + 1) = expr" using takeWhile_text [OF assms(2)] by (simp add: buf' c_string_at_def)
  have "drop (length file + length expr + 2) buf' = func @ 0 # drop ?k buf"
    using append_eq_conv_conj [of "file @ 0 # expr @ [0]" "func @ 0 # drop ?k buf" buf'] by (simp add: buf')
  then show "c_string_at buf' (length file + length expr + 2) = func"
    using takeWhile_text [OF assms(3)] by (simp add: c_string_at_def)
  fix i assume i: "?k \<le> i"
  have "buf' = (file @ 0 # expr @ 0 # func @ [0]) @ drop ?k buf" by (simp add: buf')
  then have "buf' ! i = drop ?k buf ! (i - ?k)" using i by (simp only: nth_append) (simp add: numeral_3_eq_3 add.assoc)
  also have "\<dots> = buf ! i" using i fits by (cases "i < length buf") simp_all
  finally show "buf' ! i = buf ! i" .
qed

lemma fassert_reports_witness:
  "c_string_at [65, 0, 66, 67, 0, 68, 0, 9] 0 = [65] \<and> fassert_texts [65, 0] [66, 67, 0] [68, 0] [7, 7, 7, 7, 7, 7] = None \<and>
   (\<exists>t. fold_opt (\<lambda>_. fassert_blink ready_device) [0..<2] demo_app =
     Some (demo_app\<lparr>clock := t, trace := concat (replicate 2 (Wr PORTBINV (BIT 4) # delay_events 1))\<rparr>))"
proof -
  note r = fassert_reports [of "[65]" "[66, 67]" "[68]", OF _ _ _ responsive_ready_device]
  have "fassert_texts [65, 0] [66, 67, 0] [68, 0] [9, 9, 9, 9, 9, 9, 9, 9] = Some [65, 0, 66, 67, 0, 68, 0, 9]"
    using fassert_texts_result [of "[65]" "[66, 67]" "[68]" "[9, 9, 9, 9, 9, 9, 9, 9]"] by simp
  with r [of "[9, 9, 9, 9, 9, 9, 9, 9]" "[]" "[]" "[]" demo_app 0] have "c_string_at [65, 0, 66, 67, 0, 68, 0, 9] 0 = [65]"
    by simp
  moreover have "fassert_texts [65, 0] [66, 67, 0] [68, 0] [7, 7, 7, 7, 7, 7] = None"
    using r [of "[7, 7, 7, 7, 7, 7]" "[]" "[]" "[]" demo_app 0] by simp
  moreover have "\<exists>t. fold_opt (\<lambda>_. fassert_blink ready_device) [0..<2] demo_app =
     Some (demo_app\<lparr>clock := t, trace := concat (replicate 2 (Wr PORTBINV (BIT 4) # delay_events 1))\<rparr>)"
    using r [of "[]" "[]" "[]" "[]" demo_app 2] by simp
  ultimately show ?thesis by blast
qed

end
