(* ===== verification/Cache.thy ===== *)
theory Cache
  imports Prelude
begin

text \<open>
  The level-1 caches (\<open>sys_devcon_cache_pic32mz.S\<close>), whose data cache \<open>main\<close> and \<open>APP_Initialize\<close> flush before the DMA
  controller is used, and the cache services of \<open>sys_devcon_pic32mz.c\<close> on top of them. A routine is the list of its cache
  instructions; its registers are arguments. \<open>v0\<close> is the return register before a call, which some paths leave unwritten.
\<close>

section \<open>The geometry of the caches\<close>

text \<open>
  The configuration registers of coprocessor 0. The masks and positions of their fields are those of the MIPS32
  architecture (constants of the compiler's headers): \<open>M\<close> is bit 31 of \<open>Config\<close>, and \<open>Config1\<close> has three-bit
  fields for the sets per way, the line size and the associativity of both caches.
\<close>

record cp0 =
  CONFIG :: u32
  CONFIG1 :: u32
  SYNCI_Step :: u32

definition IS :: nat where "IS = 22"
definition IL :: nat where "IL = 19"
definition IA :: nat where "IA = 16"
definition DS :: nat where "DS = 13"
definition DL :: nat where "DL = 10"
definition DA :: nat where "DA = 7"

definition has_config1 :: "cp0 \<Rightarrow> bool" where "has_config1 c \<longleftrightarrow> CONFIG c AND push_bit 31 1 \<noteq> 0"

definition config1_field :: "nat \<Rightarrow> cp0 \<Rightarrow> u32" where
  "config1_field pos c = drop_bit pos (CONFIG1 c AND push_bit pos 7)"

text \<open>The three queries, each written once; the routines for the two caches differ in the fields only.\<close>

definition get_associativity :: "nat \<Rightarrow> cp0 \<Rightarrow> u32 \<Rightarrow> u32" where
  "get_associativity pos c v0 = (if has_config1 c then config1_field pos c + 1 else v0)"

definition get_linesize :: "nat \<Rightarrow> cp0 \<Rightarrow> u32 \<Rightarrow> u32" where
  "get_linesize pos c v0 =
     (if \<not> has_config1 c then v0
      else if CONFIG1 c AND push_bit pos 7 = 0 then v0
      else push_bit (unat (config1_field pos c + 1)) 1)"

definition get_lines_per_way :: "nat \<Rightarrow> cp0 \<Rightarrow> u32 \<Rightarrow> u32" where
  "get_lines_per_way pos c v0 = (if has_config1 c then push_bit (unat (config1_field pos c + 6)) 1 else v0)"

definition pic32_get_dcache_associativity :: "cp0 \<Rightarrow> u32 \<Rightarrow> u32" where "pic32_get_dcache_associativity = get_associativity DA"
definition pic32_get_icache_associativity :: "cp0 \<Rightarrow> u32 \<Rightarrow> u32" where "pic32_get_icache_associativity = get_associativity IA"
definition pic32_get_dcache_linesize :: "cp0 \<Rightarrow> u32 \<Rightarrow> u32" where "pic32_get_dcache_linesize = get_linesize DL"
definition pic32_get_icache_linesize :: "cp0 \<Rightarrow> u32 \<Rightarrow> u32" where "pic32_get_icache_linesize = get_linesize IL"
definition pic32_get_dcache_lines_per_way :: "cp0 \<Rightarrow> u32 \<Rightarrow> u32" where "pic32_get_dcache_lines_per_way = get_lines_per_way DS"
definition pic32_get_icache_lines_per_way :: "cp0 \<Rightarrow> u32 \<Rightarrow> u32" where "pic32_get_icache_lines_per_way = get_lines_per_way IS"

definition pic32_get_dcache_size :: "cp0 \<Rightarrow> u32 \<Rightarrow> u32" where
  "pic32_get_dcache_size c v0 =
     (let s0 = pic32_get_dcache_linesize c v0; s1 = pic32_get_dcache_associativity c s0; s2 = pic32_get_dcache_lines_per_way c s1
      in s2 * (s0 * s1))"

definition pic32_get_icache_size :: "cp0 \<Rightarrow> u32 \<Rightarrow> u32" where
  "pic32_get_icache_size c v0 =
     (let s0 = pic32_get_icache_linesize c v0; s1 = pic32_get_icache_associativity c s0; s2 = pic32_get_icache_lines_per_way c s1
      in s2 * (s0 * s1))"

section \<open>Cache instructions\<close>

text \<open>The operations of the instruction \<open>cache\<close>, with their codes, and the instruction \<open>synci\<close>, which has none.\<close>

datatype cache_op =
    Index_Store_Tag_I | Index_Store_Tag_D | Hit_Writeback_Inv_D | Hit_Invalidate_I | Hit_Writeback_Inv_S | Hit_Invalidate_D
  | Index_Invalidate_I | Index_Writeback_Inv_D | Fetch_Lock_I | Fetch_Lock_D | synci

fun op_code :: "cache_op \<Rightarrow> nat option" where
  "op_code Index_Store_Tag_I = Some 0x08"
| "op_code Index_Store_Tag_D = Some 0x09"
| "op_code Hit_Writeback_Inv_D = Some 0x15"
| "op_code Hit_Invalidate_I = Some 0x10"
| "op_code Hit_Writeback_Inv_S = Some 0x17"
| "op_code Hit_Invalidate_D = Some 0x11"
| "op_code Index_Invalidate_I = Some 0x00"
| "op_code Index_Writeback_Inv_D = Some 0x01"
| "op_code Fetch_Lock_I = Some 0x1C"
| "op_code Fetch_Lock_D = Some 0x1D"
| "op_code synci = None"

text \<open>The low two bits of a code select the cache; different operations have different codes, which fit the five bits of the field.\<close>

lemma op_codes:
  "op_code x = op_code y \<Longrightarrow> x = y" "op_code x = Some n \<Longrightarrow> n < 32"
  "op_code x = Some n \<Longrightarrow> n mod 4 = (if x \<in> {Index_Store_Tag_I, Hit_Invalidate_I, Index_Invalidate_I, Fetch_Lock_I} then 0
     else if x = Hit_Writeback_Inv_S then 3 else 1)"
  by (cases x; cases y; simp) (cases x; auto)+

text \<open>
  The loop that all routines share: the instruction at \<open>t0\<close>, then the test, whose delay slot advances \<open>t0\<close>. It
  returns the addresses; a loop that misses its end does not return.
\<close>

partial_function (option) cache_loop :: "u32 \<Rightarrow> u32 \<Rightarrow> u32 \<Rightarrow> u32 list option" where
  "cache_loop t0 t1 line = (if t0 = t1 then Some [t0] else Option.bind (cache_loop (t0 + line) t1 line) (\<lambda>ts. Some (t0 # ts)))"

text \<open>The loop over a range of \<open>n\<close> bytes at \<open>kva\<close>; the size is compared as a signed number.\<close>

definition cache_range :: "cache_op \<Rightarrow> u32 \<Rightarrow> u32 \<Rightarrow> u32 \<Rightarrow> (cache_op \<times> u32) list option" where
  "cache_range cop line kva n =
     (if n = 0 \<or> bit n 31 then Some []
      else let t2 = NOT (line - 1) in map_option (map (Pair cop)) (cache_loop (kva AND t2) ((kva + n - 1) AND t2) line))"

definition on_range :: "cache_op \<Rightarrow> u32 \<Rightarrow> u32 \<Rightarrow> u32 \<Rightarrow> (cache_op \<times> u32) list option" where
  "on_range cop line kva n = (if line = 0 then Some [] else cache_range cop line kva n)"

definition pic32_clean_dcache :: "cp0 \<Rightarrow> u32 \<Rightarrow> u32 \<Rightarrow> u32 \<Rightarrow> (cache_op \<times> u32) list option" where
  "pic32_clean_dcache c v0 = on_range Hit_Writeback_Inv_D (pic32_get_dcache_linesize c v0)"

definition pic32_clean_dcache_nowrite :: "cp0 \<Rightarrow> u32 \<Rightarrow> u32 \<Rightarrow> u32 \<Rightarrow> (cache_op \<times> u32) list option" where
  "pic32_clean_dcache_nowrite c v0 = on_range Hit_Invalidate_D (pic32_get_dcache_linesize c v0)"

definition pic32_clean_icache :: "cp0 \<Rightarrow> u32 \<Rightarrow> u32 \<Rightarrow> u32 \<Rightarrow> (cache_op \<times> u32) list option" where
  "pic32_clean_icache c v0 = on_range Hit_Invalidate_I (pic32_get_icache_linesize c v0)"

definition pic32_lock_dcache :: "cp0 \<Rightarrow> u32 \<Rightarrow> u32 \<Rightarrow> u32 \<Rightarrow> (cache_op \<times> u32) list option" where
  "pic32_lock_dcache c v0 = on_range Fetch_Lock_D (pic32_get_dcache_linesize c v0)"

definition pic32_lock_icache :: "cp0 \<Rightarrow> u32 \<Rightarrow> u32 \<Rightarrow> u32 \<Rightarrow> (cache_op \<times> u32) list option" where
  "pic32_lock_icache c v0 = on_range Fetch_Lock_I (pic32_get_icache_linesize c v0)"

definition pic32_sync_icache :: "cp0 \<Rightarrow> u32 \<Rightarrow> u32 \<Rightarrow> (cache_op \<times> u32) list option" where
  "pic32_sync_icache c = on_range synci (SYNCI_Step c)"

text \<open>The second routine finds in \<open>v0\<close> what the first one left there.\<close>

definition pic32_clean_cache :: "cp0 \<Rightarrow> u32 \<Rightarrow> u32 \<Rightarrow> u32 \<Rightarrow> (cache_op \<times> u32) list option" where
  "pic32_clean_cache c v0 kva n = do {
     ds \<leftarrow> pic32_clean_dcache c v0 kva n;
     es \<leftarrow> pic32_clean_icache c (pic32_get_dcache_linesize c v0) kva n;
     Some (ds @ es) }"

section \<open>Whole caches\<close>

text \<open>
  \<open>data_base\<close> and \<open>program_base\<close> are the weak symbols of the linker script, zero when undefined.
\<close>

definition flush_all :: "cache_op \<Rightarrow> u32 \<Rightarrow> u32 \<Rightarrow> u32 \<Rightarrow> (cache_op \<times> u32) list option" where
  "flush_all cop base bytes line = (if bytes = 0 then Some [] else on_range cop line base bytes)"

definition pic32_flush_dcache :: "u32 \<Rightarrow> cp0 \<Rightarrow> u32 \<Rightarrow> (cache_op \<times> u32) list option" where
  "pic32_flush_dcache data_base c v0 =
     (let s0 = pic32_get_dcache_size c v0
      in flush_all Index_Writeback_Inv_D (if data_base \<noteq> 0 then data_base else 0x80000000) s0 (pic32_get_dcache_linesize c s0))"

definition pic32_flush_icache :: "u32 \<Rightarrow> cp0 \<Rightarrow> u32 \<Rightarrow> (cache_op \<times> u32) list option" where
  "pic32_flush_icache program_base c v0 =
     (let s0 = pic32_get_icache_size c v0
      in flush_all Index_Invalidate_I (if program_base \<noteq> 0 then program_base else 0x9D000000) s0 (pic32_get_icache_linesize c s0))"

definition pic32_flush_cache :: "u32 \<Rightarrow> u32 \<Rightarrow> cp0 \<Rightarrow> u32 \<Rightarrow> (cache_op \<times> u32) list option" where
  "pic32_flush_cache data_base program_base c v0 = do {
     ds \<leftarrow> pic32_flush_dcache data_base c v0;
     es \<leftarrow> pic32_flush_icache program_base c
       (let s0 = pic32_get_dcache_size c v0 in if s0 = 0 then s0 else pic32_get_dcache_linesize c s0);
     Some (ds @ es) }"

text \<open>
  The initialisation clears the tags, at the last word of each line, and sets the coherency of \<open>kseg0\<close>. Its two loops
  start at the default bases: under \<open>.set noreorder\<close> the instruction that loads the default is in the delay slot of the
  test for the linker's symbol, so it is executed in any case.
\<close>

partial_function (option) tag_loop :: "u32 \<Rightarrow> u32 \<Rightarrow> u32 \<Rightarrow> u32 list option" where
  "tag_loop a0 a1 line =
     (let a0 = a0 + line
      in if a0 = a1 then Some [a0 - 4] else Option.bind (tag_loop a0 a1 line) (\<lambda>ts. Some ((a0 - 4) # ts)))"

definition clear_tags :: "cache_op \<Rightarrow> u32 \<Rightarrow> u32 \<Rightarrow> u32 \<Rightarrow> (cache_op \<times> u32) list option" where
  "clear_tags cop base bytes line = (if bytes = 0 then Some [] else map_option (map (Pair cop)) (tag_loop base (base + bytes) line))"

definition pic32_init_cache :: "u32 \<Rightarrow> cp0 \<Rightarrow> u32 \<Rightarrow> ((cache_op \<times> u32) list \<times> cp0) option" where
  "pic32_init_cache cacheCoherency c v0 = do {
     let s0 = pic32_get_icache_size c v0;
     let s1 = pic32_get_dcache_size c s0;
     let s2 = pic32_get_icache_linesize c s1;
     let s3 = pic32_get_dcache_linesize c s2;
     es \<leftarrow> clear_tags Index_Store_Tag_I 0x9D000000 s0 s2;
     ds \<leftarrow> clear_tags Index_Store_Tag_D 0x80000000 s1 s3;
     Some (es @ ds, c\<lparr>CONFIG := ((CONFIG c OR 7) XOR 7) OR cacheCoherency\<rparr>) }"

section \<open>The services\<close>

text \<open>The services of \<open>sys_devcon_pic32mz.c\<close>: one routine each, but for the coherency, which they access themselves.\<close>

definition SYS_DEVCON_CacheInit :: "u32 \<Rightarrow> cp0 \<Rightarrow> u32 \<Rightarrow> ((cache_op \<times> u32) list \<times> cp0) option" where
  "SYS_DEVCON_CacheInit = pic32_init_cache"
definition SYS_DEVCON_CacheFlush :: "u32 \<Rightarrow> u32 \<Rightarrow> cp0 \<Rightarrow> u32 \<Rightarrow> (cache_op \<times> u32) list option" where
  "SYS_DEVCON_CacheFlush = pic32_flush_cache"
definition SYS_DEVCON_DataCacheFlush :: "u32 \<Rightarrow> cp0 \<Rightarrow> u32 \<Rightarrow> (cache_op \<times> u32) list option" where
  "SYS_DEVCON_DataCacheFlush = pic32_flush_dcache"
definition SYS_DEVCON_InstructionCacheFlush :: "u32 \<Rightarrow> cp0 \<Rightarrow> u32 \<Rightarrow> (cache_op \<times> u32) list option" where
  "SYS_DEVCON_InstructionCacheFlush = pic32_flush_icache"
definition SYS_DEVCON_CacheClean :: "cp0 \<Rightarrow> u32 \<Rightarrow> u32 \<Rightarrow> u32 \<Rightarrow> (cache_op \<times> u32) list option" where
  "SYS_DEVCON_CacheClean = pic32_clean_cache"
definition SYS_DEVCON_DataCacheClean :: "cp0 \<Rightarrow> u32 \<Rightarrow> u32 \<Rightarrow> u32 \<Rightarrow> (cache_op \<times> u32) list option" where
  "SYS_DEVCON_DataCacheClean = pic32_clean_dcache"
definition SYS_DEVCON_DataCacheInvalidate :: "cp0 \<Rightarrow> u32 \<Rightarrow> u32 \<Rightarrow> u32 \<Rightarrow> (cache_op \<times> u32) list option" where
  "SYS_DEVCON_DataCacheInvalidate = pic32_clean_dcache_nowrite"
definition SYS_DEVCON_InstructionCacheInvalidate :: "cp0 \<Rightarrow> u32 \<Rightarrow> u32 \<Rightarrow> u32 \<Rightarrow> (cache_op \<times> u32) list option" where
  "SYS_DEVCON_InstructionCacheInvalidate = pic32_clean_icache"
definition SYS_DEVCON_InstructionCacheLock :: "cp0 \<Rightarrow> u32 \<Rightarrow> u32 \<Rightarrow> u32 \<Rightarrow> (cache_op \<times> u32) list option" where
  "SYS_DEVCON_InstructionCacheLock = pic32_lock_icache"
definition SYS_DEVCON_DataCacheLock :: "cp0 \<Rightarrow> u32 \<Rightarrow> u32 \<Rightarrow> u32 \<Rightarrow> (cache_op \<times> u32) list option" where
  "SYS_DEVCON_DataCacheLock = pic32_lock_dcache"
definition SYS_DEVCON_CacheSync :: "cp0 \<Rightarrow> u32 \<Rightarrow> u32 \<Rightarrow> (cache_op \<times> u32) list option" where
  "SYS_DEVCON_CacheSync = pic32_sync_icache"

definition SYS_DEVCON_CacheCoherencySet :: "u32 \<Rightarrow> cp0 \<Rightarrow> cp0" where
  "SYS_DEVCON_CacheCoherencySet cacheCoherency c =
     (let r = CONFIG c; r = r AND NOT 0x07; r = r OR cacheCoherency in c\<lparr>CONFIG := r\<rparr>)"

definition SYS_DEVCON_CacheCoherencyGet :: "cp0 \<Rightarrow> u32" where
  "SYS_DEVCON_CacheCoherencyGet c = CONFIG c AND 0x03"

definition SYS_DEVCON_DataCacheAssociativityGet :: "cp0 \<Rightarrow> u32 \<Rightarrow> u32" where
  "SYS_DEVCON_DataCacheAssociativityGet = pic32_get_dcache_associativity"
definition SYS_DEVCON_InstructionCacheAssociativityGet :: "cp0 \<Rightarrow> u32 \<Rightarrow> u32" where
  "SYS_DEVCON_InstructionCacheAssociativityGet = pic32_get_icache_associativity"
definition SYS_DEVCON_DataCacheLineSizeGet :: "cp0 \<Rightarrow> u32 \<Rightarrow> u32" where
  "SYS_DEVCON_DataCacheLineSizeGet = pic32_get_dcache_linesize"
definition SYS_DEVCON_InstructionCacheLineSizeGet :: "cp0 \<Rightarrow> u32 \<Rightarrow> u32" where
  "SYS_DEVCON_InstructionCacheLineSizeGet = pic32_get_icache_linesize"
definition SYS_DEVCON_DataCacheLinesPerWayGet :: "cp0 \<Rightarrow> u32 \<Rightarrow> u32" where
  "SYS_DEVCON_DataCacheLinesPerWayGet = pic32_get_dcache_lines_per_way"
definition SYS_DEVCON_InstructionCacheLinesPerWayGet :: "cp0 \<Rightarrow> u32 \<Rightarrow> u32" where
  "SYS_DEVCON_InstructionCacheLinesPerWayGet = pic32_get_icache_lines_per_way"
definition SYS_DEVCON_DataCacheSizeGet :: "cp0 \<Rightarrow> u32 \<Rightarrow> u32" where
  "SYS_DEVCON_DataCacheSizeGet = pic32_get_dcache_size"
definition SYS_DEVCON_InstructionCacheSizeGet :: "cp0 \<Rightarrow> u32 \<Rightarrow> u32" where
  "SYS_DEVCON_InstructionCacheSizeGet = pic32_get_icache_size"

section \<open>Lines\<close>

text \<open>The line of an address, for lines of \<open>2 ^ k\<close> bytes.\<close>

definition line_of :: "nat \<Rightarrow> u32 \<Rightarrow> u32" where "line_of k a = a AND NOT (mask k)"

lemma line_of_minus: "line_of k a = a - take_bit k a"
proof -
  have "a = (a AND NOT (mask k)) + (a AND mask k)"
    by (subst disjunctive_add) (auto simp: bit_simps intro!: bit_word_eqI)
  then show ?thesis by (simp add: line_of_def take_bit_eq_mask algebra_simps)
qed

lemma unat_take_bit: "unat (take_bit k (a :: u32)) = unat a mod 2 ^ k"
  by (simp only: unsigned_take_bit_eq) (simp add: take_bit_eq_mod)

lemma line_plus: "a = line_of k a + of_nat (unat a mod 2 ^ k)"
proof -
  have "of_nat (unat a mod 2 ^ k) = take_bit k a" unfolding unat_take_bit [symmetric] by simp
  then show ?thesis by (simp add: line_of_minus)
qed

lemma word_unat_less_32: "unat (a :: u32) < 2 ^ 32"
proof -
  have "unat a < 2 ^ LENGTH(32)" by (rule unsigned_less)
  then show ?thesis by simp
qed

lemma take_bit_unat: "take_bit 32 (unat (a :: u32)) = unat a"
  by (rule take_bit_nat_eq_self) (rule word_unat_less_32)

lemma unat_drop_bit: "unat (drop_bit k (a :: u32)) = unat a div 2 ^ k"
  by (simp only: unsigned_drop_bit_eq) (simp add: drop_bit_eq_div take_bit_unat)

lemma unat_small: "j < 2 ^ 32 \<Longrightarrow> unat (of_nat j :: u32) = j"
  by (simp add: unat_of_nat take_bit_nat_eq_self)

lemma unat_plus_small: "unat (b :: u32) + j < 2 ^ 32 \<Longrightarrow> unat (b + of_nat j) = unat b + j"
  using unat_small [of "unat b + j"] by simp

lemma take_bit_offset:
  assumes "take_bit k (t :: u32) = 0" and "k \<le> 32"
  shows "take_bit k (t + of_nat j) = of_nat (j mod 2 ^ k)"
proof -
  have dvd: "2 ^ k dvd (2 :: nat) ^ 32" using assms(2) by (rule le_imp_power_dvd)
  have t: "unat t mod 2 ^ k = 0" using assms(1) unat_take_bit [of k t] by simp
  have "unat (take_bit k (t + of_nat j)) = (unat t + j) mod 2 ^ 32 mod 2 ^ k"
    unfolding unat_take_bit by (simp add: unat_word_ariths unat_of_nat mod_simps)
  also have "\<dots> = (unat t mod 2 ^ k + j) mod 2 ^ k" using dvd by (simp add: mod_mod_cancel mod_simps)
  also have "\<dots> = j mod 2 ^ k" using t by simp
  finally have u: "unat (take_bit k (t + of_nat j)) = j mod 2 ^ k" .
  show ?thesis unfolding u [symmetric] by simp
qed

lemma line_of_offset:
  assumes "take_bit k t = 0" and "k \<le> 32"
  shows "line_of k (t + of_nat j) = t + of_nat (2 ^ k * (j div 2 ^ k))"
proof -
  have "line_of k (t + of_nat j) = t + (of_nat j - of_nat (j mod 2 ^ k))"
    unfolding line_of_minus take_bit_offset [OF assms] by simp
  also have "of_nat j - of_nat (j mod 2 ^ k) = (of_nat (j - j mod 2 ^ k) :: u32)" by (simp add: of_nat_diff)
  finally show ?thesis by (simp add: minus_mod_eq_mult_div)
qed

lemma line_of_aligned: "take_bit k (line_of k a) = 0"
  by (rule bit_word_eqI) (auto simp: line_of_def bit_simps)

text \<open>The loop visits the lines from its start on.\<close>

lemma cache_loop_lines:
  assumes "2 ^ k * m < 2 ^ 32"
  shows "cache_loop t (t + of_nat (2 ^ k * m)) (2 ^ k) = Some (map (\<lambda>i. t + of_nat (2 ^ k * i)) [0..<Suc m])"
  using assms
proof (induction m arbitrary: t)
  case 0
  then show ?case by (simp add: cache_loop.simps)
next
  case (Suc m)
  have "(of_nat (2 ^ k * Suc m) :: u32) \<noteq> 0"
    using unat_small [OF Suc.prems] by (metis less_numeral_extra(3) mult_pos_pos unsigned_0 zero_less_Suc zero_less_numeral zero_less_power)
  then have "cache_loop t (t + of_nat (2 ^ k * Suc m)) (2 ^ k) =
      Option.bind (cache_loop (t + 2 ^ k) (t + of_nat (2 ^ k * Suc m)) (2 ^ k)) (\<lambda>ts. Some (t # ts))"
    by (subst cache_loop.simps) simp
  also have e: "t + of_nat (2 ^ k * Suc m) = (t + 2 ^ k) + of_nat (2 ^ k * m)" by (simp add: algebra_simps)
  also have "cache_loop (t + 2 ^ k) ((t + 2 ^ k) + of_nat (2 ^ k * m)) (2 ^ k) =
      Some (map (\<lambda>i. (t + 2 ^ k) + of_nat (2 ^ k * i)) [0..<Suc m])"
    using Suc.prems by (intro Suc.IH) simp
  also have "Option.bind \<dots> (\<lambda>ts. Some (t # ts)) = Some (map (\<lambda>i. t + of_nat (2 ^ k * i)) (0 # map Suc [0..<Suc m]))"
    by (simp add: algebra_simps o_def)
  also have "0 # map Suc [0..<Suc m] = [0..<Suc (Suc m)]" unfolding map_Suc_upt by (simp add: upt_conv_Cons)
  finally show ?case by (simp only: e)
qed

text \<open>
  The loop over a range of bytes runs once over the lines of its bytes, in order.
\<close>

lemma cache_range_lines:
  assumes "k < 32" and "0 < unat n" and "unat n < 2 ^ 31"
  shows "\<exists>t m. cache_range cop (2 ^ k) a n = Some (map (\<lambda>i. (cop, t + of_nat (2 ^ k * i))) [0..<Suc m]) \<and>
     t = line_of k a \<and> take_bit k t = 0 \<and> m = (unat a mod 2 ^ k + unat n - 1) div 2 ^ k \<and> 2 ^ k * m < 2 ^ 32"
proof -
  define t where "t = line_of k a"
  define r where "r = unat a mod 2 ^ k"
  define m where "m = (r + unat n - 1) div 2 ^ k"
  have mask: "2 ^ k - 1 = (mask k :: u32)" by (simp add: mask_eq_exp_minus_1)
  have t: "take_bit k t = 0" unfolding t_def by (rule line_of_aligned)
  have a: "a = t + of_nat r" unfolding t_def r_def by (rule line_plus)
  have r: "r < 2 ^ k" by (simp add: r_def)
  have "of_nat (unat n - 1) = n - 1" using assms(2) by (simp add: of_nat_diff)
  then have e: "a + n - 1 = t + of_nat (r + (unat n - 1))" using a by simp
  have "r + (unat n - 1) = r + unat n - 1" using assms(2) by simp
  then have "line_of k (a + n - 1) = t + of_nat (2 ^ k * m)"
    unfolding e m_def using line_of_offset [OF t, of "r + (unat n - 1)"] assms(1) by simp
  moreover have small: "2 ^ k * m < 2 ^ 32"
  proof -
    have "2 ^ k * m \<le> r + unat n - 1" by (simp add: m_def)
    moreover have "(2 :: nat) ^ k \<le> 2 ^ 31" using assms(1) by (intro power_increasing) simp_all
    ultimately show ?thesis using r assms(2,3) by simp
  qed
  moreover have "\<not> bit n 31" "n \<noteq> 0"
  proof -
    have "unat (drop_bit 31 n) = 0" using assms(3) by (simp add: unat_drop_bit)
    then have "drop_bit 31 n = 0" by (metis unsigned_0 unsigned_word_eqI)
    then have "\<not> bit (drop_bit 31 n) 0" by simp
    then show "\<not> bit n 31" by (simp add: bit_simps)
    show "n \<noteq> 0" using assms(2) by auto
  qed
  ultimately have "cache_range cop (2 ^ k) a n = Some (map (\<lambda>i. (cop, t + of_nat (2 ^ k * i))) [0..<Suc m])"
    using cache_loop_lines [OF small, of t] by (simp add: cache_range_def Let_def mask t_def line_of_def o_def)
  with t small show ?thesis by (auto simp: t_def m_def r_def)
qed

text \<open>\<open>covers k a n ls\<close>: the addresses \<open>ls\<close> are, each once, the lines of the \<open>n\<close> bytes from \<open>a\<close> on.\<close>

definition covers :: "nat \<Rightarrow> u32 \<Rightarrow> u32 \<Rightarrow> u32 list \<Rightarrow> bool" where
  "covers k a n ls \<longleftrightarrow> distinct ls \<and> set ls = (\<lambda>i. line_of k (a + of_nat i)) ` {..<unat n}"

lemma range_quotients:
  assumes "r < (2 :: nat) ^ k" and "0 < n"
  shows "(\<lambda>i. (r + i) div 2 ^ k) ` {..<n} = {..(r + n - 1) div 2 ^ k}"
proof
  show "(\<lambda>i. (r + i) div 2 ^ k) ` {..<n} \<subseteq> {..(r + n - 1) div 2 ^ k}"
    using assms(2) by (auto intro!: div_le_mono)
  show "{..(r + n - 1) div 2 ^ k} \<subseteq> (\<lambda>i. (r + i) div 2 ^ k) ` {..<n}"
  proof
    fix j assume j: "j \<in> {..(r + n - 1) div 2 ^ k}"
    then have "2 ^ k * j \<le> 2 ^ k * ((r + n - 1) div 2 ^ k)" by simp
    also have "\<dots> \<le> r + n - 1" by simp
    finally have jn: "2 ^ k * j \<le> r + n - 1" .
    show "j \<in> (\<lambda>i. (r + i) div 2 ^ k) ` {..<n}"
    proof (cases "j = 0")
      case True
      then show ?thesis using assms by (intro image_eqI [of _ _ 0]) simp_all
    next
      case False
      then have "2 ^ k \<le> 2 ^ k * j" by simp
      then have rj: "r \<le> 2 ^ k * j" using assms(1) by linarith
      show ?thesis
      proof (rule image_eqI)
        show "j = (r + (2 ^ k * j - r)) div 2 ^ k" using rj by simp
        show "2 ^ k * j - r \<in> {..<n}" using jn assms(2) by simp
      qed
    qed
  qed
qed

lemma cache_range_covers:
  assumes "k < 32" and "0 < unat n" and "unat n < 2 ^ 31"
  shows "\<exists>ls. cache_range cop (2 ^ k) a n = Some (map (Pair cop) ls) \<and> covers k a n ls"
proof -
  define r where "r = unat a mod 2 ^ k"
  obtain t m where t: "cache_range cop (2 ^ k) a n = Some (map (\<lambda>i. (cop, t + of_nat (2 ^ k * i))) [0..<Suc m])"
      "t = line_of k a" "take_bit k t = 0" "m = (r + unat n - 1) div 2 ^ k" "2 ^ k * m < 2 ^ 32"
    using cache_range_lines [OF assms] unfolding r_def by blast
  let ?ls = "map (\<lambda>i. t + of_nat (2 ^ k * i)) [0..<Suc m]"
  have "a = t + of_nat r" unfolding t(2) r_def by (rule line_plus)
  then have line: "line_of k (a + of_nat i) = t + of_nat (2 ^ k * ((r + i) div 2 ^ k))" for i
    using line_of_offset [OF t(3), of "r + i"] assms(1) by (simp add: add.assoc)
  have quotients: "(\<lambda>i. (r + i) div 2 ^ k) ` {..<unat n} = {..m}"
    unfolding t(4) by (rule range_quotients) (simp_all add: r_def assms(2))
  have "(\<lambda>i. line_of k (a + of_nat i)) ` {..<unat n} = (\<lambda>j. t + of_nat (2 ^ k * j)) ` (\<lambda>i. (r + i) div 2 ^ k) ` {..<unat n}"
    unfolding image_image line ..
  also have "\<dots> = set ?ls"
    unfolding quotients set_map set_upt atLeast0LessThan lessThan_Suc_atMost ..
  finally have "set ?ls = (\<lambda>i. line_of k (a + of_nat i)) ` {..<unat n}" ..
  moreover have "inj_on (\<lambda>i. t + of_nat (2 ^ k * i)) (set [0..<Suc m])"
  proof (rule inj_onI)
    fix i j assume ij: "i \<in> set [0..<Suc m]" "j \<in> set [0..<Suc m]" "t + of_nat (2 ^ k * i) = t + of_nat (2 ^ k * j)"
    have "2 ^ k * i \<le> 2 ^ k * m" "2 ^ k * j \<le> 2 ^ k * m" using ij(1,2) by auto
    then have "2 ^ k * i < 2 ^ 32" "2 ^ k * j < 2 ^ 32" using t(5) by linarith+
    with ij(3) unat_small have "2 ^ k * i = 2 ^ k * j" by (metis add_left_cancel)
    then show "i = j" by simp
  qed
  ultimately show ?thesis
    using t(1) by (intro exI [of _ ?ls]) (simp add: covers_def distinct_map o_def del: upt_Suc)
qed

section \<open>The geometry in numbers\<close>

text \<open>The fields of \<open>Config1\<close> as numbers; \<open>line_bytes\<close>, \<open>ways\<close> and \<open>sets\<close> of a cache whose fields are at the given positions.\<close>

definition field :: "nat \<Rightarrow> cp0 \<Rightarrow> nat" where "field pos c = unat (CONFIG1 c) div 2 ^ pos mod 8"

definition line_bytes :: "nat \<Rightarrow> cp0 \<Rightarrow> nat" where "line_bytes pos c = 2 ^ (field pos c + 1)"
definition ways :: "nat \<Rightarrow> cp0 \<Rightarrow> nat" where "ways pos c = field pos c + 1"
definition sets :: "nat \<Rightarrow> cp0 \<Rightarrow> nat" where "sets pos c = 2 ^ (field pos c + 6)"

lemma config1_field_bits: "pos \<le> 29 \<Longrightarrow> config1_field pos c = take_bit 3 (drop_bit pos (CONFIG1 c))"
proof -
  assume pos: "pos \<le> 29"
  have m: "(7 :: u32) = mask 3" by (simp add: mask_eq_exp_minus_1)
  show ?thesis unfolding config1_field_def m using pos by (intro bit_word_eqI) (auto simp: bit_simps)
qed

lemma unat_config1_field: "pos \<le> 29 \<Longrightarrow> unat (config1_field pos c) = field pos c"
  by (simp add: config1_field_bits unat_take_bit unat_drop_bit field_def)

lemma field_less [simp]: "field pos c < 8"
  by (simp add: field_def)

lemma field_zero: "pos \<le> 29 \<Longrightarrow> CONFIG1 c AND push_bit pos 7 = 0 \<longleftrightarrow> field pos c = 0"
proof -
  assume pos: "pos \<le> 29"
  have m: "(7 :: u32) = mask 3" by (simp add: mask_eq_exp_minus_1)
  have "CONFIG1 c AND push_bit pos 7 = push_bit pos (config1_field pos c)"
    unfolding config1_field_def m using pos by (intro bit_word_eqI) (auto simp: bit_simps)
  moreover have "config1_field pos c = drop_bit pos (CONFIG1 c AND push_bit pos 7)" by (simp add: config1_field_def)
  ultimately have "CONFIG1 c AND push_bit pos 7 = 0 \<longleftrightarrow> config1_field pos c = 0" by (metis drop_bit_of_0 push_bit_of_0)
  also have "\<dots> \<longleftrightarrow> unat (config1_field pos c) = 0" by (metis unsigned_0 unsigned_word_eqI)
  finally show ?thesis unfolding unat_config1_field [OF pos] .
qed

lemma unat_field_plus:
  assumes "pos \<le> 29" and "j < 100" shows "unat (config1_field pos c + of_nat j) = field pos c + j"
proof -
  have "config1_field pos c + of_nat j = of_nat (field pos c + j)"
    by (simp flip: unat_config1_field [OF assms(1)])
  moreover have "field pos c + j < 2 ^ 32" using add_strict_mono [OF field_less assms(2), of pos c] by simp
  ultimately show ?thesis by (simp only: unat_small)
qed

lemma get_linesize_bytes:
  assumes "has_config1 c" and "pos \<le> 29" and "field pos c \<noteq> 0"
  shows "get_linesize pos c v0 = 2 ^ (field pos c + 1)"
  using assms field_zero [of pos c] unat_field_plus [of pos 1 c] by (simp add: get_linesize_def push_bit_eq_mult)

lemma get_associativity_ways:
  assumes "has_config1 c" and "pos \<le> 29" shows "get_associativity pos c v0 = of_nat (ways pos c)"
  using assms(1) by (simp add: get_associativity_def ways_def flip: unat_config1_field [OF assms(2)])

lemma get_lines_sets:
  assumes "has_config1 c" and "pos \<le> 29" shows "get_lines_per_way pos c v0 = of_nat (sets pos c)"
  using assms unat_field_plus [of pos 6 c] by (simp add: get_lines_per_way_def sets_def push_bit_eq_mult)

section \<open>Operations on ranges\<close>

text \<open>A routine \<open>f\<close> issues \<open>cop\<close> on the lines of a range of bytes, each line once.\<close>

definition works_on_lines :: "cache_op \<Rightarrow> nat \<Rightarrow> u32 \<Rightarrow> u32 \<Rightarrow> (cache_op \<times> u32) list option \<Rightarrow> bool" where
  "works_on_lines cop k a n r \<longleftrightarrow> (\<exists>ls. r = Some (map (Pair cop) ls) \<and> covers k a n ls)"

lemma power_nonzero: "k < 32 \<Longrightarrow> (2 ^ k :: u32) \<noteq> 0"
proof -
  assume "k < 32"
  then have "unat (of_nat (2 ^ k) :: u32) = 2 ^ k" by (intro unat_small power_strict_increasing) simp_all
  then show ?thesis by (metis of_nat_numeral of_nat_power power_not_zero unsigned_0 zero_neq_numeral)
qed

lemma on_range_lines:
  assumes "k < 32" and "0 < unat n" and "unat n < 2 ^ 31"
  shows "works_on_lines cop k a n (on_range cop (2 ^ k) a n)"
proof -
  have "(2 ^ k :: u32) \<noteq> 0" by (rule power_nonzero [OF assms(1)])
  then show ?thesis using cache_range_covers [OF assms] by (simp add: works_on_lines_def on_range_def)
qed

lemma field_shift: "field pos c + 1 < 32"
  using field_less [of pos c] by linarith

lemmas range_routines = SYS_DEVCON_DataCacheClean_def pic32_clean_dcache_def SYS_DEVCON_DataCacheInvalidate_def
  pic32_clean_dcache_nowrite_def SYS_DEVCON_InstructionCacheInvalidate_def pic32_clean_icache_def SYS_DEVCON_DataCacheLock_def
  pic32_lock_dcache_def SYS_DEVCON_InstructionCacheLock_def pic32_lock_icache_def pic32_get_dcache_linesize_def
  pic32_get_icache_linesize_def

text \<open>
  C14: The range operations reach every line of their range once. On a device with both caches, for every start and every size from
  one to \<open>2 ^ 31 - 1\<close> bytes, also for a range that wraps around the end of the address space, the cleaning, invalidating,
  locking and synchronising services terminate and issue their cache instruction on exactly the lines that hold a byte of the
  range, none of them twice; \<open>SYS_DEVCON_CacheClean\<close> does so in the data cache and then in the instruction cache.
\<close>

theorem cache_ranges_covered:
  assumes "has_config1 c" and "field DL c \<noteq> 0" and "field IL c \<noteq> 0" and "SYNCI_Step c = 2 ^ j" and "j < 32"
    and "0 < unat n" and "unat n < 2 ^ 31"
  shows "works_on_lines Hit_Writeback_Inv_D (field DL c + 1) a n (SYS_DEVCON_DataCacheClean c v0 a n) \<and>
     works_on_lines Hit_Invalidate_D (field DL c + 1) a n (SYS_DEVCON_DataCacheInvalidate c v0 a n) \<and>
     works_on_lines Hit_Invalidate_I (field IL c + 1) a n (SYS_DEVCON_InstructionCacheInvalidate c v0 a n) \<and>
     works_on_lines Fetch_Lock_D (field DL c + 1) a n (SYS_DEVCON_DataCacheLock c v0 a n) \<and>
     works_on_lines Fetch_Lock_I (field IL c + 1) a n (SYS_DEVCON_InstructionCacheLock c v0 a n) \<and>
     works_on_lines synci j a n (SYS_DEVCON_CacheSync c a n) \<and>
     (\<exists>ds es. SYS_DEVCON_CacheClean c v0 a n = Some (ds @ es) \<and>
        works_on_lines Hit_Writeback_Inv_D (field DL c + 1) a n (Some ds) \<and>
        works_on_lines Hit_Invalidate_I (field IL c + 1) a n (Some es))"
proof -
  have pos: "DL \<le> 29" "IL \<le> 29" by (simp_all add: DL_def IL_def)
  have lines: "get_linesize DL c v = 2 ^ (field DL c + 1)" "get_linesize IL c v = 2 ^ (field IL c + 1)" for v
    using get_linesize_bytes [OF assms(1) pos(1) assms(2)] get_linesize_bytes [OF assms(1) pos(2) assms(3)] by simp_all
  note [simp del] = power_Suc add_Suc_right
  have on: "works_on_lines cop (field pos c + 1) a n (on_range cop (2 ^ (field pos c + 1)) a n)" for cop pos
    by (rule on_range_lines [OF field_shift assms(6,7)])
  have clean: "works_on_lines Hit_Writeback_Inv_D (field DL c + 1) a n (SYS_DEVCON_DataCacheClean c v a n)"
    "works_on_lines Hit_Invalidate_I (field IL c + 1) a n (SYS_DEVCON_InstructionCacheInvalidate c v a n)" for v
    unfolding range_routines lines by (rule on)+
  obtain ds where ds: "SYS_DEVCON_DataCacheClean c v0 a n = Some ds" using clean(1) by (auto simp: works_on_lines_def)
  obtain es where es: "SYS_DEVCON_InstructionCacheInvalidate c (pic32_get_dcache_linesize c v0) a n = Some es"
    using clean(2) by (auto simp: works_on_lines_def)
  have "SYS_DEVCON_CacheClean c v0 a n = Some (ds @ es)"
    using ds es by (simp add: SYS_DEVCON_CacheClean_def pic32_clean_cache_def SYS_DEVCON_DataCacheClean_def
        SYS_DEVCON_InstructionCacheInvalidate_def)
  moreover have "works_on_lines synci j a n (SYS_DEVCON_CacheSync c a n)"
    unfolding SYS_DEVCON_CacheSync_def pic32_sync_icache_def assms(4) by (rule on_range_lines [OF assms(5-7)])
  ultimately show ?thesis
    using clean ds es unfolding range_routines lines by (metis on)
qed

section \<open>Operations on whole caches\<close>

lemma size_words:
  assumes "has_config1 c" and "lp \<le> 29" and "wp \<le> 29" and "sp \<le> 29" and "field lp c \<noteq> 0"
  shows "get_lines_per_way sp c x * (get_linesize lp c y * get_associativity wp c z) =
     of_nat (line_bytes lp c * (sets sp c * ways wp c))"
proof -
  have "get_linesize lp c y = of_nat (line_bytes lp c)"
    using get_linesize_bytes [OF assms(1,2,5)] by (simp add: line_bytes_def)
  then show ?thesis
    by (simp only: get_lines_sets [OF assms(1,4)] get_associativity_ways [OF assms(1,3)]) (simp add: algebra_simps)
qed

lemma size_le: "line_bytes lp c * (sets sp c * ways wp c) \<le> 2 ^ 24"
proof -
  have f: "field pos c \<le> 7" for pos using field_less [of pos c] by linarith
  have "line_bytes lp c \<le> 2 ^ 8" "sets sp c \<le> 2 ^ 13"
    unfolding line_bytes_def sets_def by (intro power_increasing; use f [of lp] f [of sp] in simp)+
  moreover have "ways wp c \<le> 2 ^ 3" using f [of wp] by (simp add: ways_def)
  ultimately have "line_bytes lp c * (sets sp c * ways wp c) \<le> 2 ^ 8 * (2 ^ 13 * 2 ^ 3)" by (intro mult_le_mono)
  then show ?thesis by simp
qed

lemma size_bound: "0 < line_bytes lp c * (sets sp c * ways wp c) \<and> line_bytes lp c * (sets sp c * ways wp c) < 2 ^ 31"
  using le_less_trans [OF size_le, of "2 ^ 31" lp c sp wp] by (simp add: line_bytes_def sets_def ways_def)

text \<open>
  The line index and the way that an index operation at an address selects, in a cache with lines of \<open>L\<close> bytes, \<open>S\<close> sets and \<open>W\<close> ways.
  The hardware takes them from bit fields of the address; for numbers that are powers of two, which \<open>S\<close> always is and \<open>W\<close> is on
  this chip, the fields are these remainders.
\<close>

definition selects :: "nat \<Rightarrow> nat \<Rightarrow> nat \<Rightarrow> u32 \<Rightarrow> nat \<times> nat" where
  "selects L S W a = (unat a div L mod S, unat a div (L * S) mod W)"

lemma index_pairs:
  assumes "0 < S" shows "(\<lambda>i. (i mod S, i div S)) ` {..<S * W} = {..<S} \<times> {..<(W :: nat)}"
proof
  show "(\<lambda>i. (i mod S, i div S)) ` {..<S * W} \<subseteq> {..<S} \<times> {..<W}"
    using assms by (auto simp: less_mult_imp_div_less mult.commute)
  show "{..<S} \<times> {..<W} \<subseteq> (\<lambda>i. (i mod S, i div S)) ` {..<S * W}"
  proof
    fix p assume "p \<in> {..<S} \<times> {..<W}"
    then obtain s w where sw: "p = (s, w)" "s < S" "w < W" by auto
    then have "S * (w + 1) \<le> S * W" by (intro mult_le_mono2) simp
    with sw have "S * w + s < S * W" by simp
    with sw show "p \<in> (\<lambda>i. (i mod S, i div S)) ` {..<S * W}" by (intro image_eqI [of _ _ "S * w + s"]) simp_all
  qed
qed

lemma flush_visits:
  assumes "k < 32" and "0 < S" and "0 < W" and "2 ^ k * (S * W) < 2 ^ 31"
    and "2 ^ k * (S * W) dvd unat base" and "unat base + 2 ^ k * (S * W) \<le> 2 ^ 32"
  shows "\<exists>ls. on_range cop (2 ^ k) base (of_nat (2 ^ k * (S * W))) = Some (map (Pair cop) ls) \<and> length ls = S * W \<and>
     selects (2 ^ k) S W ` set ls = {..<S} \<times> {..<W}"
proof -
  let ?L = "2 ^ k :: nat"
  have n: "unat (of_nat (?L * (S * W)) :: u32) = ?L * (S * W)" using assms(4) by (intro unat_small) simp
  obtain q where q: "unat base = ?L * (S * W) * q" using assms(5) by (auto elim: dvdE)
  then have "unat base mod ?L = 0" by (simp add: mult.assoc)
  then have base: "line_of k base = base" using unat_take_bit [of k base] by (simp add: line_of_minus) (metis unsigned_0 unsigned_word_eqI)
  have "(?L * (S * W) - 1) div ?L = S * W - 1"
  proof -
    have "?L * (S * W) - 1 = (?L - 1) + (S * W - 1) * ?L"
      using assms(2,3) by (cases "S * W") (simp_all add: algebra_simps)
    then show ?thesis by (simp only:) (subst div_mult_self1, simp_all)
  qed
  moreover obtain m where "cache_range cop (2 ^ k) base (of_nat (?L * (S * W))) =
      Some (map (\<lambda>i. (cop, base + of_nat (?L * i))) [0..<Suc m])" "m = (unat base mod ?L + ?L * (S * W) - 1) div ?L"
    using cache_range_lines [OF assms(1), of "of_nat (?L * (S * W))" cop base] n assms(2-4) base by auto
  ultimately have r: "cache_range cop (2 ^ k) base (of_nat (?L * (S * W))) =
      Some (map (Pair cop) (map (\<lambda>i. base + of_nat (?L * i)) [0..<S * W]))"
    using \<open>unat base mod ?L = 0\<close> assms(2,3) by (simp add: o_def del: upt_Suc)
  have sel: "selects ?L S W (base + of_nat (?L * i)) = (i mod S, i div S)" if "i < S * W" for i
  proof -
    have "?L * i < ?L * (S * W)" using that by simp
    then have "unat (base + of_nat (?L * i)) = unat base + ?L * i"
      using assms(6) by (intro unat_plus_small) linarith
    also have "\<dots> = ?L * (S * (W * q) + i)" unfolding q by (simp add: algebra_simps)
    finally have u: "unat (base + of_nat (?L * i)) = ?L * (S * (W * q) + i)" .
    have "?L * (S * (W * q) + i) div (?L * S) = W * q + i div S"
      using assms(2) by (simp add: div_mult2_eq)
    moreover have "i div S < W" using that assms(2) by (simp add: less_mult_imp_div_less mult.commute)
    ultimately show ?thesis unfolding selects_def u by simp
  qed
  have "selects ?L S W ` set (map (\<lambda>i. base + of_nat (?L * i)) [0..<S * W]) = (\<lambda>i. (i mod S, i div S)) ` {..<S * W}"
    using sel by (auto simp: image_image atLeast0LessThan intro!: image_cong)
  then have "selects ?L S W ` set (map (\<lambda>i. base + of_nat (?L * i)) [0..<S * W]) = {..<S} \<times> {..<W}"
    using index_pairs [OF assms(2)] by simp
  moreover have "(2 ^ k :: u32) \<noteq> 0" by (rule power_nonzero [OF assms(1)])
  ultimately show ?thesis
    using r unfolding on_range_def by (intro exI [of _ "map (\<lambda>i. base + of_nat (?L * i)) [0..<S * W]"]) simp
qed

text \<open>
  C6: A flush reaches the whole cache. On a device with both caches, if the base that the linker script or the default gives is a multiple of
  the size of the cache and the cache's worth of addresses from there does not pass the end of the address
  space, \<open>SYS_DEVCON_DataCacheFlush\<close> and \<open>SYS_DEVCON_InstructionCacheFlush\<close> terminate and issue one index operation for every set of every way,
  whatever the geometry that the configuration registers report.
\<close>

theorem cache_flush_complete:
  fixes c db ib
  defines "d \<equiv> (if db \<noteq> 0 then db else 0x80000000 :: u32)" and "p \<equiv> (if ib \<noteq> 0 then ib else 0x9D000000 :: u32)"
    and "dbytes \<equiv> line_bytes DL c * (sets DS c * ways DA c)" and "ibytes \<equiv> line_bytes IL c * (sets IS c * ways IA c)"
  assumes "has_config1 c" and "field DL c \<noteq> 0" and "field IL c \<noteq> 0"
    and "dbytes dvd unat d" and "unat d + dbytes \<le> 2 ^ 32" and "ibytes dvd unat p" and "unat p + ibytes \<le> 2 ^ 32"
  shows "(\<exists>ls. SYS_DEVCON_DataCacheFlush db c v0 = Some (map (Pair Index_Writeback_Inv_D) ls) \<and>
       length ls = sets DS c * ways DA c \<and>
       selects (line_bytes DL c) (sets DS c) (ways DA c) ` set ls = {..<sets DS c} \<times> {..<ways DA c}) \<and>
     (\<exists>ls. SYS_DEVCON_InstructionCacheFlush ib c v0 = Some (map (Pair Index_Invalidate_I) ls) \<and>
       length ls = sets IS c * ways IA c \<and>
       selects (line_bytes IL c) (sets IS c) (ways IA c) ` set ls = {..<sets IS c} \<times> {..<ways IA c})"
proof -
  have pos: "DL \<le> 29" "IL \<le> 29" "DA \<le> 29" "IA \<le> 29" "DS \<le> 29" "IS \<le> 29"
    by (simp_all add: DL_def IL_def DA_def IA_def DS_def IS_def)
  have dsize: "pic32_get_dcache_size c v = of_nat dbytes" for v
    using size_words [OF assms(5) pos(1,3,5) assms(6)] by (simp add: pic32_get_dcache_size_def dbytes_def Let_def
      pic32_get_dcache_linesize_def pic32_get_dcache_associativity_def pic32_get_dcache_lines_per_way_def)
  have isize: "pic32_get_icache_size c v = of_nat ibytes" for v
    using size_words [OF assms(5) pos(2,4,6) assms(7)] by (simp add: pic32_get_icache_size_def ibytes_def Let_def
      pic32_get_icache_linesize_def pic32_get_icache_associativity_def pic32_get_icache_lines_per_way_def)
  have dline: "pic32_get_dcache_linesize c v = 2 ^ (field DL c + 1)" for v
    unfolding pic32_get_dcache_linesize_def by (rule get_linesize_bytes [OF assms(5) pos(1) assms(6)])
  have iline: "pic32_get_icache_linesize c v = 2 ^ (field IL c + 1)" for v
    unfolding pic32_get_icache_linesize_def by (rule get_linesize_bytes [OF assms(5) pos(2) assms(7)])
  have nz: "(of_nat n :: u32) \<noteq> 0" if "0 < n" "n < 2 ^ 31" for n
  proof
    assume "(of_nat n :: u32) = 0"
    moreover have "unat (of_nat n :: u32) = n" using that(2) by (intro unat_small) simp
    ultimately show False using that(1) by simp
  qed
  have "flush_all cop b (of_nat n) l = on_range cop l b (of_nat n)" if "0 < n" "n < 2 ^ 31" for cop b n l
    using nz [OF that] by (simp add: flush_all_def)
  note flush = this [OF conjunct1 conjunct2, OF size_bound size_bound]
  have S: "0 < sets q c" "0 < ways q c" for q by (simp_all add: sets_def ways_def)
  note visits = flush_visits [OF field_shift S(1) S(2), folded line_bytes_def, OF conjunct2, OF size_bound]
  show ?thesis
    unfolding SYS_DEVCON_DataCacheFlush_def pic32_flush_dcache_def SYS_DEVCON_InstructionCacheFlush_def pic32_flush_icache_def
      Let_def d_def [symmetric] p_def [symmetric] dsize isize dline iline
    unfolding dbytes_def ibytes_def flush
    by (intro conjI visits; fact assms(8-11) [unfolded dbytes_def ibytes_def])
qed

definition pic32mz_cp0 :: cp0 where
  "pic32mz_cp0 = \<lparr>CONFIG = 0x80240483, CONFIG1 = push_bit 22 0 OR push_bit 19 3 OR push_bit 16 3 OR push_bit 13 0 OR push_bit 10 3 OR
     push_bit 7 3, SYNCI_Step = 16\<rparr>"

lemma pic32mz_fields:
  "has_config1 pic32mz_cp0" "field DL pic32mz_cp0 = 3" "field IL pic32mz_cp0 = 3" "field DS pic32mz_cp0 = 0"
  "field IS pic32mz_cp0 = 0" "field DA pic32mz_cp0 = 3" "field IA pic32mz_cp0 = 3"
  by (simp_all add: pic32mz_cp0_def has_config1_def field_def DL_def IL_def DS_def IS_def DA_def IA_def)

lemma cache_flush_complete_witness:
  "\<exists>ls. SYS_DEVCON_DataCacheFlush 0 pic32mz_cp0 7 = Some (map (Pair Index_Writeback_Inv_D) ls) \<and> length ls = 256"
  using cache_flush_complete [of pic32mz_cp0 0 0 7]
  by (auto simp: pic32mz_fields line_bytes_def sets_def ways_def)

lemma cache_ranges_covered_witness:
  "works_on_lines Hit_Writeback_Inv_D 4 0x80001002 17 (SYS_DEVCON_DataCacheClean pic32mz_cp0 0 0x80001002 17)"
  using cache_ranges_covered [where c = pic32mz_cp0 and j = 4 and n = 17 and a = "0x80001002" and ?v0.0 = 0]
  by (simp add: pic32mz_fields) (simp add: pic32mz_cp0_def)

section \<open>Initialisation\<close>

lemma tag_loop_lines:
  assumes "2 ^ k * Suc m < 2 ^ 32"
  shows "tag_loop t (t + of_nat (2 ^ k * Suc m)) (2 ^ k) = Some (map (\<lambda>i. t + of_nat (2 ^ k * i) + 2 ^ k - 4) [0..<Suc m])"
  using assms
proof (induction m arbitrary: t)
  case 0
  then show ?case by (subst tag_loop.simps) simp
next
  case (Suc m)
  have "(of_nat (2 ^ k * Suc m) :: u32) \<noteq> 0"
  proof
    assume "(of_nat (2 ^ k * Suc m) :: u32) = 0"
    moreover have "unat (of_nat (2 ^ k * Suc m) :: u32) = 2 ^ k * Suc m" using Suc.prems by (intro unat_small) simp
    ultimately show False by (metis mult_is_0 nat.distinct(1) power_not_zero unsigned_0 zero_neq_numeral)
  qed
  moreover have e: "t + of_nat (2 ^ k * Suc (Suc m)) = (t + 2 ^ k) + of_nat (2 ^ k * Suc m)" by (simp add: algebra_simps)
  ultimately have "tag_loop t (t + of_nat (2 ^ k * Suc (Suc m))) (2 ^ k) =
      Option.bind (tag_loop (t + 2 ^ k) ((t + 2 ^ k) + of_nat (2 ^ k * Suc m)) (2 ^ k)) (\<lambda>ts. Some ((t + 2 ^ k - 4) # ts))"
    unfolding e by (subst tag_loop.simps) (simp add: Let_def del: of_nat_mult)
  also have "tag_loop (t + 2 ^ k) ((t + 2 ^ k) + of_nat (2 ^ k * Suc m)) (2 ^ k) =
      Some (map (\<lambda>i. (t + 2 ^ k) + of_nat (2 ^ k * i) + 2 ^ k - 4) [0..<Suc m])"
    using Suc.prems by (intro Suc.IH) simp
  also have "Option.bind \<dots> (\<lambda>ts. Some ((t + 2 ^ k - 4) # ts)) =
      Some (map (\<lambda>i. t + of_nat (2 ^ k * i) + 2 ^ k - 4) (0 # map Suc [0..<Suc m]))"
    by (simp add: algebra_simps o_def)
  also have "0 # map Suc [0..<Suc m] = [0..<Suc (Suc m)]" unfolding map_Suc_upt by (simp add: upt_conv_Cons)
  finally show ?case .
qed

text \<open>The coherency bits, however they are written.\<close>

lemma coherency_bits: "((w OR 7) XOR 7) OR x = (w AND NOT 7) OR (x :: u32)"
  by (rule bit_word_eqI) (auto simp: bit_simps)

lemma coherency_read: "x < 4 \<Longrightarrow> ((w AND NOT 7) OR x) AND 3 = (x :: u32)"
proof -
  assume "x < 4"
  then have "unat x < 4" by (simp add: word_less_nat_alt)
  then have x: "take_bit 2 x = x" using unat_take_bit [of 2 x] by (intro unsigned_word_eqI) simp
  have m: "(3 :: u32) = mask 2" "(7 :: u32) = mask 3" by (simp_all add: mask_eq_exp_minus_1)
  have "((w AND NOT 7) OR x) AND 3 = take_bit 2 x" unfolding m by (rule bit_word_eqI) (auto simp: bit_simps)
  then show ?thesis by (simp add: x)
qed

lemma clear_visits:
  assumes "2 \<le> k" and "0 < S" and "0 < W" and "2 ^ k * (S * W) < 2 ^ 31"
    and "2 ^ k * (S * W) dvd unat base" and "unat base + 2 ^ k * (S * W) \<le> 2 ^ 32"
  shows "\<exists>ls. clear_tags cop base (of_nat (2 ^ k * (S * W))) (2 ^ k) = Some (map (Pair cop) ls) \<and> length ls = S * W \<and>
     selects (2 ^ k) S W ` set ls = {..<S} \<times> {..<W}"
proof -
  let ?L = "2 ^ k :: nat"
  obtain m where m: "S * W = Suc m" using assms(2,3) by (cases "S * W") auto
  have n: "unat (of_nat (?L * (S * W)) :: u32) = ?L * (S * W)" using assms(4) by (intro unat_small) simp
  have "0 < ?L * (S * W)" using assms(2,3) by simp
  then have nz: "(of_nat (?L * (S * W)) :: u32) \<noteq> 0" using n by (metis less_irrefl unsigned_0)
  obtain q where q: "unat base = ?L * (S * W) * q" using assms(5) by (auto elim: dvdE)
  have L: "4 \<le> ?L" using power_increasing [OF assms(1), of "2 :: nat"] by simp
  let ?f = "\<lambda>i. base + of_nat (?L * i) + 2 ^ k - 4"
  have "?L * Suc m < 2 ^ 32" using assms(4) by (simp add: m)
  then have r: "clear_tags cop base (of_nat (?L * (S * W))) (2 ^ k) = Some (map (Pair cop) (map ?f [0..<S * W]))"
    using tag_loop_lines [of k m base] nz unfolding clear_tags_def m by (simp add: o_def del: upt_Suc of_nat_mult)
  define d where "d = ?L - 4"
  have d: "d < ?L" "?L = d + 4" using L by (simp_all add: d_def)
  have w: "(2 ^ k :: u32) - 4 = of_nat d" using L by (simp add: d_def of_nat_diff)
  have sel: "selects ?L S W (?f i) = (i mod S, i div S)" if "i < S * W" for i
  proof -
    have "?f i = base + of_nat (?L * i + d)" using w by (simp add: algebra_simps)
    moreover have "?L * (i + 1) \<le> ?L * (S * W)" using that by (intro mult_le_mono2) simp
    then have "unat base + (?L * i + d) < 2 ^ 32" using assms(6) d(1) unfolding distrib_left by linarith
    ultimately have "unat (?f i) = unat base + (?L * i + d)" by (simp only: unat_plus_small)
    also have "\<dots> = ?L * (S * (W * q) + i) + d" unfolding q by (simp add: algebra_simps)
    finally have u: "unat (?f i) = ?L * (S * (W * q) + i) + d" .
    have dv: "(?L * (S * (W * q) + i) + d) div ?L = S * (W * q) + i" using d(1) by simp
    then have "(?L * (S * (W * q) + i) + d) div (?L * S) = W * q + i div S"
      using assms(2) by (simp add: div_mult2_eq)
    moreover have "i div S < W" using that assms(2) by (simp add: less_mult_imp_div_less mult.commute)
    ultimately show ?thesis unfolding selects_def u dv by simp
  qed
  have "selects ?L S W ` set (map ?f [0..<S * W]) = (\<lambda>i. (i mod S, i div S)) ` {..<S * W}"
    using sel by (auto simp: image_image atLeast0LessThan intro!: image_cong)
  then have "selects ?L S W ` set (map ?f [0..<S * W]) = {..<S} \<times> {..<W}"
    using index_pairs [OF assms(2)] by simp
  with r show ?thesis by (intro exI [of _ "map ?f [0..<S * W]"]) simp
qed

lemma cache_sizes:
  assumes "has_config1 c"
  shows "field DL c \<noteq> 0 \<Longrightarrow> pic32_get_dcache_size c v = of_nat (line_bytes DL c * (sets DS c * ways DA c))"
    and "field IL c \<noteq> 0 \<Longrightarrow> pic32_get_icache_size c v = of_nat (line_bytes IL c * (sets IS c * ways IA c))"
  using size_words [OF assms, of DL DA DS] size_words [OF assms, of IL IA IS]
  by (simp_all add: DL_def IL_def DA_def IA_def DS_def IS_def pic32_get_dcache_size_def pic32_get_icache_size_def Let_def
      pic32_get_dcache_linesize_def pic32_get_dcache_associativity_def pic32_get_dcache_lines_per_way_def
      pic32_get_icache_linesize_def pic32_get_icache_associativity_def pic32_get_icache_lines_per_way_def)

lemma cache_lines:
  assumes "has_config1 c"
  shows "field DL c \<noteq> 0 \<Longrightarrow> pic32_get_dcache_linesize c v = 2 ^ (field DL c + 1)"
    and "field IL c \<noteq> 0 \<Longrightarrow> pic32_get_icache_linesize c v = 2 ^ (field IL c + 1)"
  unfolding pic32_get_dcache_linesize_def pic32_get_icache_linesize_def
  by (rule get_linesize_bytes [OF assms]; simp add: DL_def IL_def)+

text \<open>
  Initialisation clears the tag of every line of both caches and sets the coherency. If the default bases are multiples of the sizes,
  \<open>SYS_DEVCON_CacheInit\<close> terminates, stores one tag for every set of every way of the instruction cache and then of the data cache, and leaves
  \<open>Config\<close> as \<open>SYS_DEVCON_CacheCoherencySet\<close> would; whatever the linker's symbols say, the bases are the defaults.
\<close>

theorem cache_init_complete:
  assumes "has_config1 c" and "field DL c \<noteq> 0" and "field IL c \<noteq> 0"
    and "line_bytes DL c * (sets DS c * ways DA c) dvd 0x80000000" and "line_bytes IL c * (sets IS c * ways IA c) dvd 0x9D000000"
  shows "\<exists>is ds. SYS_DEVCON_CacheInit x c v0 =
       Some (map (Pair Index_Store_Tag_I) is @ map (Pair Index_Store_Tag_D) ds, SYS_DEVCON_CacheCoherencySet x c) \<and>
     length is = sets IS c * ways IA c \<and> length ds = sets DS c * ways DA c \<and>
     selects (line_bytes IL c) (sets IS c) (ways IA c) ` set is = {..<sets IS c} \<times> {..<ways IA c} \<and>
     selects (line_bytes DL c) (sets DS c) (ways DA c) ` set ds = {..<sets DS c} \<times> {..<ways DA c}"
proof -
  have S: "0 < sets q c" "0 < ways q c" for q by (simp_all add: sets_def ways_def)
  have k: "2 \<le> field DL c + 1" "2 \<le> field IL c + 1" using assms(2,3) by linarith+
  have u: "unat (0x80000000 :: u32) = 0x80000000" "unat (0x9D000000 :: u32) = 0x9D000000" by simp_all
  have le: "unat (0x80000000 :: u32) + line_bytes DL c * (sets DS c * ways DA c) \<le> 2 ^ 32"
    "unat (0x9D000000 :: u32) + line_bytes IL c * (sets IS c * ways IA c) \<le> 2 ^ 32"
    using size_le [of DL c DS DA] size_le [of IL c IS IA] unfolding u by simp_all
  note visits = clear_visits [OF _ S(1) S(2) conjunct2 [OF size_bound, unfolded line_bytes_def], folded line_bytes_def]
  obtain ds where ds: "clear_tags Index_Store_Tag_D 0x80000000 (of_nat (line_bytes DL c * (sets DS c * ways DA c))) (2 ^ (field DL c + 1)) =
      Some (map (Pair Index_Store_Tag_D) ds)" "length ds = sets DS c * ways DA c"
      "selects (line_bytes DL c) (sets DS c) (ways DA c) ` set ds = {..<sets DS c} \<times> {..<ways DA c}"
    using visits [OF k(1) assms(4) [folded u(1)] le(1), of Index_Store_Tag_D] by blast
  obtain es where es: "clear_tags Index_Store_Tag_I 0x9D000000 (of_nat (line_bytes IL c * (sets IS c * ways IA c))) (2 ^ (field IL c + 1)) =
      Some (map (Pair Index_Store_Tag_I) es)" "length es = sets IS c * ways IA c"
      "selects (line_bytes IL c) (sets IS c) (ways IA c) ` set es = {..<sets IS c} \<times> {..<ways IA c}"
    using visits [OF k(2) assms(5) [folded u(2)] le(2), of Index_Store_Tag_I] by blast
  have "SYS_DEVCON_CacheInit x c v0 =
      Some (map (Pair Index_Store_Tag_I) es @ map (Pair Index_Store_Tag_D) ds, SYS_DEVCON_CacheCoherencySet x c)"
    unfolding SYS_DEVCON_CacheInit_def pic32_init_cache_def Let_def cache_sizes(1) [OF assms(1,2)] cache_sizes(2) [OF assms(1,3)]
      cache_lines(1) [OF assms(1,2)] cache_lines(2) [OF assms(1,3)] ds(1) es(1)
    by (simp add: SYS_DEVCON_CacheCoherencySet_def Let_def coherency_bits)
  with ds es show ?thesis by blast
qed

lemma cache_init_complete_witness:
  "\<exists>is ds c'. SYS_DEVCON_CacheInit 3 pic32mz_cp0 0 = Some (map (Pair Index_Store_Tag_I) is @ map (Pair Index_Store_Tag_D) ds, c') \<and>
     length is = 256"
  using cache_init_complete [of pic32mz_cp0 3 0]
  by (auto simp: pic32mz_fields line_bytes_def sets_def ways_def)

text \<open>
  The coherency of \<open>kseg0\<close> is read back as it was set, for the four settings of the enumeration, and setting it changes no other bit
  of \<open>Config\<close>; the setting lasts through further ones only by its last value.
\<close>

theorem cache_coherency_roundtrip:
  assumes "x < 4"
  shows "SYS_DEVCON_CacheCoherencyGet (SYS_DEVCON_CacheCoherencySet x c) = x \<and>
     drop_bit 3 (CONFIG (SYS_DEVCON_CacheCoherencySet x c)) = drop_bit 3 (CONFIG c) \<and>
     CONFIG1 (SYS_DEVCON_CacheCoherencySet x c) = CONFIG1 c \<and>
     SYS_DEVCON_CacheCoherencySet y (SYS_DEVCON_CacheCoherencySet x c) = SYS_DEVCON_CacheCoherencySet y c"
proof -
  have "unat x < 4" using assms by (simp add: word_less_nat_alt)
  then have "take_bit 2 x = x" using unat_take_bit [of 2 x] by (intro unsigned_word_eqI) simp
  then have x: "bit x n \<Longrightarrow> n < 2" for n by (metis bit_take_bit_iff)
  have m: "(7 :: u32) = mask 3" by (simp add: mask_eq_exp_minus_1)
  have "drop_bit 3 ((w AND NOT 7) OR x) = drop_bit 3 w" for w :: u32
    unfolding m by (rule bit_word_eqI) (auto simp: bit_simps dest: x bit_imp_le_length)
  moreover have "(((w AND NOT 7) OR x) AND NOT 7) OR y = (w AND NOT 7) OR y" for w :: u32
    unfolding m by (rule bit_word_eqI) (auto simp: bit_simps dest: x)
  ultimately show ?thesis
    using coherency_read [OF assms] by (simp add: SYS_DEVCON_CacheCoherencySet_def SYS_DEVCON_CacheCoherencyGet_def Let_def)
qed

lemma cache_coherency_roundtrip_witness:
  "SYS_DEVCON_CacheCoherencyGet (SYS_DEVCON_CacheCoherencySet 2 pic32mz_cp0) = 2"
  using cache_coherency_roundtrip [of 2 pic32mz_cp0 0] by simp

text \<open>
  The geometry queries report what \<open>Config1\<close> says, whatever is in the return register before the call, and the size is the
  product of the three; but for a cache that is absent (a line-size field of zero) the return register is not written, so the
  line size reported, and with it the size, is what an earlier computation left there, and not zero as its callers test for.
\<close>

theorem cache_geometry:
  assumes "has_config1 c"
  shows "SYS_DEVCON_DataCacheAssociativityGet c v0 = of_nat (ways DA c) \<and>
     SYS_DEVCON_InstructionCacheAssociativityGet c v0 = of_nat (ways IA c) \<and>
     SYS_DEVCON_DataCacheLinesPerWayGet c v0 = of_nat (sets DS c) \<and>
     SYS_DEVCON_InstructionCacheLinesPerWayGet c v0 = of_nat (sets IS c) \<and>
     (if field DL c = 0 then SYS_DEVCON_DataCacheLineSizeGet c v0 = v0
      else unat (SYS_DEVCON_DataCacheLineSizeGet c v0) = line_bytes DL c \<and>
        unat (SYS_DEVCON_DataCacheSizeGet c v0) = line_bytes DL c * (sets DS c * ways DA c)) \<and>
     (if field IL c = 0 then SYS_DEVCON_InstructionCacheLineSizeGet c v0 = v0
      else unat (SYS_DEVCON_InstructionCacheLineSizeGet c v0) = line_bytes IL c \<and>
        unat (SYS_DEVCON_InstructionCacheSizeGet c v0) = line_bytes IL c * (sets IS c * ways IA c))"
proof -
  have pos: "DL \<le> 29" "IL \<le> 29" "DA \<le> 29" "IA \<le> 29" "DS \<le> 29" "IS \<le> 29"
    by (simp_all add: DL_def IL_def DA_def IA_def DS_def IS_def)
  have zero: "get_linesize q c v0 = v0" if "q \<le> 29" "field q c = 0" for q
    using that field_zero [OF that(1), of c] by (simp add: get_linesize_def)
  have "line_bytes q c < 2 ^ 32" for q
    unfolding line_bytes_def by (rule power_strict_increasing [OF field_shift]) simp
  then have "unat (of_nat (line_bytes q c) :: u32) = line_bytes q c" for q by (rule unat_small)
  then have line: "unat (2 ^ (field q c + 1) :: u32) = line_bytes q c" for q by (simp add: line_bytes_def)
  have bytes: "unat (of_nat (line_bytes lp c * (sets sp c * ways wp c)) :: u32) = line_bytes lp c * (sets sp c * ways wp c)" for lp sp wp
    using le_less_trans [OF size_le, of "2 ^ 32" lp c sp wp] by (intro unat_small) simp
  show ?thesis
    unfolding SYS_DEVCON_DataCacheAssociativityGet_def SYS_DEVCON_InstructionCacheAssociativityGet_def
      SYS_DEVCON_DataCacheLinesPerWayGet_def SYS_DEVCON_InstructionCacheLinesPerWayGet_def SYS_DEVCON_DataCacheLineSizeGet_def
      SYS_DEVCON_DataCacheSizeGet_def SYS_DEVCON_InstructionCacheLineSizeGet_def SYS_DEVCON_InstructionCacheSizeGet_def
    using cache_sizes [OF assms] cache_lines [OF assms] zero [OF pos(1)] zero [OF pos(2)] bytes line
      get_associativity_ways [OF assms pos(3)] get_associativity_ways [OF assms pos(4)] get_lines_sets [OF assms pos(5)]
      get_lines_sets [OF assms pos(6)]
    by (simp add: pic32_get_dcache_associativity_def pic32_get_icache_associativity_def pic32_get_dcache_lines_per_way_def
        pic32_get_icache_lines_per_way_def pic32_get_dcache_linesize_def pic32_get_icache_linesize_def del: power_Suc add_Suc_right of_nat_mult)
qed

lemma cache_geometry_witness:
  "unat (SYS_DEVCON_DataCacheSizeGet pic32mz_cp0 5) = 4096 \<and>
   SYS_DEVCON_DataCacheLineSizeGet (pic32mz_cp0\<lparr>CONFIG1 := 0\<rparr>) 5 = 5"
proof -
  have "field DL (pic32mz_cp0\<lparr>CONFIG1 := 0\<rparr>) = 0" "has_config1 (pic32mz_cp0\<lparr>CONFIG1 := 0\<rparr>)"
    using pic32mz_fields(1) by (simp_all add: field_def has_config1_def)
  with cache_geometry [of "pic32mz_cp0\<lparr>CONFIG1 := 0\<rparr>" 5] cache_geometry [OF pic32mz_fields(1), of 5]
  show ?thesis by (simp add: pic32mz_fields line_bytes_def sets_def ways_def)
qed

end
