(* ===== verification/Framework.thy ===== *)
theory Framework
  imports Boot
begin

text \<open>
  The services of the generated framework that the program links but does not call (\<open>sys_ports_static.c\<close>, \<open>sys_devcon.c\<close>,
  \<open>sys_clk_pic32mz.c\<close>, \<open>sys_reset.c\<close>). A service is the list of its library calls, with \<open>irq\<close> the interrupt enable bit before it. Which
  features the device has is known to the peripheral library: \<open>exists\<close> is an argument.
\<close>

section \<open>Library calls\<close>

datatype feature =
    PortsOpenDrain | ChangeNotice | ChangeNoticePullUp | PinChangeNotice | ChangeNoticeInIdle | PinMode
  | PortsRemapInput | PortsRemapOutput | TraceOutput | OnWaitAction | SoftwareResetTrigger | NmiCounter

datatype pin_mode = PORTS_PIN_MODE_ANALOG | PORTS_PIN_MODE_DIGITAL
datatype pin_direction = SYS_PORTS_DIRECTION_INPUT | SYS_PORTS_DIRECTION_OUTPUT
datatype pull_up_status = SYS_PORTS_PULLUP_DISABLE | SYS_PORTS_PULLUP_ENABLE
datatype power_mode = SYS_POWER_MODE_IDLE | SYS_POWER_MODE_SLEEP
datatype on_wait = OSC_ON_WAIT_IDLE | OSC_ON_WAIT_SLEEP

datatype service_call =
    Ev event
  | SYS_ASSERT_unsupported
  | PLIB_PORTS_Set port u16 u16 | PLIB_PORTS_Clear port u16 | PLIB_PORTS_Toggle port u16
  | PLIB_PORTS_DirectionInputSet port u16 | PLIB_PORTS_OpenDrainDisable port u16
  | PLIB_PORTS_ChangeNoticeEnable | PLIB_PORTS_ChangeNoticeDisable
  | PLIB_PORTS_ChangeNoticeInIdleEnable | PLIB_PORTS_ChangeNoticeInIdleDisable
  | PLIB_PORTS_ChangeNoticePullUpEnable nat | PLIB_PORTS_ChangeNoticePullUpDisable nat
  | PLIB_PORTS_PinChangeNoticeEnable nat | PLIB_PORTS_PinChangeNoticeDisable nat
  | PLIB_PORTS_PinModeSelect nat pin_mode
  | PLIB_PORTS_PinWrite port nat bool | PLIB_PORTS_PinToggle port nat | PLIB_PORTS_PinSet port nat | PLIB_PORTS_PinClear port nat
  | PLIB_PORTS_PinDirectionOutputSet port nat | PLIB_PORTS_PinDirectionInputSet port nat
  | PLIB_PORTS_PinOpenDrainEnable port nat | PLIB_PORTS_PinOpenDrainDisable port nat
  | PLIB_DEVCON_DeviceRegistersUnlock_PPS
  | PLIB_DEVCON_JTAGPortEnable | PLIB_DEVCON_JTAGPortDisable | PLIB_DEVCON_TraceOutputEnable | PLIB_DEVCON_TraceOutputDisable
  | PLIB_OSC_OnWaitActionSet on_wait | asm_wait
  | PLIB_OSC_SecondaryEnable | PLIB_OSC_SecondaryDisable
  | PLIB_RESET_ReasonClear u32 | PLIB_RESET_SoftwareResetEnable | PLIB_RESET_NmiCounterValueSet u32

section \<open>Ports\<close>

text \<open>The reads return what the library reads, an argument; three services assert that the device does not support them.\<close>

definition SYS_PORTS_Read :: "(port \<Rightarrow> u16) \<Rightarrow> port \<Rightarrow> u16" where "SYS_PORTS_Read get channel = get channel"
definition SYS_PORTS_DirectionGet :: "(port \<Rightarrow> u16) \<Rightarrow> port \<Rightarrow> u16" where "SYS_PORTS_DirectionGet get channel = get channel"
definition SYS_PORTS_PinRead :: "(port \<Rightarrow> nat \<Rightarrow> bool) \<Rightarrow> port \<Rightarrow> nat \<Rightarrow> bool" where
  "SYS_PORTS_PinRead get channel bitPos = get channel bitPos"

definition SYS_PORTS_LatchedGet :: "port \<Rightarrow> service_call list \<times> u16" where
  "SYS_PORTS_LatchedGet channel = ([SYS_ASSERT_unsupported], 0)"
definition SYS_PORTS_InterruptStatusGet :: "port \<Rightarrow> service_call list \<times> u16" where
  "SYS_PORTS_InterruptStatusGet channel = ([SYS_ASSERT_unsupported], 0)"
definition SYS_PORTS_PinLatchedGet :: "port \<Rightarrow> nat \<Rightarrow> service_call list \<times> bool" where
  "SYS_PORTS_PinLatchedGet channel bitPos = ([SYS_ASSERT_unsupported], False)"

definition SYS_PORTS_PinPullUpEnable :: "port \<Rightarrow> nat \<Rightarrow> service_call list" where
  "SYS_PORTS_PinPullUpEnable channel bitPos = [SYS_ASSERT_unsupported]"
definition SYS_PORTS_PinPullUpDisable :: "port \<Rightarrow> nat \<Rightarrow> service_call list" where
  "SYS_PORTS_PinPullUpDisable channel bitPos = [SYS_ASSERT_unsupported]"
definition SYS_PORTS_PinPullDownEnable :: "port \<Rightarrow> nat \<Rightarrow> service_call list" where
  "SYS_PORTS_PinPullDownEnable channel bitPos = [SYS_ASSERT_unsupported]"
definition SYS_PORTS_PinPullDownDisable :: "port \<Rightarrow> nat \<Rightarrow> service_call list" where
  "SYS_PORTS_PinPullDownDisable channel bitPos = [SYS_ASSERT_unsupported]"
definition SYS_PORTS_InterruptEnable :: "port \<Rightarrow> nat \<Rightarrow> service_call list" where
  "SYS_PORTS_InterruptEnable channel bitPos = [SYS_ASSERT_unsupported]"

definition SYS_PORTS_Write :: "port \<Rightarrow> u16 \<Rightarrow> service_call list" where
  "SYS_PORTS_Write channel v = [Ev (Port (PLIB_PORTS_Write channel v))]"
definition SYS_PORTS_Set :: "port \<Rightarrow> u16 \<Rightarrow> u16 \<Rightarrow> service_call list" where
  "SYS_PORTS_Set channel v m = [PLIB_PORTS_Set channel v m]"
definition SYS_PORTS_Clear :: "port \<Rightarrow> u16 \<Rightarrow> service_call list" where
  "SYS_PORTS_Clear channel clearMask = [PLIB_PORTS_Clear channel clearMask]"
definition SYS_PORTS_Toggle :: "port \<Rightarrow> u16 \<Rightarrow> service_call list" where
  "SYS_PORTS_Toggle channel toggleMask = [PLIB_PORTS_Toggle channel toggleMask]"

definition SYS_PORTS_DirectionSelect :: "pin_direction \<Rightarrow> port \<Rightarrow> u16 \<Rightarrow> service_call list" where
  "SYS_PORTS_DirectionSelect pinDir channel m =
     (if pinDir = SYS_PORTS_DIRECTION_INPUT then [PLIB_PORTS_DirectionInputSet channel m]
      else [Ev (Port (PLIB_PORTS_DirectionOutputSet channel m))])"

definition SYS_PORTS_OpenDrainEnable :: "(feature \<Rightarrow> bool) \<Rightarrow> port \<Rightarrow> u16 \<Rightarrow> service_call list" where
  "SYS_PORTS_OpenDrainEnable exists channel m =
     (if exists PortsOpenDrain then [Ev (Port (PLIB_PORTS_OpenDrainEnable channel m))] else [])"
definition SYS_PORTS_OpenDrainDisable :: "(feature \<Rightarrow> bool) \<Rightarrow> port \<Rightarrow> u16 \<Rightarrow> service_call list" where
  "SYS_PORTS_OpenDrainDisable exists channel m = (if exists PortsOpenDrain then [PLIB_PORTS_OpenDrainDisable channel m] else [])"

definition SYS_PORTS_ChangeNotificationGlobalEnable :: "(feature \<Rightarrow> bool) \<Rightarrow> service_call list" where
  "SYS_PORTS_ChangeNotificationGlobalEnable exists = (if exists ChangeNotice then [PLIB_PORTS_ChangeNoticeEnable] else [])"
definition SYS_PORTS_ChangeNotificationGlobalDisable :: "(feature \<Rightarrow> bool) \<Rightarrow> service_call list" where
  "SYS_PORTS_ChangeNotificationGlobalDisable exists = (if exists ChangeNotice then [PLIB_PORTS_ChangeNoticeDisable] else [])"
definition SYS_PORTS_GlobalChangeNotificationDisable :: "(feature \<Rightarrow> bool) \<Rightarrow> service_call list" where
  "SYS_PORTS_GlobalChangeNotificationDisable exists = (if exists ChangeNotice then [PLIB_PORTS_ChangeNoticeDisable] else [])"

definition SYS_PORTS_ChangeNotificationEnable :: "(feature \<Rightarrow> bool) \<Rightarrow> nat \<Rightarrow> pull_up_status \<Rightarrow> service_call list" where
  "SYS_PORTS_ChangeNotificationEnable exists pinNum v =
     (if exists ChangeNoticePullUp
      then (case v of SYS_PORTS_PULLUP_DISABLE \<Rightarrow> [PLIB_PORTS_ChangeNoticePullUpDisable pinNum]
            | SYS_PORTS_PULLUP_ENABLE \<Rightarrow> [PLIB_PORTS_ChangeNoticePullUpEnable pinNum])
      else []) @
     (if exists PinChangeNotice then [PLIB_PORTS_PinChangeNoticeEnable pinNum] else [])"
definition SYS_PORTS_ChangeNotificationDisable :: "(feature \<Rightarrow> bool) \<Rightarrow> nat \<Rightarrow> service_call list" where
  "SYS_PORTS_ChangeNotificationDisable exists pinNum =
     (if exists PinChangeNotice then [PLIB_PORTS_PinChangeNoticeDisable pinNum] else [])"
definition SYS_PORTS_ChangeNotificationInIdleModeEnable :: "(feature \<Rightarrow> bool) \<Rightarrow> service_call list" where
  "SYS_PORTS_ChangeNotificationInIdleModeEnable exists =
     (if exists ChangeNoticeInIdle then [PLIB_PORTS_ChangeNoticeInIdleEnable] else [])"
definition SYS_PORTS_ChangeNotificationInIdleModeDisable :: "(feature \<Rightarrow> bool) \<Rightarrow> service_call list" where
  "SYS_PORTS_ChangeNotificationInIdleModeDisable exists =
     (if exists ChangeNoticeInIdle then [PLIB_PORTS_ChangeNoticeInIdleDisable] else [])"
definition SYS_PORTS_ChangeNotificationPullUpEnable :: "(feature \<Rightarrow> bool) \<Rightarrow> nat \<Rightarrow> service_call list" where
  "SYS_PORTS_ChangeNotificationPullUpEnable exists pinNum =
     (if exists ChangeNoticePullUp then [PLIB_PORTS_ChangeNoticePullUpEnable pinNum] else [])"
definition SYS_PORTS_ChangeNotificationPullUpDisable :: "(feature \<Rightarrow> bool) \<Rightarrow> nat \<Rightarrow> service_call list" where
  "SYS_PORTS_ChangeNotificationPullUpDisable exists pinNum =
     (if exists ChangeNoticePullUp then [PLIB_PORTS_ChangeNoticePullUpDisable pinNum] else [])"

definition SYS_PORTS_PinModeSelect :: "(feature \<Rightarrow> bool) \<Rightarrow> nat \<Rightarrow> pin_mode \<Rightarrow> service_call list" where
  "SYS_PORTS_PinModeSelect exists pin mode = (if exists PinMode then [PLIB_PORTS_PinModeSelect pin mode] else [])"
definition SYS_PORTS_PinWrite :: "port \<Rightarrow> nat \<Rightarrow> bool \<Rightarrow> service_call list" where
  "SYS_PORTS_PinWrite channel bitPos v = [PLIB_PORTS_PinWrite channel bitPos v]"
definition SYS_PORTS_PinToggle :: "port \<Rightarrow> nat \<Rightarrow> service_call list" where
  "SYS_PORTS_PinToggle channel bitPos = [PLIB_PORTS_PinToggle channel bitPos]"
definition SYS_PORTS_PinSet :: "port \<Rightarrow> nat \<Rightarrow> service_call list" where
  "SYS_PORTS_PinSet channel bitPos = [PLIB_PORTS_PinSet channel bitPos]"
definition SYS_PORTS_PinClear :: "port \<Rightarrow> nat \<Rightarrow> service_call list" where
  "SYS_PORTS_PinClear channel bitPos = [PLIB_PORTS_PinClear channel bitPos]"

definition SYS_PORTS_PinDirectionSelect :: "pin_direction \<Rightarrow> port \<Rightarrow> nat \<Rightarrow> service_call list" where
  "SYS_PORTS_PinDirectionSelect pinDir channel bitPos =
     (if pinDir = SYS_PORTS_DIRECTION_OUTPUT then [PLIB_PORTS_PinDirectionOutputSet channel bitPos]
      else [PLIB_PORTS_PinDirectionInputSet channel bitPos])"
definition SYS_PORTS_PinOpenDrainEnable :: "(feature \<Rightarrow> bool) \<Rightarrow> port \<Rightarrow> nat \<Rightarrow> service_call list" where
  "SYS_PORTS_PinOpenDrainEnable exists channel bitPos =
     (if exists PortsOpenDrain then [PLIB_PORTS_PinOpenDrainEnable channel bitPos] else [])"
definition SYS_PORTS_PinOpenDrainDisable :: "(feature \<Rightarrow> bool) \<Rightarrow> port \<Rightarrow> nat \<Rightarrow> service_call list" where
  "SYS_PORTS_PinOpenDrainDisable exists channel bitPos =
     (if exists PortsOpenDrain then [PLIB_PORTS_PinOpenDrainDisable channel bitPos] else [])"

definition SYS_PORTS_RemapInput :: "(feature \<Rightarrow> bool) \<Rightarrow> input_func \<Rightarrow> rp_pin \<Rightarrow> service_call list" where
  "SYS_PORTS_RemapInput exists f pin =
     (if exists PortsRemapInput
      then [Ev (Osc PLIB_DEVCON_SystemUnlock), PLIB_DEVCON_DeviceRegistersUnlock_PPS, Ev (Lib (PLIB_PORTS_RemapInput f pin))]
      else [])"
definition SYS_PORTS_RemapOutput :: "(feature \<Rightarrow> bool) \<Rightarrow> output_func \<Rightarrow> rp_pin \<Rightarrow> service_call list" where
  "SYS_PORTS_RemapOutput exists f pin =
     (if exists PortsRemapOutput
      then [Ev (Osc PLIB_DEVCON_SystemUnlock), PLIB_DEVCON_DeviceRegistersUnlock_PPS, Ev (Lib (PLIB_PORTS_RemapOutput f pin))]
      else [])"

section \<open>Device control\<close>

definition SYS_DEVCON_Reinitialize :: "devcon_object \<Rightarrow> devcon_object" where
  "SYS_DEVCON_Reinitialize ob = ob\<lparr>devcon_status := SYS_STATUS_READY, devcon_state := SYS_DEVCON_STATE_READY\<rparr>"
definition SYS_DEVCON_Deinitialize :: "devcon_object \<Rightarrow> devcon_object" where
  "SYS_DEVCON_Deinitialize ob = ob\<lparr>devcon_status := SYS_STATUS_UNINITIALIZED\<rparr>"
definition SYS_DEVCON_Status :: "devcon_object \<Rightarrow> sys_status" where "SYS_DEVCON_Status ob = devcon_status ob"

definition SYS_DEVCON_Tasks :: "devcon_object \<Rightarrow> devcon_object" where
  "SYS_DEVCON_Tasks ob = (case devcon_state ob of
     SYS_DEVCON_STATE_INIT \<Rightarrow> ob | SYS_DEVCON_STATE_BUSY \<Rightarrow> ob | SYS_DEVCON_STATE_READY \<Rightarrow> ob)"

definition SYS_DEVCON_JTAGEnable :: "service_call list" where "SYS_DEVCON_JTAGEnable = [PLIB_DEVCON_JTAGPortEnable]"
definition SYS_DEVCON_JTAGDisable :: "service_call list" where "SYS_DEVCON_JTAGDisable = [PLIB_DEVCON_JTAGPortDisable]"
definition SYS_DEVCON_TraceEnable :: "(feature \<Rightarrow> bool) \<Rightarrow> service_call list" where
  "SYS_DEVCON_TraceEnable exists = (if exists TraceOutput then [PLIB_DEVCON_TraceOutputEnable] else [])"
definition SYS_DEVCON_TraceDisable :: "(feature \<Rightarrow> bool) \<Rightarrow> service_call list" where
  "SYS_DEVCON_TraceDisable exists = (if exists TraceOutput then [PLIB_DEVCON_TraceOutputDisable] else [])"

definition SYS_DEVCON_PowerModeEnter :: "(feature \<Rightarrow> bool) \<Rightarrow> bool \<Rightarrow> power_mode \<Rightarrow> service_call list" where
  "SYS_DEVCON_PowerModeEnter exists irq pwrMode =
     (let op = (case pwrMode of SYS_POWER_MODE_IDLE \<Rightarrow> OSC_ON_WAIT_IDLE | SYS_POWER_MODE_SLEEP \<Rightarrow> OSC_ON_WAIT_SLEEP)
      in (if exists OnWaitAction
          then map Ev (SYS_DEVCON_SystemUnlock irq) @ [PLIB_OSC_OnWaitActionSet op] @ map Ev (SYS_DEVCON_SystemLock irq)
          else []) @ [asm_wait])"

section \<open>Clocks and reset\<close>

definition SYS_CLK_SystemFrequencyGet :: nat where "SYS_CLK_SystemFrequencyGet = SYS_CLK_FREQ"

definition SYS_CLK_ReferenceFrequencyGet :: "nat \<Rightarrow> nat" where
  "SYS_CLK_ReferenceFrequencyGet bus = (if bus = 4 then SYS_CLK_BUS_REFERENCE_4 else 0)"

definition SYS_CLK_SecondaryOscillatorEnable :: "bool \<Rightarrow> bool \<Rightarrow> service_call list" where
  "SYS_CLK_SecondaryOscillatorEnable enabled irq =
     (if \<not> enabled
      then map Ev (SYS_DEVCON_SystemUnlock irq) @ [PLIB_OSC_SecondaryEnable] @ map Ev (SYS_DEVCON_SystemLock irq)
      else [])"
definition SYS_CLK_SecondaryOscillatorDisable :: "bool \<Rightarrow> bool \<Rightarrow> service_call list" where
  "SYS_CLK_SecondaryOscillatorDisable enabled irq =
     (if enabled
      then map Ev (SYS_DEVCON_SystemUnlock irq) @ [PLIB_OSC_SecondaryDisable] @ map Ev (SYS_DEVCON_SystemLock irq)
      else [])"
definition SYS_CLK_SecondaryOscillatorIsEnabled :: "bool \<Rightarrow> bool" where "SYS_CLK_SecondaryOscillatorIsEnabled enabled = enabled"

definition SYS_RESET_ReasonGet :: "u32 \<Rightarrow> u32" where "SYS_RESET_ReasonGet resetReason = resetReason"
definition SYS_RESET_ReasonClear :: "u32 \<Rightarrow> service_call list" where "SYS_RESET_ReasonClear reason = [PLIB_RESET_ReasonClear reason]"
definition SYS_RESET_SoftwareReset :: "(feature \<Rightarrow> bool) \<Rightarrow> service_call list" where
  "SYS_RESET_SoftwareReset exists =
     Ev (Osc PLIB_DEVCON_SystemUnlock) # (if exists SoftwareResetTrigger then [PLIB_RESET_SoftwareResetEnable] else [])"
definition SYS_RESET_NMIDelayCountSet :: "(feature \<Rightarrow> bool) \<Rightarrow> u32 \<Rightarrow> service_call list" where
  "SYS_RESET_NMIDelayCountSet exists nmi_count =
     Ev (Osc PLIB_DEVCON_SystemUnlock) # (if exists NmiCounter then [PLIB_RESET_NmiCounterValueSet nmi_count] else []) @
     [Ev (Osc PLIB_DEVCON_SystemLock)]"

section \<open>The register lock\<close>

text \<open>
  What a run of calls does to the lock and the interrupt enable bit, and which of the calls that need the lock open it makes
  while it is open.
\<close>

record lock_view =
  is_locked :: bool
  enabled :: bool
  effective :: "service_call list"
  lost :: "service_call list"

definition needs_unlock :: "service_call \<Rightarrow> bool" where
  "needs_unlock c = (case c of
     PLIB_DEVCON_DeviceRegistersUnlock_PPS \<Rightarrow> True | PLIB_OSC_OnWaitActionSet x \<Rightarrow> True | PLIB_OSC_SecondaryEnable \<Rightarrow> True
   | PLIB_OSC_SecondaryDisable \<Rightarrow> True | PLIB_RESET_SoftwareResetEnable \<Rightarrow> True | PLIB_RESET_NmiCounterValueSet n \<Rightarrow> True
   | _ \<Rightarrow> False)"

definition lock_step :: "service_call \<Rightarrow> lock_view \<Rightarrow> lock_view" where
  "lock_step c v = (case c of
     Ev (Osc PLIB_DEVCON_SystemUnlock) \<Rightarrow> v\<lparr>is_locked := False\<rparr>
   | Ev (Osc PLIB_DEVCON_SystemLock) \<Rightarrow> v\<lparr>is_locked := True\<rparr>
   | Ev (Interrupts on) \<Rightarrow> v\<lparr>enabled := on\<rparr>
   | _ \<Rightarrow> if needs_unlock c then (if is_locked v then v\<lparr>lost := lost v @ [c]\<rparr> else v\<lparr>effective := effective v @ [c]\<rparr>) else v)"

definition lock_run :: "bool \<Rightarrow> service_call list \<Rightarrow> lock_view" where
  "lock_run irq cs = fold lock_step cs \<lparr>is_locked = True, enabled = irq, effective = [], lost = []\<rparr>"

text \<open>
  The services and the register lock. Every service that needs the lock open opens it before it does its work, and none loses a
  call to the lock; the power mode, the secondary oscillator and the delay count close it again and leave the interrupt
  enable bit as it was. But both remapping services and the software reset return with the registers unlocked.
\<close>

theorem services_and_the_lock:
  "(let v = lock_run irq (SYS_DEVCON_PowerModeEnter exists irq m)
    in is_locked v \<and> enabled v = irq \<and> lost v = [] \<and>
      effective v = (if exists OnWaitAction then [PLIB_OSC_OnWaitActionSet (if m = SYS_POWER_MODE_IDLE then OSC_ON_WAIT_IDLE else OSC_ON_WAIT_SLEEP)] else [])) \<and>
   (let v = lock_run irq (SYS_CLK_SecondaryOscillatorEnable on irq @ SYS_CLK_SecondaryOscillatorDisable True irq)
    in is_locked v \<and> enabled v = irq \<and> lost v = [] \<and>
      effective v = (if on then [] else [PLIB_OSC_SecondaryEnable]) @ [PLIB_OSC_SecondaryDisable]) \<and>
   (let v = lock_run irq (SYS_RESET_NMIDelayCountSet exists n)
    in is_locked v \<and> enabled v = irq \<and> lost v = [] \<and> effective v = (if exists NmiCounter then [PLIB_RESET_NmiCounterValueSet n] else [])) \<and>
   (let v = lock_run irq (SYS_PORTS_RemapInput exists fi pin)
    in is_locked v = (\<not> exists PortsRemapInput) \<and> lost v = []) \<and>
   (let v = lock_run irq (SYS_PORTS_RemapOutput exists fo pin)
    in is_locked v = (\<not> exists PortsRemapOutput) \<and> lost v = []) \<and>
   (let v = lock_run irq (SYS_RESET_SoftwareReset exists)
    in \<not> is_locked v \<and> lost v = [] \<and> effective v = (if exists SoftwareResetTrigger then [PLIB_RESET_SoftwareResetEnable] else []))"
  by (cases irq; cases m)
    (simp_all add: lock_run_def lock_step_def needs_unlock_def Let_def SYS_DEVCON_PowerModeEnter_def SYS_DEVCON_SystemUnlock_def
      SYS_DEVCON_SystemLock_def SYS_CLK_SecondaryOscillatorEnable_def SYS_CLK_SecondaryOscillatorDisable_def
      SYS_RESET_NMIDelayCountSet_def SYS_PORTS_RemapInput_def SYS_PORTS_RemapOutput_def SYS_RESET_SoftwareReset_def)

section \<open>Pins as masks\<close>

text \<open>
  The port registers that the services set, and the effect of the calls on them as the library documents it: a mask call acts on the
  bits of its mask, a pin call on one bit.
\<close>

record port_regs =
  tris :: "port \<Rightarrow> u16"
  odc :: "port \<Rightarrow> u16"
  lat :: "port \<Rightarrow> u16"

definition regs_step :: "service_call \<Rightarrow> port_regs \<Rightarrow> port_regs" where
  "regs_step c r = (case c of
     Ev (Port (PLIB_PORTS_DirectionOutputSet p m)) \<Rightarrow> r\<lparr>tris := (tris r)(p := tris r p AND NOT m)\<rparr>
   | PLIB_PORTS_DirectionInputSet p m \<Rightarrow> r\<lparr>tris := (tris r)(p := tris r p OR m)\<rparr>
   | PLIB_PORTS_PinDirectionOutputSet p b \<Rightarrow> r\<lparr>tris := (tris r)(p := unset_bit b (tris r p))\<rparr>
   | PLIB_PORTS_PinDirectionInputSet p b \<Rightarrow> r\<lparr>tris := (tris r)(p := set_bit b (tris r p))\<rparr>
   | Ev (Port (PLIB_PORTS_OpenDrainEnable p m)) \<Rightarrow> r\<lparr>odc := (odc r)(p := odc r p OR m)\<rparr>
   | PLIB_PORTS_OpenDrainDisable p m \<Rightarrow> r\<lparr>odc := (odc r)(p := odc r p AND NOT m)\<rparr>
   | PLIB_PORTS_PinOpenDrainEnable p b \<Rightarrow> r\<lparr>odc := (odc r)(p := set_bit b (odc r p))\<rparr>
   | PLIB_PORTS_PinOpenDrainDisable p b \<Rightarrow> r\<lparr>odc := (odc r)(p := unset_bit b (odc r p))\<rparr>
   | PLIB_PORTS_Clear p m \<Rightarrow> r\<lparr>lat := (lat r)(p := lat r p AND NOT m)\<rparr>
   | PLIB_PORTS_Set p v m \<Rightarrow> r\<lparr>lat := (lat r)(p := lat r p OR (v AND m))\<rparr>
   | PLIB_PORTS_Toggle p m \<Rightarrow> r\<lparr>lat := (lat r)(p := lat r p XOR m)\<rparr>
   | PLIB_PORTS_PinClear p b \<Rightarrow> r\<lparr>lat := (lat r)(p := unset_bit b (lat r p))\<rparr>
   | PLIB_PORTS_PinSet p b \<Rightarrow> r\<lparr>lat := (lat r)(p := set_bit b (lat r p))\<rparr>
   | PLIB_PORTS_PinToggle p b \<Rightarrow> r\<lparr>lat := (lat r)(p := flip_bit b (lat r p))\<rparr>
   | PLIB_PORTS_PinWrite p b v \<Rightarrow> r\<lparr>lat := (lat r)(p := (if v then set_bit b else unset_bit b) (lat r p))\<rparr>
   | _ \<Rightarrow> r)"

definition same_effect :: "service_call list \<Rightarrow> service_call list \<Rightarrow> bool" where
  "same_effect cs ds \<longleftrightarrow> (\<forall>r. fold regs_step cs r = fold regs_step ds r)"

text \<open>
  A pin service does what the service for a whole port does with the mask of that pin: for both directions (the one tests for the
  input, the other for the output), open drain, clearing, setting, toggling and writing.
\<close>

theorem pins_are_masks:
  "same_effect (SYS_PORTS_PinDirectionSelect d p b) (SYS_PORTS_DirectionSelect d p (push_bit b 1)) \<and>
   same_effect (SYS_PORTS_PinOpenDrainEnable exists p b) (SYS_PORTS_OpenDrainEnable exists p (push_bit b 1)) \<and>
   same_effect (SYS_PORTS_PinOpenDrainDisable exists p b) (SYS_PORTS_OpenDrainDisable exists p (push_bit b 1)) \<and>
   same_effect (SYS_PORTS_PinClear p b) (SYS_PORTS_Clear p (push_bit b 1)) \<and>
   same_effect (SYS_PORTS_PinSet p b) (SYS_PORTS_Set p (- 1) (push_bit b 1)) \<and>
   same_effect (SYS_PORTS_PinToggle p b) (SYS_PORTS_Toggle p (push_bit b 1)) \<and>
   same_effect (SYS_PORTS_PinWrite p b v) (if v then SYS_PORTS_PinSet p b else SYS_PORTS_PinClear p b)"
  by (cases d)
    (simp_all add: same_effect_def regs_step_def SYS_PORTS_PinDirectionSelect_def SYS_PORTS_DirectionSelect_def
      SYS_PORTS_PinOpenDrainEnable_def SYS_PORTS_OpenDrainEnable_def SYS_PORTS_PinOpenDrainDisable_def SYS_PORTS_OpenDrainDisable_def
      SYS_PORTS_PinClear_def SYS_PORTS_Clear_def SYS_PORTS_PinSet_def SYS_PORTS_Set_def SYS_PORTS_PinToggle_def SYS_PORTS_Toggle_def
      SYS_PORTS_PinWrite_def set_bit_eq_or unset_bit_eq_and_not flip_bit_eq_xor)

end
