(* ===== verification/Spec2Isabelle.thy ===== *)
theory Spec2Isabelle
  imports Program Blanking Interleaving Answer_Race Pins Fault Cache Framework
begin

text \<open>
  A model of the firmware of the disting EX eurorack module (\<open>src/src\<close>), a PIC32MZ program without an operating system: audio processing
  in blocks filled and emptied by DMA, MIDI and two control buses, two OLED displays, settings and a calibration in flash memory.

  The program. \<open>main\<close> starts the board (\<open>SYS_Initialize\<close>, \<open>APP_Initialize\<close>) and runs \<open>APP_Tasks\<close>, which tests the external memory, loads
  the settings and enters \<open>displayLoop\<close> for good. The loop draws and transfers the display; wherever it waits or works for long it calls
  \<open>CHECK_SERVICE_AUDIO\<close>. When both halves of the DMA blocks are due, this audio service runs the algorithm on a half, reads the converters and
  controls, empties the queues of received bytes and sends a byte of MIDI. Three interrupts put received bytes into queues: UART 4 (MIDI), UART 2
  (the select bus) and the I2C slave.

  The state is one extensible record that grows from theory to theory as the source files use each other's globals: \<open>hw\<close> (the clock and the trace
  of volatile writes), \<open>shared\<close>, \<open>display\<close>, \<open>midi_out\<close>, \<open>midi_in\<close>, \<open>recall\<close>, \<open>i2c\<close>, \<open>receive\<close>, \<open>app\<close>. Fields, functions and constants keep the names of
  the code. A function that can fail to return has an option as its result, \<open>None\<close> for the wait that never ends. \<open>None\<close> is also the result of
  an access that C does not define, for these accesses: the stores into the message buffers of the three parsers (\<open>set_message\<close>, \<open>set_recall\<close>,
  \<open>i2c_byte\<close>), the reads of a message (\<open>message_byte\<close>, \<open>message_slice\<close>), the columns of the drawing operations, the tables of texts and functions
  (\<open>table_entry\<close>, \<open>select_function\<close>). The theorems of termination and safety say that \<open>None\<close> does not occur. The other stores into arrays are
  updates of lists; that their index is within the list is part of the invariants (\<open>ring_inv\<close> for the queues, \<open>parser_inv\<close> and \<open>recall_inv\<close> for the
  buffers of system exclusive messages, whose stores the code guards by a count, \<open>audio_blocks\<close>, \<open>channel_inv\<close>, \<open>alg_inv\<close>).
\<close>

text \<open>
  The theories and the code.

  \<^item> \<open>Prelude\<close>: word types, masks, iteration in the option monad. \<open>Peripherals\<close>, \<open>Machine\<close>: registers, status flags, library calls and the
    waiting loops. A device is a function from flags and time to booleans; every poll is a tick. \<open>emits\<close> describes driver code by its writes.
  \<^item> \<open>Ring_Queue\<close>: the locales \<open>bounded_fifo\<close>, \<open>lossless_fifo\<close> and \<open>ring_index\<close>, the contract of the four byte queues,
    which \<open>Midi_Out\<close>, \<open>I2C_Slave\<close> and \<open>Receive\<close> interpret on their own index arithmetic.
  \<^item> \<open>Midi_In\<close>, \<open>Midi_Out\<close> (\<open>midi.c\<close>), \<open>Recall\<close> (\<open>recall.c\<close>): the two byte parsers, with the message handler as the locale \<open>message_handler\<close>, and the
    output queue. \<open>Midi_Spec\<close> is the specification of the MIDI parser, a receiver with a state of its own that shares no definition with
    the model of the code: \<open>ProcessMIDI\<close> implements it on every stream of bytes, along \<open>receiver_of\<close>. \<open>parse_byte\<close> is a step of that proof, on
    the variables of the code.
  \<^item> \<open>I2C_Slave\<close>, \<open>I2C_Master\<close> (\<open>i2c.c\<close>): the command protocol and its interrupt handler; the transfers of the master, the codec.
  \<^item> \<open>Font\<close>, \<open>Display\<close>, \<open>Display_HW\<close>, \<open>Display_Refresh\<close> (\<open>display.c\<close>, \<open>boot_displayHW.c\<close>, \<open>displayHW.c\<close>): drawing, the commands to both panels, the
    polled transfer. The locale \<open>audio_frame\<close> is what the drawing code relies on when it calls the audio service.
  \<^item> \<open>Shared_State\<close>, \<open>App_State\<close>, \<open>Receive\<close>, \<open>Audio_Service\<close> (\<open>app.c\<close>, \<open>app.h\<close>): controls, converters, the receive interrupts and queues, and the
    service, on which \<open>audio_frame\<close> is interpreted.
  \<^item> \<open>Algorithm\<close>, \<open>Audio\<close>, \<open>Settings\<close>, \<open>Main_Loop\<close> (\<open>algorithm.cc\<close>): settings and user interface, the audio step, saving and loading, the page shown.
    The locale \<open>loop_service\<close> is what drawing a page relies on in its service, with a predicate \<open>T\<close> that the service keeps; \<open>display_service\<close>, without
    such a predicate, is what the display loop needs: \<open>Main_Loop\<close> interprets it on the code's service, \<open>Interrupts\<close>
    on that service with receive interrupts before and after it. \<open>Blanking\<close>: the blanking timer over refreshes with the code's service, as long
    as no byte arrives and no encoder is turned; it interprets \<open>loop_service\<close> with \<open>at_rest\<close> and the value of the timer for \<open>T\<close>.
  \<^item> \<open>Nvm\<close> (\<open>nvm.c\<close>), \<open>Calibrate\<close> (\<open>calibrate.c\<close>): programming the flash; checking and using the calibration.
  \<^item> \<open>Boot\<close> (\<open>sys_clk_pic32mz.c\<close>, \<open>sys_devcon.c\<close>, \<open>sys_ports_static.c\<close>, \<open>system_init.c\<close>, \<open>system_exceptions.c\<close>): clocks, register lock, ports.
    \<open>Ports\<close>: what a trace makes of the direction registers, and the outputs that the writes of a trace drive.
    \<open>Cache\<close> (\<open>sys_devcon_cache_pic32mz.S\<close>, \<open>sys_devcon_pic32mz.c\<close>): the cache routines, from the assembler code with its delay slots. The
    trace of a run has the flush of the data cache as one event; its instructions are the list that \<open>pic32_flush_dcache\<close> returns.
    \<open>Framework\<close>: the services of the same files, and of \<open>sys_reset.c\<close>, that the program does not call.
  \<^item> \<open>Startup\<close> (\<open>APP_Initialize\<close>, \<open>setupAudioDMAs\<close>, \<open>configureADC\<close>), \<open>Pins\<close>, \<open>Fault\<close> (\<open>_fassert\<close>), \<open>Program\<close> (\<open>quickSRAMtest\<close>, \<open>APP_Tasks\<close>, \<open>main\<close>): the
    program as a step relation. \<open>Pins\<close>: every output that the set-up writes, read from its trace, is an output of the port table.
    \<open>Interleaving\<close>: the receive interrupts, which may come at any time, between the single accesses of \<open>FlushMIDIRx\<close> to a queue.
    \<open>Answer_Race\<close>: the I2C interrupt between the single stores of an answer.
\<close>

text \<open>
  What is shown.

  \<^item> The composition: \<open>program_never_stuck\<close> (from power-on, through the set-up, with any receive interrupts between the steps of the foreground and around
    every call of the audio service), \<open>display_loop_runs\<close>, \<open>audio_service_total\<close>, \<open>APP_Initialize_completes\<close>. They rest on one invariant, \<open>loop_inv\<close>, that every component keeps.
  \<^item> Protocols: what the parsers deliver for which bytes, refinement of the receiver and of the bounded queues, no byte lost or repeated, the
    answers to I2C queries, the frames on the I2C bus, the commands to the panels and what a panel makes of them.
  \<^item> Audio: which words of the blocks a step writes and with what; that the DMA channels tile the blocks; that the work fits into its half.
  \<^item> Settings and calibration: round trip through the flash, ranges after loading, repairs of bad data, the tables that route inputs.
  \<^item> Boot: the clock frequencies that the drivers assume are those programmed, the pins agree with the ports, the cache operations reach every
    line of their range, or of the cache, once.
  \<^item> Errors: time-outs, a codec that does not answer, texts that do not fit, and the places where the code does not do what it means to: bytes of an
    interrupted message, stray repetitions, a row of flash overwritten while it is programmed, address lines that the memory test does
    not exercise.
\<close>

text \<open>
  Assumptions. They are hypotheses of the theorems that need them, each with a witness on a concrete device.

  \<^item> \<open>responsive\<close>: every peripheral is ready again and again, long enough for the longest sequence of polls of the code (twelve). \<open>finishes\<close>:
    the flash controller ends its operations. \<open>good_bus\<close>: the slave acknowledges. \<open>counter_runs\<close>: the core's cycle counter advances, by less
    than \<open>2 ^ 24\<close> from poll to poll. \<open>env_ok\<close> collects these for the audio service; \<open>ready_board\<close> for the program.
  \<^item> \<open>peaks_lib\<close>: the signal processors (a git submodule) are functions of the calls made to them; \<open>peaks_enums\<close> is the numbering of their
    modes that the code relies on. \<open>float_ops\<close>, \<open>double_ops\<close>: arithmetic with any rounding. \<open>flash_ok\<close>: the flash holds no settings or settings
    that the program wrote, for \<open>algorithm_init\<close> does not check the function numbers it loads.
  \<^item> In \<open>program_never_stuck\<close> interrupts come between two steps of the foreground (two calls of \<open>SYS_Tasks\<close>, two rounds of the display loop) and,
    within a round, before and after each call of the audio service. What they share with the foreground is treated access by access: the
    queues' indices and cells, each written by one side, in \<open>receive_race_lossless\<close>; the answer to an I2C query in \<open>answer_update_race\<close>;
    \<open>recallIgnoreBytes\<close>, which both sides write, in a theorem of \<open>Receive\<close>. A handler is one step: the foreground does not preempt it.
  \<^item> \<open>SPI1_IS_EXT_DISPLAY\<close> is defined, as in the project.

  Recursion. Loops over lists and counters are structural. Waiting loops, the load loop, the wait for the flash and the loops of the cache
  routines are partial functions; the theorems show that they return. There is no fuel.

  Not modelled: the vendor's peripheral library and interrupt service (\<open>PLIB_\<close>, \<open>SYS_INT_\<close>: events and flags), the submodule and the linker
  scripts. The timing of code between polls is not modelled; time passes with polls and reads of volatile registers.
\<close>

end
